(* ===== verification/Prelude.thy ===== *)
theory Prelude
  imports Main "HOL-Library.Multiset"
begin

text \<open>
  Shared vocabulary of the development: the part of the Go language and of its standard library
  that every component uses (64-bit integers and durations, wall-clock instants, a clock that is
  read repeatedly, panics and error results, decimal printing), the collections of simplification
  rules the component theories extend, and generic lemmas on lists and maps.
\<close>

section \<open>Collections of rules\<close>

named_theorems table_simps \<open>how the address-table operations act on each field of the table\<close>
named_theorems lease_simps \<open>how the address-table operations act on the abstract leases\<close>

section \<open>Errors and panics\<close>

text \<open>
  A Go function that returns \<open>(T, error)\<close> becomes a function into \<open>error + T\<close>. A run-time panic is
  not an error value: it unwinds the goroutine, so it is a separate outcome.
\<close>

type_synonym go_error = string

datatype go_panic =
    IndexOutOfRange
  | NilDereference
  | CloseOfClosedChannel
  | DivideByZero
  | ExplicitPanic string

datatype 'a outcome = Return 'a | Panic go_panic

section \<open>Integers, durations and instants\<close>

text \<open>
  \<open>int\<close>, \<open>int64\<close> and \<open>time.Duration\<close> are 64-bit two's complement numbers: arithmetic on them
  wraps, written out by \<open>int64\<close>.
\<close>

definition maxInt64 :: int where
  "maxInt64 = 9223372036854775807"

definition minInt64 :: int where
  "minInt64 = - 9223372036854775808"

definition int64 :: "int \<Rightarrow> int" where
  "int64 x = (x + 9223372036854775808) mod 18446744073709551616 - 9223372036854775808"

definition is_int64 :: "int \<Rightarrow> bool" where
  "is_int64 x \<longleftrightarrow> minInt64 \<le> x \<and> x \<le> maxInt64"

lemma int64_in_range: "is_int64 (int64 x)"
proof -
  have "0 \<le> (x + 9223372036854775808) mod 18446744073709551616" by simp
  moreover have "(x + 9223372036854775808) mod 18446744073709551616 < 18446744073709551616" by simp
  ultimately show ?thesis
    unfolding is_int64_def int64_def minInt64_def maxInt64_def by linarith
qed

lemma int64_id [simp]: "is_int64 x \<Longrightarrow> int64 x = x"
  by (simp add: is_int64_def int64_def minInt64_def maxInt64_def)

text \<open>
  \<open>time.Time\<close> is the number of nanoseconds since the zero instant (January 1, year 1), so the zero
  value of the type is 0. \<open>Time.Sub\<close> saturates at the bounds of \<open>time.Duration\<close>.
\<close>

type_synonym duration = int
type_synonym gotime = int

definition second :: duration where
  "second = 1000000000"

definition time_Sub :: "gotime \<Rightarrow> gotime \<Rightarrow> duration" where
  "time_Sub t u = max minInt64 (min maxInt64 (t - u))"

text \<open>\<open>time.Unix(0, ns)\<close>: the Unix epoch is 62135596800 seconds after the zero instant.\<close>

definition time_Unix_ns :: "int \<Rightarrow> gotime" where
  "time_Unix_ns ns = 62135596800 * second + ns"

text \<open>\<open>time.Duration(n) * time.Second\<close>.\<close>

definition seconds :: "int \<Rightarrow> duration" where
  "seconds n = int64 (n * second)"

lemma time_Sub_in_range: "is_int64 (time_Sub t u)"
  by (simp add: is_int64_def time_Sub_def minInt64_def maxInt64_def)

lemma time_Sub_mono: "t \<le> t' \<Longrightarrow> time_Sub t u \<le> time_Sub t' u"
  by (auto simp: time_Sub_def)

lemma time_Sub_antimono: "u \<le> u' \<Longrightarrow> time_Sub t u' \<le> time_Sub t u"
  by (auto simp: time_Sub_def)

lemma time_Sub_le_iff:
  "minInt64 \<le> d \<Longrightarrow> d < maxInt64 \<Longrightarrow> time_Sub t u \<le> d \<longleftrightarrow> t - u \<le> d"
  by (auto simp: time_Sub_def)

text \<open>
  A clock is the sequence of instants its successive readings return: \<open>Now\<close> returns the first and
  leaves the rest. Nothing is assumed about the sequence unless a theorem says so.
\<close>

type_synonym clock = "nat \<Rightarrow> gotime"

definition clock_rest :: "clock \<Rightarrow> clock" where
  "clock_rest c = (\<lambda>i. c (Suc i))"

definition clock_Now :: "clock \<Rightarrow> gotime \<times> clock" where
  "clock_Now c = (c 0, clock_rest c)"

definition monotone_clock :: "clock \<Rightarrow> bool" where
  "monotone_clock c \<longleftrightarrow> (\<forall>i. c i \<le> c (Suc i))"

lemma clock_rest_apply [simp]: "clock_rest c i = c (Suc i)"
  by (simp add: clock_rest_def)

definition clock_drop :: "nat \<Rightarrow> clock \<Rightarrow> clock" where
  "clock_drop n c = (\<lambda>i. c (n + i))"

lemma clock_drop_apply [simp]: "clock_drop n c i = c (n + i)"
  by (simp add: clock_drop_def)

lemma clock_drop_drop [simp]: "clock_drop m (clock_drop n c) = clock_drop (n + m) c"
  by (simp add: clock_drop_def add.assoc)

lemma clock_drop_0 [simp]: "clock_drop 0 c = c"
  by (simp add: clock_drop_def)

lemma clock_rest_eq_drop: "clock_rest c = clock_drop 1 c"
  by (simp add: clock_rest_def clock_drop_def)

lemma monotone_clock_le: "monotone_clock c \<Longrightarrow> i \<le> j \<Longrightarrow> c i \<le> c j"
  unfolding monotone_clock_def by (metis lift_Suc_mono_le)

lemma monotone_clock_drop: "monotone_clock c \<Longrightarrow> monotone_clock (clock_drop n c)"
  by (simp add: monotone_clock_def)

lemma monotone_clock_rest: "monotone_clock c \<Longrightarrow> monotone_clock (clock_rest c)"
  by (simp add: monotone_clock_def)

section \<open>Lists and maps\<close>

text \<open>
  \<open>for k, v := range m\<close> visits the keys of a map in an order the language leaves open: a loop over a
  map takes the visited keys as an argument, and \<open>range_order\<close> says that they are the map's.
\<close>

definition range_order :: "'k list \<Rightarrow> ('k \<rightharpoonup> 'v) \<Rightarrow> bool" where
  "range_order ks m \<longleftrightarrow> distinct ks \<and> set ks = dom m"

lemma range_order_exists: "finite (dom m) \<Longrightarrow> \<exists>ks. range_order ks m"
  unfolding range_order_def using finite_distinct_list by metis

lemma map_fst_map_pair [simp]: "map fst (map (\<lambda>x. (f x, g x)) xs) = map f xs"
  by simp

lemma map_of_filter_distinct:
  assumes "distinct (map fst ps)"
  shows "map_of (filter P ps) k
           = (case map_of ps k of None \<Rightarrow> None | Some v \<Rightarrow> if P (k, v) then Some v else None)"
  using assms by (induction ps) (auto split: option.splits simp: map_of_eq_None_iff rev_image_eqI)

lemma distinct_take_drop:
  assumes "distinct xs"
  shows "distinct (take n xs @ drop (Suc n) xs)"
  using assms set_take_disj_set_drop_if_distinct [of xs n "Suc n"] by (simp add: Int_commute)

lemma filter_neq_nth_distinct:
  "distinct xs \<Longrightarrow> i < length xs \<Longrightarrow> filter (\<lambda>y. y \<noteq> xs ! i) xs = take i xs @ drop (Suc i) xs"
proof (induction xs arbitrary: i)
  case (Cons x xs)
  show ?case
  proof (cases i)
    case 0
    with Cons.prems show ?thesis by (auto intro!: filter_True)
  next
    case (Suc j)
    with Cons show ?thesis by (auto dest: nth_mem)
  qed
qed simp

lemma fold_invariant_state:
  assumes "\<And>x s. x \<in> set xs \<Longrightarrow> P s \<Longrightarrow> P (f x s)" and "P s"
  shows "P (fold f xs s)"
  using assms by (induction xs arbitrary: s) auto

section \<open>Decimal printing\<close>

text \<open>\<open>%d\<close> of \<open>fmt\<close> and \<open>strconv\<close> on integers.\<close>

definition digit_char :: "nat \<Rightarrow> char" where
  "digit_char d = char_of (48 + d)"

fun show_nat :: "nat \<Rightarrow> string" where
  "show_nat n = (if n < 10 then [digit_char n] else show_nat (n div 10) @ [digit_char (n mod 10)])"

declare show_nat.simps [simp del]

definition show_int :: "int \<Rightarrow> string" where
  "show_int n = (if n < 0 then CHR ''-'' # show_nat (nat (- n)) else show_nat (nat n))"

section \<open>Labelled transition systems\<close>

text \<open>
  The concurrent parts of the program are step relations whose labels say which critical section or
  which goroutine moved. A run is a sequence of labelled steps.
\<close>

inductive run :: "('s \<Rightarrow> 'l \<Rightarrow> 's \<Rightarrow> bool) \<Rightarrow> 's \<Rightarrow> 'l list \<Rightarrow> 's \<Rightarrow> bool" for step where
  run_Nil: "run step s [] s"
| run_snoc: "run step s ls s' \<Longrightarrow> step s' l s'' \<Longrightarrow> run step s (ls @ [l]) s''"

inductive_cases run_NilE [elim!]: "run step s [] s'"

definition reachable :: "('s \<Rightarrow> bool) \<Rightarrow> ('s \<Rightarrow> 'l \<Rightarrow> 's \<Rightarrow> bool) \<Rightarrow> 's \<Rightarrow> bool" where
  "reachable init step s \<longleftrightarrow> (\<exists>s0 ls. init s0 \<and> run step s0 ls s)"

lemma reachable_init: "init s \<Longrightarrow> reachable init step s"
  unfolding reachable_def by (blast intro: run_Nil)

lemma reachable_step: "reachable init step s \<Longrightarrow> step s l s' \<Longrightarrow> reachable init step s'"
  unfolding reachable_def by (blast intro: run_snoc)

lemma run_append: "run step s ls s' \<Longrightarrow> run step s' ls' s'' \<Longrightarrow> run step s (ls @ ls') s''"
  by (rotate_tac 1, induction rule: run.induct) (auto simp flip: append_assoc intro: run_snoc)

lemma run_single: "step s l s' \<Longrightarrow> run step s [l] s'"
  using run_snoc [OF run_Nil] by fastforce

lemma run_Cons: "step s l s' \<Longrightarrow> run step s' ls s'' \<Longrightarrow> run step s (l # ls) s''"
  using run_append [OF run_single] by fastforce

text \<open>The runs by which a step is simulated: none, or one step.\<close>

lemma run_stutter: "v' = v \<Longrightarrow> \<exists>as. run step v as v' \<and> (\<forall>a\<in>set as. P a)"
  by (auto intro: exI [of _ "[]"] run_Nil)

lemma run_performs: "step v a v' \<Longrightarrow> P a \<Longrightarrow> \<exists>as. run step v as v' \<and> (\<forall>a\<in>set as. P a)"
  by (rule exI [of _ "[a]"]) (auto intro: run_single)

text \<open>The contract of an inductive invariant, and what it gives.\<close>

locale invariant_system =
  fixes init :: "'s \<Rightarrow> bool"
    and step :: "'s \<Rightarrow> 'l \<Rightarrow> 's \<Rightarrow> bool"
    and I :: "'s \<Rightarrow> bool"
  assumes init_I: "init s \<Longrightarrow> I s"
    and step_I: "I s \<Longrightarrow> step s l s' \<Longrightarrow> I s'"
begin

lemma run_I: "run step s ls s' \<Longrightarrow> I s \<Longrightarrow> I s'"
  by (induction rule: run.induct) (auto intro: step_I)

lemma reachable_I: "reachable init step s \<Longrightarrow> I s"
  unfolding reachable_def by (blast intro: run_I init_I)

end

text \<open>
  The contract of a simulation: a step of the detailed system, from a state with the invariant, is a
  run of the abstract one between the views of the states, made of operations that the step may
  perform. It extends the contract of the invariant, and gives the same for whole runs.
\<close>

locale simulation = invariant_system +
  fixes abs_step :: "'t \<Rightarrow> 'a \<Rightarrow> 't \<Rightarrow> bool"
    and view :: "'s \<Rightarrow> 't"
    and performs :: "'l \<Rightarrow> 'a \<Rightarrow> bool"
  assumes step_simulated:
    "I s \<Longrightarrow> step s l s' \<Longrightarrow> \<exists>as. run abs_step (view s) as (view s') \<and> (\<forall>a\<in>set as. performs l a)"
begin

lemma run_simulated:
  "run step s ls s' \<Longrightarrow> I s \<Longrightarrow>
     \<exists>as. run abs_step (view s) as (view s') \<and> (\<forall>a\<in>set as. \<exists>l\<in>set ls. performs l a)"
proof (induction rule: run.induct)
  case (run_snoc s ls s' l s'')
  then obtain as where as: "run abs_step (view s) as (view s')" "\<forall>a\<in>set as. \<exists>l\<in>set ls. performs l a"
    by blast
  have "I s'" using run_snoc.hyps(1) run_snoc.prems by (rule run_I)
  from step_simulated [OF this run_snoc.hyps(2)] obtain bs where
    "run abs_step (view s') bs (view s'')" "\<forall>a\<in>set bs. performs l a" by blast
  with as show ?case by (intro exI [of _ "as @ bs"]) (auto intro: run_append)
qed (auto intro: exI [of _ "[]"] run_Nil)

end

end
