(* ===== verification/Address_Table.thy ===== *)
theory Address_Table
  imports Prelude
begin

text \<open>
  Model of \<open>service-discovery-controller/addresstable/address_table.go\<close>: the table of the IPs
  registered for each hostname, its operations, and the body of the pruning loop. Each operation is
  one critical section of the table's mutex; the interleaving of the critical sections of the
  pruning goroutine with the other operations is the subject of \<open>Address_Table_Concurrency\<close>.
\<close>

section \<open>State\<close>

record entry =
  entry_ip :: string
  entry_updateTime :: gotime

text \<open>
  The mutexes and the logger carry no data. The ticker is the state of \<open>clock.Ticker\<close> the code
  relies on: whether it has been stopped.
\<close>

record AddressTable =
  addresses :: "string \<rightharpoonup> entry list"
  clock :: clock
  stalenessThreshold :: duration
  ticker_stopped :: bool
  pausedPruning :: bool
  lastResume :: gotime
  resumePruningDelay :: duration
  warm :: bool

definition new_table :: "duration \<Rightarrow> duration \<Rightarrow> clock \<Rightarrow> AddressTable" where
  "new_table staleness resumeDelay c =
     \<lparr>addresses = Map.empty, clock = c, stalenessThreshold = staleness, ticker_stopped = False,
      pausedPruning = False, lastResume = 0, resumePruningDelay = resumeDelay, warm = False\<rparr>"

text \<open>The ticker cannot be made with an interval that is not positive: \<open>NewTicker\<close> panics.\<close>

definition NewAddressTable :: "duration \<Rightarrow> duration \<Rightarrow> duration \<Rightarrow> clock \<Rightarrow> AddressTable outcome" where
  "NewAddressTable staleness pruningInterval resumeDelay c =
     (if pruningInterval \<le> 0 then Panic (ExplicitPanic ''non-positive interval for NewTicker'')
      else Return (new_table staleness resumeDelay c))"

lemma NewAddressTable_Return:
  "NewAddressTable staleness pruningInterval resumeDelay c = Return t \<longleftrightarrow>
     0 < pruningInterval \<and> t = new_table staleness resumeDelay c"
  by (auto simp: NewAddressTable_def)

section \<open>Operations\<close>

definition isFqdn :: "string \<Rightarrow> bool" where
  "isFqdn s = (let l = length s in if l = 0 then False else s ! (l - 1) = CHR ''.'')"

definition fqdn :: "string \<Rightarrow> string" where
  "fqdn s = (if isFqdn s then s else s @ ''.'')"

fun indexOf_from :: "int \<Rightarrow> entry list \<Rightarrow> string \<Rightarrow> int" where
  "indexOf_from idx [] value = -1"
| "indexOf_from idx (e # es) value =
     (if entry_ip e = value then idx else indexOf_from (idx + 1) es value)"

definition indexOf :: "entry list \<Rightarrow> string \<Rightarrow> int" where
  "indexOf entries value = indexOf_from 0 entries value"

definition entriesForHostname :: "AddressTable \<Rightarrow> string \<Rightarrow> entry list" where
  "entriesForHostname t hostname =
     (case addresses t hostname of Some existing \<Rightarrow> existing | None \<Rightarrow> [])"

definition entriesToIPs :: "entry list \<Rightarrow> string list" where
  "entriesToIPs entries = map entry_ip entries"

text \<open>\<open>at.clock.Now()\<close> and \<open>at.clock.Since(u)\<close> consume one reading of the table's clock.\<close>

definition table_Now :: "AddressTable \<Rightarrow> gotime \<times> AddressTable" where
  "table_Now t = (let (now, c) = clock_Now (clock t) in (now, t\<lparr>clock := c\<rparr>))"

definition table_Since :: "AddressTable \<Rightarrow> gotime \<Rightarrow> duration \<times> AddressTable" where
  "table_Since t u = (let (now, t') = table_Now t in (time_Sub now u, t'))"

text \<open>One iteration of the loop of \<open>Add\<close>, then the loop.\<close>

definition Add_hostname :: "string \<Rightarrow> string \<Rightarrow> AddressTable \<Rightarrow> AddressTable" where
  "Add_hostname ip hostname t =
     (let fqHostname = fqdn hostname;
          entries = entriesForHostname t fqHostname;
          entryIndex = indexOf entries ip
      in if entryIndex = -1
         then let (now, t') = table_Now t
              in t'\<lparr>addresses := (addresses t')(fqHostname \<mapsto>
                      entries @ [\<lparr>entry_ip = ip, entry_updateTime = now\<rparr>])\<rparr>
         else let (now, t') = table_Now t; i = nat entryIndex
              in t'\<lparr>addresses := (addresses t')(fqHostname \<mapsto>
                      entries[i := (entries ! i)\<lparr>entry_updateTime := now\<rparr>])\<rparr>)"

definition Add :: "string list \<Rightarrow> string \<Rightarrow> AddressTable \<Rightarrow> AddressTable" where
  "Add hostnames ip t = fold (Add_hostname ip) hostnames t"

definition Remove_hostname :: "string \<Rightarrow> string \<Rightarrow> AddressTable \<Rightarrow> AddressTable" where
  "Remove_hostname ip hostname t =
     (let fqHostname = fqdn hostname;
          entries = entriesForHostname t fqHostname;
          index = indexOf entries ip
      in if index > -1
         then if length entries = 1
              then t\<lparr>addresses := (addresses t)(fqHostname := None)\<rparr>
              else t\<lparr>addresses := (addresses t)(fqHostname \<mapsto>
                      take (nat index) entries @ drop (nat index + 1) entries)\<rparr>
         else t)"

definition Remove :: "string list \<Rightarrow> string \<Rightarrow> AddressTable \<Rightarrow> AddressTable" where
  "Remove hostnames ip t = fold (Remove_hostname ip) hostnames t"

definition Lookup :: "AddressTable \<Rightarrow> string \<Rightarrow> string list" where
  "Lookup t hostname = entriesToIPs (entriesForHostname t (fqdn hostname))"

fun GetAllAddresses_loop ::
    "string list \<Rightarrow> AddressTable \<Rightarrow> (string \<rightharpoonup> string list) \<Rightarrow> (string \<rightharpoonup> string list)" where
  "GetAllAddresses_loop [] t result = result"
| "GetAllAddresses_loop (address # ks) t result =
     (case addresses t address of
        None \<Rightarrow> GetAllAddresses_loop ks t result
      | Some entries \<Rightarrow> GetAllAddresses_loop ks t (result(address \<mapsto> entriesToIPs entries)))"

definition GetAllAddresses :: "string list \<Rightarrow> AddressTable \<Rightarrow> (string \<rightharpoonup> string list)" where
  "GetAllAddresses ks t = GetAllAddresses_loop ks t Map.empty"

definition SetWarm :: "AddressTable \<Rightarrow> AddressTable" where
  "SetWarm t = t\<lparr>warm := True\<rparr>"

definition IsWarm :: "AddressTable \<Rightarrow> bool" where
  "IsWarm t = warm t"

definition Shutdown :: "AddressTable \<Rightarrow> AddressTable" where
  "Shutdown t = t\<lparr>ticker_stopped := True\<rparr>"

definition PausePruning :: "AddressTable \<Rightarrow> AddressTable" where
  "PausePruning t = t\<lparr>pausedPruning := True\<rparr>"

definition ResumePruning :: "AddressTable \<Rightarrow> AddressTable" where
  "ResumePruning t = (let (now, t') = table_Now t in t'\<lparr>lastResume := now, pausedPruning := False\<rparr>)"

section \<open>Pruning\<close>

text \<open>
  The guard of a tick: pruning is skipped while it is paused, and for \<open>resumePruningDelay\<close> after it
  was resumed. The clock is only read when pruning is not paused.
\<close>

definition pruning_suspended :: "AddressTable \<Rightarrow> bool \<times> AddressTable" where
  "pruning_suspended t =
     (if pausedPruning t then (True, t)
      else let (d, t') = table_Since t (lastResume t) in (d < resumePruningDelay t, t'))"

text \<open>The inner loop of the candidate search: it stops at the first stale entry.\<close>

fun has_stale_entry :: "entry list \<Rightarrow> AddressTable \<Rightarrow> bool \<times> AddressTable" where
  "has_stale_entry [] t = (False, t)"
| "has_stale_entry (e # es) t =
     (let (d, t') = table_Since t (entry_updateTime e)
      in if d > stalenessThreshold t then (True, t') else has_stale_entry es t')"

fun stale_addresses_loop :: "string list \<Rightarrow> AddressTable \<Rightarrow> string list \<times> AddressTable" where
  "stale_addresses_loop [] t = ([], t)"
| "stale_addresses_loop (address # ks) t =
     (let (stale, t1) = has_stale_entry (case addresses t address of None \<Rightarrow> [] | Some es \<Rightarrow> es) t;
          (rest, t2) = stale_addresses_loop ks t1
      in (if stale then address # rest else rest, t2))"

definition addressesWithStaleEntriesWithReadLock ::
    "string list \<Rightarrow> AddressTable \<Rightarrow> string list \<times> AddressTable" where
  "addressesWithStaleEntriesWithReadLock ks t = stale_addresses_loop ks t"

fun fresh_entries :: "entry list \<Rightarrow> AddressTable \<Rightarrow> entry list \<times> AddressTable" where
  "fresh_entries [] t = ([], t)"
| "fresh_entries (e # es) t =
     (let (d, t1) = table_Since t (entry_updateTime e);
          (rest, t2) = fresh_entries es t1
      in (if d \<le> stalenessThreshold t then e # rest else rest, t2))"

text \<open>
  The loop over the candidates carries the totals that are logged at the end. The candidates were
  collected under an earlier read lock, so an address may be gone: the \<open>ok\<close> of the map read.
\<close>

fun prune_loop :: "string list \<Rightarrow> nat \<Rightarrow> nat \<Rightarrow> AddressTable \<Rightarrow> nat \<times> nat \<times> AddressTable" where
  "prune_loop [] oldTotal newTotal t = (oldTotal, newTotal, t)"
| "prune_loop (staleAddr # cs) oldTotal newTotal t =
     (case addresses t staleAddr of
        None \<Rightarrow> prune_loop cs oldTotal newTotal t
      | Some entries \<Rightarrow>
          (let (fresh, t') = fresh_entries entries t
           in prune_loop cs (oldTotal + length entries) (newTotal + length fresh)
                (t'\<lparr>addresses := (addresses t')(staleAddr \<mapsto> fresh)\<rparr>)))"

text \<open>The first component is the logged pair of totals, if the function reaches the log line.\<close>

definition pruneStaleEntriesWithWriteLock ::
    "string list \<Rightarrow> AddressTable \<Rightarrow> (nat \<times> nat) option \<times> AddressTable" where
  "pruneStaleEntriesWithWriteLock candidateAddresses t =
     (if length candidateAddresses = 0 then (None, t)
      else let (oldTotal, newTotal, t') = prune_loop candidateAddresses 0 0 t
           in (Some (oldTotal, newTotal), t'))"

text \<open>
  One round of the loop of the pruning goroutine, when no other operation comes between its
  critical sections; \<open>ks\<close> is the order in which the map is visited.
\<close>

definition pruneStaleEntriesOnInterval_round :: "string list \<Rightarrow> AddressTable \<Rightarrow> AddressTable" where
  "pruneStaleEntriesOnInterval_round ks t =
     (let (suspended, t1) = pruning_suspended t
      in if suspended then t1
         else let (staleAddresses, t2) = addressesWithStaleEntriesWithReadLock ks t1
              in snd (pruneStaleEntriesWithWriteLock staleAddresses t2))"

section \<open>Hostnames and positions\<close>

lemma isFqdn_iff: "isFqdn s \<longleftrightarrow> (\<exists>p. s = p @ ''.'')"
  by (cases s rule: rev_cases) (auto simp: isFqdn_def)

lemma isFqdn_fqdn [simp]: "isFqdn (fqdn s)"
  by (auto simp: fqdn_def isFqdn_iff)

lemma fqdn_id [simp]: "isFqdn s \<Longrightarrow> fqdn s = s"
  by (simp add: fqdn_def)

lemma fqdn_append_dot: "\<not> isFqdn s \<Longrightarrow> fqdn (s @ ''.'') = fqdn s"
  by (simp add: fqdn_def isFqdn_iff)

lemma indexOf_from_spec:
  assumes "0 \<le> k"
  shows "(indexOf_from k es v = -1 \<and> v \<notin> entry_ip ` set es) \<or>
         (\<exists>i<length es. indexOf_from k es v = k + int i \<and> entry_ip (es ! i) = v \<and>
            (\<forall>j<i. entry_ip (es ! j) \<noteq> v))"
  using assms
proof (induction es arbitrary: k)
  case (Cons e es)
  show ?case
  proof (cases "entry_ip e = v")
    case False
    from Cons.prems have "0 \<le> k + 1" by simp
    from Cons.IH [OF this] show ?thesis
    proof (elim disjE exE conjE)
      fix i
      assume "i < length es" "indexOf_from (k + 1) es v = k + 1 + int i" "entry_ip (es ! i) = v"
        "\<forall>j<i. entry_ip (es ! j) \<noteq> v"
      with False show ?thesis
        by (intro disjI2 exI [of _ "Suc i"]) (auto simp: less_Suc_eq_0_disj)
    qed (use False in auto)
  qed auto
qed simp

lemma indexOf_cases:
  obtains (absent) "indexOf es v = -1" and "v \<notin> entry_ip ` set es"
  | (found) i where "indexOf es v = int i" and "i < length es" and "entry_ip (es ! i) = v"
      and "\<forall>j<i. entry_ip (es ! j) \<noteq> v"
  using indexOf_from_spec [of 0 es v] by (auto simp: indexOf_def)

section \<open>Leases: the abstract view of the table\<close>

text \<open>
  Abstractly the table holds one lease per hostname and IP: the instant of its last registration.
\<close>

definition leases_of :: "entry list \<Rightarrow> string \<rightharpoonup> gotime" where
  "leases_of es = map_of (map (\<lambda>e. (entry_ip e, entry_updateTime e)) es)"

definition leases :: "AddressTable \<Rightarrow> string \<Rightarrow> string \<rightharpoonup> gotime" where
  "leases t h = leases_of (entriesForHostname t h)"

definition wf_table :: "AddressTable \<Rightarrow> bool" where
  "wf_table t \<longleftrightarrow> finite (dom (addresses t)) \<and>
     (\<forall>h es. addresses t h = Some es \<longrightarrow> isFqdn h \<and> distinct (map entry_ip es))"

lemma dom_leases_of [simp]: "dom (leases_of es) = entry_ip ` set es"
  by (simp add: leases_of_def dom_map_of_conv_image_fst image_image)

lemma leases_of_None: "leases_of es i = None \<longleftrightarrow> i \<notin> entry_ip ` set es"
  by (simp flip: dom_leases_of add: domIff)

lemma leases_of_Nil [simp]: "leases_of [] = Map.empty"
  by (simp add: leases_of_def)

lemma leases_of_Cons [simp]:
  "leases_of (e # es) = (leases_of es)(entry_ip e \<mapsto> entry_updateTime e)"
  by (simp add: leases_of_def)

lemma leases_of_snoc:
  "i \<notin> entry_ip ` set es \<Longrightarrow>
     leases_of (es @ [\<lparr>entry_ip = i, entry_updateTime = u\<rparr>]) = (leases_of es)(i \<mapsto> u)"
  by (induction es) (auto simp: fun_eq_iff)

lemma leases_of_touch:
  assumes "k < length es" and "\<forall>j<k. entry_ip (es ! j) \<noteq> entry_ip (es ! k)"
  shows "leases_of (es[k := (es ! k)\<lparr>entry_updateTime := u\<rparr>])
           = (leases_of es)(entry_ip (es ! k) \<mapsto> u)"
  using assms
proof (induction es arbitrary: k)
  case (Cons e es)
  show ?case
  proof (cases k)
    case (Suc k')
    with Cons.prems have "k' < length es" "\<forall>j<k'. entry_ip (es ! j) \<noteq> entry_ip (es ! k')"
      "entry_ip e \<noteq> entry_ip (es ! k')" by auto
    with Cons.IH [of k'] Suc show ?thesis by (auto simp: fun_eq_iff)
  qed (simp add: fun_eq_iff)
qed simp

lemma leases_of_delete:
  assumes "k < length es" and "distinct (map entry_ip es)"
  shows "leases_of (take k es @ drop (Suc k) es) = (leases_of es)(entry_ip (es ! k) := None)"
  using assms
proof (induction es arbitrary: k)
  case (Cons e es)
  show ?case
  proof (cases k)
    case 0
    with Cons.prems show ?thesis
      by (auto simp: fun_eq_iff leases_of_None)
  next
    case (Suc k')
    with Cons.prems have "k' < length es" "distinct (map entry_ip es)"
      "entry_ip e \<noteq> entry_ip (es ! k')" by (auto dest: nth_mem)
    with Cons.IH [of k'] Suc show ?thesis by (auto simp: fun_eq_iff)
  qed
qed simp

lemma wf_tableI [intro?]:
  "finite (dom (addresses t)) \<Longrightarrow>
   (\<And>h es. addresses t h = Some es \<Longrightarrow> isFqdn h \<and> distinct (map entry_ip es)) \<Longrightarrow> wf_table t"
  by (auto simp: wf_table_def)

lemma wf_table_distinct: "wf_table t \<Longrightarrow> distinct (map entry_ip (entriesForHostname t h))"
  by (auto simp: wf_table_def entriesForHostname_def split: option.splits)

lemma wf_table_update:
  assumes "wf_table t" and "addresses t' = (addresses t)(h \<mapsto> es)" and "isFqdn h"
    and "distinct (map entry_ip es)"
  shows "wf_table t'"
  using assms by (auto simp: wf_table_def)

lemma wf_table_cong: "addresses t' = addresses t \<Longrightarrow> wf_table t' = wf_table t"
  by (simp add: wf_table_def)

lemma leases_update:
  "addresses t' = (addresses t)(h := v) \<Longrightarrow>
     leases t' = (leases t)(h := leases_of (case v of None \<Rightarrow> [] | Some es \<Rightarrow> es))"
  by (auto simp: leases_def entriesForHostname_def fun_eq_iff)

lemma leases_cong: "addresses t' = addresses t \<Longrightarrow> leases t' = leases t"
  by (simp add: leases_def entriesForHostname_def fun_eq_iff)

section \<open>Registration and removal\<close>

lemma table_Now_eq [table_simps]: "table_Now t = (clock t 0, t\<lparr>clock := clock_drop 1 (clock t)\<rparr>)"
  by (simp add: table_Now_def clock_Now_def clock_rest_eq_drop)

lemma table_Since_eq [table_simps]:
  "table_Since t u = (time_Sub (clock t 0) u, t\<lparr>clock := clock_drop 1 (clock t)\<rparr>)"
  by (simp add: table_Since_def table_Now_eq)

text \<open>
  Whether the IP is new for the hostname or not, one iteration of \<open>Add\<close> changes the list of the
  hostname only, and its leases by setting the one of the IP to the current instant.
\<close>

lemma Add_hostname_shape:
  obtains es where
    "Add_hostname ip h t
       = t\<lparr>clock := clock_drop 1 (clock t), addresses := (addresses t)(fqdn h \<mapsto> es)\<rparr>"
    and "leases_of es = (leases t (fqdn h))(ip \<mapsto> clock t 0)"
    and "wf_table t \<Longrightarrow> distinct (map entry_ip es)"
    and "entriesToIPs es = (let ips = Lookup t h in if ip \<in> set ips then ips else ips @ [ip])"
proof -
  let ?es = "entriesForHostname t (fqdn h)"
  show ?thesis
  proof (cases rule: indexOf_cases [of ?es ip])
    case absent
    then show ?thesis
      by (intro that [of "?es @ [\<lparr>entry_ip = ip, entry_updateTime = clock t 0\<rparr>]"])
        (auto simp: Add_hostname_def Let_def table_simps leases_of_snoc leases_def Lookup_def
          entriesToIPs_def dest: wf_table_distinct [of _ "fqdn h"])
  next
    case (found i)
    have ips: "map entry_ip (?es[i := (?es ! i)\<lparr>entry_updateTime := clock t 0\<rparr>]) = map entry_ip ?es"
      using found(2) by (simp add: map_update list_update_same_conv)
    from found have "ip \<in> set (map entry_ip ?es)" by (metis length_map nth_map nth_mem)
    with found ips show ?thesis
      by (intro that [of "?es[i := (?es ! i)\<lparr>entry_updateTime := clock t 0\<rparr>]"])
        (auto simp: Add_hostname_def Let_def table_simps leases_of_touch leases_def Lookup_def
          entriesToIPs_def dest: wf_table_distinct [of _ "fqdn h"])
  qed
qed

lemma Remove_hostname_shape:
  obtains v where
    "Remove_hostname ip h t = t\<lparr>addresses := (addresses t)(fqdn h := v)\<rparr>"
    and "wf_table t \<Longrightarrow>
      leases_of (case v of None \<Rightarrow> [] | Some es \<Rightarrow> es) = (leases t (fqdn h))(ip := None)"
    and "\<And>es. wf_table t \<Longrightarrow> v = Some es \<Longrightarrow> distinct (map entry_ip es)"
    and "v = None \<or> fqdn h \<in> dom (addresses t)"
proof -
  let ?es = "entriesForHostname t (fqdn h)"
  show ?thesis
  proof (cases rule: indexOf_cases [of ?es ip])
    case absent
    then show ?thesis
      by (intro that [of "addresses t (fqdn h)"])
        (auto simp: Remove_hostname_def Let_def leases_def entriesForHostname_def leases_of_None
          fun_eq_iff wf_table_def split: option.splits)
  next
    case (found i)
    then have dom: "fqdn h \<in> dom (addresses t)"
      by (auto simp: entriesForHostname_def split: option.splits)
    show ?thesis
    proof (cases "length ?es = 1")
      case True
      with found obtain e where "?es = [e]" "entry_ip e = ip"
        by (auto simp: length_Suc_conv)
      with found True show ?thesis
        by (intro that [of None]) (auto simp: Remove_hostname_def Let_def leases_def)
    next
      case False
      let ?es' = "take i ?es @ drop (Suc i) ?es"
      from False found have "Remove_hostname ip h t = t\<lparr>addresses := (addresses t)(fqdn h \<mapsto> ?es')\<rparr>"
        by (simp add: Remove_hostname_def Let_def)
      moreover have "leases_of ?es' = (leases t (fqdn h))(ip := None)" if "wf_table t"
        using leases_of_delete [OF found(2) wf_table_distinct [OF that]] found(3)
        by (simp add: leases_def)
      moreover have "distinct (map entry_ip ?es')" if "wf_table t"
        using distinct_take_drop [OF wf_table_distinct [OF that], of i] by (simp add: take_map drop_map)
      ultimately show ?thesis using dom by (intro that [of "Some ?es'"]) auto
    qed
  qed
qed

lemma wf_table_Add_hostname: "wf_table t \<Longrightarrow> wf_table (Add_hostname ip h t)"
  by (rule Add_hostname_shape [of ip h t]) (auto intro!: wf_table_update [of t])

lemma leases_Add_hostname [lease_simps]:
  "leases (Add_hostname ip h t) = (leases t)(fqdn h := (leases t (fqdn h))(ip \<mapsto> clock t 0))"
  by (rule Add_hostname_shape [of ip h t]) (simp add: leases_update [of _ t])

lemma wf_table_Remove_hostname: "wf_table t \<Longrightarrow> wf_table (Remove_hostname ip h t)"
  by (rule Remove_hostname_shape [of ip h t]) (auto simp: wf_table_def)

lemma leases_Remove_hostname [lease_simps]:
  "wf_table t \<Longrightarrow>
     leases (Remove_hostname ip h t) = (leases t)(fqdn h := (leases t (fqdn h))(ip := None))"
  by (rule Remove_hostname_shape [of ip h t]) (simp add: leases_update [of _ t])

text \<open>Fields an operation leaves alone.\<close>

lemma Add_hostname_frame [table_simps]:
  "clock (Add_hostname ip h t) = clock_drop 1 (clock t)"
  "stalenessThreshold (Add_hostname ip h t) = stalenessThreshold t"
  "ticker_stopped (Add_hostname ip h t) = ticker_stopped t"
  "pausedPruning (Add_hostname ip h t) = pausedPruning t"
  "lastResume (Add_hostname ip h t) = lastResume t"
  "resumePruningDelay (Add_hostname ip h t) = resumePruningDelay t"
  "warm (Add_hostname ip h t) = warm t"
  by (rule Add_hostname_shape [of ip h t]; simp)+

lemma Remove_hostname_frame [table_simps]:
  "clock (Remove_hostname ip h t) = clock t"
  "stalenessThreshold (Remove_hostname ip h t) = stalenessThreshold t"
  "ticker_stopped (Remove_hostname ip h t) = ticker_stopped t"
  "pausedPruning (Remove_hostname ip h t) = pausedPruning t"
  "lastResume (Remove_hostname ip h t) = lastResume t"
  "resumePruningDelay (Remove_hostname ip h t) = resumePruningDelay t"
  "warm (Remove_hostname ip h t) = warm t"
  by (rule Remove_hostname_shape [of ip h t]; simp)+

lemma Add_Nil [simp]: "Add [] ip t = t"
  by (simp add: Add_def)

lemma Add_Cons: "Add (h # hs) ip t = Add hs ip (Add_hostname ip h t)"
  by (simp add: Add_def)

lemma Add_snoc: "Add (hs @ [h]) ip t = Add_hostname ip h (Add hs ip t)"
  by (simp add: Add_def)

lemma Remove_Nil [simp]: "Remove [] ip t = t"
  by (simp add: Remove_def)

lemma Remove_Cons: "Remove (h # hs) ip t = Remove hs ip (Remove_hostname ip h t)"
  by (simp add: Remove_def)

lemma Remove_snoc: "Remove (hs @ [h]) ip t = Remove_hostname ip h (Remove hs ip t)"
  by (simp add: Remove_def)

lemma clock_Add [table_simps]: "clock (Add hs ip t) = clock_drop (length hs) (clock t)"
  by (induction hs rule: rev_induct) (simp_all add: Add_snoc table_simps)

lemma Add_frame [table_simps]:
  "stalenessThreshold (Add hs ip t) = stalenessThreshold t"
  "ticker_stopped (Add hs ip t) = ticker_stopped t"
  "pausedPruning (Add hs ip t) = pausedPruning t"
  "lastResume (Add hs ip t) = lastResume t"
  "resumePruningDelay (Add hs ip t) = resumePruningDelay t"
  "warm (Add hs ip t) = warm t"
  by (induction hs rule: rev_induct; simp add: Add_snoc table_simps)+

lemma Remove_frame [table_simps]:
  "clock (Remove hs ip t) = clock t"
  "stalenessThreshold (Remove hs ip t) = stalenessThreshold t"
  "ticker_stopped (Remove hs ip t) = ticker_stopped t"
  "pausedPruning (Remove hs ip t) = pausedPruning t"
  "lastResume (Remove hs ip t) = lastResume t"
  "resumePruningDelay (Remove hs ip t) = resumePruningDelay t"
  "warm (Remove hs ip t) = warm t"
  by (induction hs rule: rev_induct; simp add: Remove_snoc table_simps)+

lemma wf_table_Add: "wf_table t \<Longrightarrow> wf_table (Add hs ip t)"
  by (induction hs rule: rev_induct) (simp_all add: Add_snoc wf_table_Add_hostname)

lemma wf_table_Remove: "wf_table t \<Longrightarrow> wf_table (Remove hs ip t)"
  by (induction hs rule: rev_induct) (simp_all add: Remove_snoc wf_table_Remove_hostname)

text \<open>
  The lease an \<open>Add\<close> leaves for a hostname carries the reading of the last iteration that named it.
\<close>

definition last_mention :: "string list \<Rightarrow> string \<Rightarrow> nat" where
  "last_mention hs h = Max {k. k < length hs \<and> fqdn (hs ! k) = h}"

lemma last_mention_snoc:
  "last_mention (hs @ [g]) h = (if fqdn g = h then length hs else last_mention hs h)"
proof (cases "fqdn g = h")
  case True
  then have "Max {k. k < length (hs @ [g]) \<and> fqdn ((hs @ [g]) ! k) = h} = length hs"
    by (intro Max_eqI) (auto simp: nth_append)
  with True show ?thesis by (simp add: last_mention_def)
next
  case False
  then have "{k. k < length (hs @ [g]) \<and> fqdn ((hs @ [g]) ! k) = h}
               = {k. k < length hs \<and> fqdn (hs ! k) = h}"
    by (auto simp: nth_append less_Suc_eq)
  with False show ?thesis by (simp add: last_mention_def)
qed

lemma last_mention_less: "h \<in> fqdn ` set hs \<Longrightarrow> last_mention hs h < length hs"
proof -
  assume "h \<in> fqdn ` set hs"
  then obtain k where "k < length hs" "fqdn (hs ! k) = h" by (auto simp: in_set_conv_nth)
  then have "last_mention hs h \<in> {k. k < length hs \<and> fqdn (hs ! k) = h}"
    unfolding last_mention_def by (intro Max_in) auto
  then show ?thesis by simp
qed

lemma leases_Add [lease_simps]:
  "leases (Add hs ip t) h i =
     (if i = ip \<and> h \<in> fqdn ` set hs then Some (clock t (last_mention hs h)) else leases t h i)"
  by (induction hs rule: rev_induct)
    (auto simp: Add_snoc lease_simps table_simps last_mention_snoc)

lemma leases_Remove [lease_simps]:
  "wf_table t \<Longrightarrow>
     leases (Remove hs ip t) h i = (if i = ip \<and> h \<in> fqdn ` set hs then None else leases t h i)"
  by (induction hs rule: rev_induct)
    (auto simp: Remove_snoc lease_simps wf_table_Remove)

lemma set_Lookup: "set (Lookup t h) = dom (leases t (fqdn h))"
  by (simp add: Lookup_def leases_def entriesToIPs_def)

lemma distinct_Lookup: "wf_table t \<Longrightarrow> distinct (Lookup t h)"
  by (simp add: Lookup_def entriesToIPs_def wf_table_distinct)

section \<open>The other operations\<close>

lemma Lookup_trailing_dot: "\<not> isFqdn h \<Longrightarrow> Lookup t (h @ ''.'') = Lookup t h"
  by (simp add: Lookup_def fqdn_append_dot)

lemma GetAllAddresses_loop_eq:
  "GetAllAddresses_loop ks t result h =
     (if h \<in> set ks \<and> addresses t h \<noteq> None then map_option entriesToIPs (addresses t h) else result h)"
  by (induction ks arbitrary: result) (auto split: option.splits)

lemma GetAllAddresses_eq:
  "range_order ks (addresses t) \<Longrightarrow>
     GetAllAddresses ks t = (\<lambda>h. map_option entriesToIPs (addresses t h))"
  by (auto simp: GetAllAddresses_def GetAllAddresses_loop_eq range_order_def fun_eq_iff)

lemma addresses_flags [table_simps]:
  "addresses (SetWarm t) = addresses t"
  "addresses (Shutdown t) = addresses t"
  "addresses (PausePruning t) = addresses t"
  "addresses (ResumePruning t) = addresses t"
  by (simp_all add: SetWarm_def Shutdown_def PausePruning_def ResumePruning_def table_simps)

lemma flags [table_simps]:
  "warm (SetWarm t)" "warm (Shutdown t) = warm t"
  "warm (PausePruning t) = warm t" "warm (ResumePruning t) = warm t"
  "ticker_stopped (Shutdown t)" "ticker_stopped (SetWarm t) = ticker_stopped t"
  "ticker_stopped (PausePruning t) = ticker_stopped t"
  "ticker_stopped (ResumePruning t) = ticker_stopped t"
  "pausedPruning (PausePruning t)" "\<not> pausedPruning (ResumePruning t)"
  "pausedPruning (SetWarm t) = pausedPruning t" "pausedPruning (Shutdown t) = pausedPruning t"
  "lastResume (ResumePruning t) = clock t 0" "lastResume (PausePruning t) = lastResume t"
  "lastResume (SetWarm t) = lastResume t" "lastResume (Shutdown t) = lastResume t"
  "clock (ResumePruning t) = clock_drop 1 (clock t)" "clock (PausePruning t) = clock t"
  "clock (SetWarm t) = clock t" "clock (Shutdown t) = clock t"
  "stalenessThreshold (ResumePruning t) = stalenessThreshold t"
  "stalenessThreshold (PausePruning t) = stalenessThreshold t"
  "stalenessThreshold (SetWarm t) = stalenessThreshold t"
  "stalenessThreshold (Shutdown t) = stalenessThreshold t"
  "resumePruningDelay (ResumePruning t) = resumePruningDelay t"
  "resumePruningDelay (PausePruning t) = resumePruningDelay t"
  "resumePruningDelay (SetWarm t) = resumePruningDelay t"
  "resumePruningDelay (Shutdown t) = resumePruningDelay t"
  by (simp_all add: SetWarm_def Shutdown_def PausePruning_def ResumePruning_def table_simps)

lemma leases_flags [lease_simps]:
  "leases (SetWarm t) = leases t" "leases (Shutdown t) = leases t"
  "leases (PausePruning t) = leases t" "leases (ResumePruning t) = leases t"
  by (rule leases_cong, simp add: table_simps)+

lemma wf_table_flags:
  "wf_table (SetWarm t) = wf_table t" "wf_table (Shutdown t) = wf_table t"
  "wf_table (PausePruning t) = wf_table t" "wf_table (ResumePruning t) = wf_table t"
  by (rule wf_table_cong, simp add: table_simps)+

lemma wf_table_New: "wf_table (new_table s r c)"
  by (simp add: wf_table_def new_table_def)

section \<open>Pruning\<close>

text \<open>
  The loops of the pruner read the clock and change nothing else, or the lists of the candidate
  hostnames only. Which readings they use depends on the order of the visit, so their effect is
  stated per lease, with some reading of the clock as the witness of its age.
\<close>

definition stale_at :: "AddressTable \<Rightarrow> nat \<Rightarrow> gotime \<Rightarrow> bool" where
  "stale_at t k u \<longleftrightarrow> stalenessThreshold t < time_Sub (clock t k) u"

definition ticked :: "nat \<Rightarrow> AddressTable \<Rightarrow> AddressTable" where
  "ticked n t = t\<lparr>clock := clock_drop n (clock t)\<rparr>"

lemma ticked_simps [table_simps]:
  "addresses (ticked n t) = addresses t" "clock (ticked n t) = clock_drop n (clock t)"
  "stalenessThreshold (ticked n t) = stalenessThreshold t"
  "pausedPruning (ticked n t) = pausedPruning t" "lastResume (ticked n t) = lastResume t"
  "resumePruningDelay (ticked n t) = resumePruningDelay t" "warm (ticked n t) = warm t"
  "ticker_stopped (ticked n t) = ticker_stopped t"
  "ticked m (ticked n t) = ticked (n + m) t"
  "ticked 0 t = t"
  by (simp_all add: ticked_def)

lemma leases_ticked [lease_simps]: "leases (ticked n t) = leases t"
  by (rule leases_cong) (simp add: table_simps)

lemma wf_table_ticked: "wf_table (ticked n t) = wf_table t"
  by (rule wf_table_cong) (simp add: table_simps)

lemma stale_at_ticked: "stale_at (ticked n t) k u = stale_at t (n + k) u"
  by (simp add: stale_at_def table_simps)

lemma table_Since_ticked: "table_Since t u = (time_Sub (clock t 0) u, ticked 1 t)"
  by (simp add: table_Since_eq ticked_def)

lemma pruning_suspended_eq:
  "pruning_suspended t =
     (if pausedPruning t then (True, t)
      else (time_Sub (clock t 0) (lastResume t) < resumePruningDelay t, ticked 1 t))"
  by (simp add: pruning_suspended_def table_Since_ticked)

lemma fresh_entries_ticks [table_simps]: "snd (fresh_entries es t) = ticked (length es) t"
  by (induction es arbitrary: t) (simp_all add: table_Since_ticked table_simps case_prod_beta)

lemma fresh_entries_subseq: "set (fst (fresh_entries es t)) \<subseteq> set es"
  by (induction es arbitrary: t) (auto simp: table_Since_ticked case_prod_beta split: if_splits)

lemma fresh_entries_distinct:
  "distinct (map entry_ip es) \<Longrightarrow> distinct (map entry_ip (fst (fresh_entries es t)))"
proof (induction es arbitrary: t)
  case (Cons e es)
  then show ?case
    using fresh_entries_subseq [of es "ticked 1 t"]
    by (auto simp: table_Since_ticked case_prod_beta)
qed simp

lemma fresh_entries_lease:
  assumes "distinct (map entry_ip es)" and "leases_of es i = Some u"
  shows "\<exists>k<length es. leases_of (fst (fresh_entries es t)) i
           = (if stale_at t k u then None else Some u)"
  using assms
proof (induction es arbitrary: t)
  case (Cons e es)
  let ?rest = "fst (fresh_entries es (ticked 1 t))"
  have step: "fst (fresh_entries (e # es) t)
      = (if stale_at t 0 (entry_updateTime e) then ?rest else e # ?rest)"
    by (simp add: table_Since_ticked case_prod_beta stale_at_def not_less)
  show ?case
  proof (cases "i = entry_ip e")
    case True
    with Cons.prems have "i \<notin> entry_ip ` set ?rest" "u = entry_updateTime e"
      using fresh_entries_subseq [of es "ticked 1 t"] by auto
    with True step show ?thesis by (intro exI [of _ 0]) (simp add: leases_of_None)
  next
    case False
    with Cons.prems Cons.IH [of "ticked 1 t"] obtain k where "k < length es"
      "leases_of ?rest i = (if stale_at t (Suc k) u then None else Some u)"
      by (auto simp: stale_at_ticked)
    with False step show ?thesis by (intro exI [of _ "Suc k"]) simp
  qed
qed simp

lemma fresh_entries_no_lease:
  "leases_of es i = None \<Longrightarrow> leases_of (fst (fresh_entries es t)) i = None"
  using fresh_entries_subseq [of es t] by (auto simp: leases_of_None)

text \<open>The candidate search only reads: it returns some of the visited keys and ticks the clock.\<close>

lemma has_stale_entry_ticks: "\<exists>n. snd (has_stale_entry es t) = ticked n t"
proof (induction es arbitrary: t)
  case (Cons e es)
  from Cons.IH [of "ticked 1 t"] show ?case
    by (auto simp: table_Since_ticked table_simps)
qed (metis has_stale_entry.simps(1) snd_conv ticked_simps(10))

lemma has_stale_entry_complete:
  "e \<in> set es \<Longrightarrow> (\<And>k. stale_at t k (entry_updateTime e)) \<Longrightarrow> fst (has_stale_entry es t)"
proof (induction es arbitrary: t)
  case (Cons x es)
  then show ?case
    using Cons.IH [of "ticked 1 t"] Cons.prems(2) [of 0, unfolded stale_at_def]
    by (auto simp: table_Since_ticked stale_at_ticked)
qed simp

lemma stale_addresses_loop_ticks: "\<exists>n. snd (stale_addresses_loop ks t) = ticked n t"
proof (induction ks arbitrary: t)
  case (Cons a ks)
  obtain n where n: "snd (has_stale_entry (case addresses t a of None \<Rightarrow> [] | Some es \<Rightarrow> es) t)
      = ticked n t" using has_stale_entry_ticks by blast
  from Cons.IH [of "ticked n t"] show ?case
    by (auto simp: case_prod_beta n table_simps)
qed (metis snd_conv stale_addresses_loop.simps(1) ticked_simps(10))

lemma stale_addresses_loop_complete:
  "h \<in> set ks \<Longrightarrow> addresses t h = Some es \<Longrightarrow> e \<in> set es \<Longrightarrow>
   (\<And>k. stale_at t k (entry_updateTime e)) \<Longrightarrow> h \<in> set (fst (stale_addresses_loop ks t))"
proof (induction ks arbitrary: t)
  case (Cons a ks)
  obtain n where n: "snd (has_stale_entry (case addresses t a of None \<Rightarrow> [] | Some es \<Rightarrow> es) t)
      = ticked n t" using has_stale_entry_ticks by blast
  show ?case
  proof (cases "a = h")
    case True
    with Cons.prems has_stale_entry_complete [of e es t] show ?thesis
      by (simp add: case_prod_beta)
  next
    case False
    with Cons.prems Cons.IH [of "ticked n t"] show ?thesis
      by (simp add: case_prod_beta n table_simps stale_at_ticked)
  qed
qed simp

text \<open>
  What a prune of the candidates \<open>C\<close> with \<open>n\<close> readings of the clock guarantees of the table, whatever
  the order of the visit: hostnames stay (with fewer entries), a lease is kept unchanged or dropped,
  it is dropped only on a reading that shows it stale, and a lease of a candidate is kept only on a
  reading that shows it fresh.
\<close>

definition prunes :: "nat \<Rightarrow> string set \<Rightarrow> AddressTable \<Rightarrow> AddressTable \<Rightarrow> bool" where
  "prunes n C t t' \<longleftrightarrow>
     dom (addresses t') = dom (addresses t) \<and>
     t' = (ticked n t)\<lparr>addresses := addresses t'\<rparr> \<and>
     (\<forall>h. h \<notin> C \<longrightarrow> addresses t' h = addresses t h) \<and>
     (\<forall>h i. leases t h i = None \<longrightarrow> leases t' h i = None) \<and>
     (\<forall>h i u. h \<in> C \<longrightarrow> leases t h i = Some u \<longrightarrow>
        (\<exists>k<n. leases t' h i = (if stale_at t k u then None else Some u)))"

lemma prunes_empty: "prunes n {} t (ticked n t)"
  unfolding prunes_def by (auto simp: table_simps lease_simps)

lemma prunes_lease_outside: "prunes n C t t' \<Longrightarrow> h \<notin> C \<Longrightarrow> leases t' h = leases t h"
  by (simp add: prunes_def leases_def entriesForHostname_def)

lemma prunes_lease_inside:
  "prunes n C t t' \<Longrightarrow> h \<in> C \<Longrightarrow> leases t h i = Some u \<Longrightarrow>
     \<exists>k<n. leases t' h i = (if stale_at t k u then None else Some u)"
  unfolding prunes_def by blast

lemma prunes_lease_none: "prunes n C t t' \<Longrightarrow> leases t h i = None \<Longrightarrow> leases t' h i = None"
  unfolding prunes_def by blast

lemma prunes_lease_cases:
  assumes "prunes n C t t'" and "leases t h i = Some u"
  obtains (kept) "leases t' h i = Some u"
  | (dropped) k where "k < n" and "leases t' h i = None" and "h \<in> C" and "stale_at t k u"
proof (cases "h \<in> C")
  case True
  from prunes_lease_inside [OF assms(1) True assms(2)] obtain k where
    "k < n" "leases t' h i = (if stale_at t k u then None else Some u)" by blast
  then show ?thesis using kept dropped True by (cases "stale_at t k u") simp_all
next
  case False
  then show ?thesis using kept prunes_lease_outside [OF assms(1)] assms(2) by simp
qed

lemma prunes_shift:
  assumes "prunes n C t t'"
  shows "stale_at t' k u = stale_at t (n + k) u" and "clock t' = clock_drop n (clock t)"
    and "stalenessThreshold t' = stalenessThreshold t" and "pausedPruning t' = pausedPruning t"
    and "warm t' = warm t" and "ticker_stopped t' = ticker_stopped t"
    and "lastResume t' = lastResume t" and "resumePruningDelay t' = resumePruningDelay t"
proof -
  from assms have t': "t' = (ticked n t)\<lparr>addresses := addresses t'\<rparr>"
    unfolding prunes_def by blast
  show "stale_at t' k u = stale_at t (n + k) u" and "clock t' = clock_drop n (clock t)"
    and "stalenessThreshold t' = stalenessThreshold t" and "pausedPruning t' = pausedPruning t"
    and "warm t' = warm t" and "ticker_stopped t' = ticker_stopped t"
    and "lastResume t' = lastResume t" and "resumePruningDelay t' = resumePruningDelay t"
    by (subst t', simp add: stale_at_def table_simps)+
qed

lemma prunes_trans:
  assumes 1: "prunes n C t t'" and 2: "prunes m D t' t''"
  shows "prunes (n + m) (C \<union> D) t t''"
proof -
  from 1 2 have t': "t' = (ticked n t)\<lparr>addresses := addresses t'\<rparr>"
    and t'': "t'' = (ticked m t')\<lparr>addresses := addresses t''\<rparr>"
    unfolding prunes_def by blast+
  have frame: "t'' = (ticked (n + m) t)\<lparr>addresses := addresses t''\<rparr>"
    by (subst t'', subst t') (simp add: ticked_def)
  have "\<exists>k<n + m. leases t'' h i = (if stale_at t k u then None else Some u)"
    if "h \<in> C \<union> D" "leases t h i = Some u" for h i u
    using 1 that(2)
  proof (cases rule: prunes_lease_cases)
    case kept
    show ?thesis
    proof (cases "h \<in> D")
      case True
      from prunes_lease_inside [OF 2 this kept] obtain k where
        "k < m" "leases t'' h i = (if stale_at t (n + k) u then None else Some u)"
        by (auto simp: prunes_shift(1) [OF 1])
      then show ?thesis by (intro exI [of _ "n + k"]) simp
    next
      case False
      with that have "h \<in> C" by simp
      from prunes_lease_inside [OF 1 this that(2)] kept obtain k where "k < n" "\<not> stale_at t k u"
        by (auto split: if_splits)
      with kept prunes_lease_outside [OF 2 False] show ?thesis by (intro exI [of _ k]) simp
    qed
  next
    case (dropped k)
    then show ?thesis using prunes_lease_none [OF 2] by (intro exI [of _ k]) simp
  qed
  moreover have "leases t'' h i = None" if "leases t h i = None" for h i
    using prunes_lease_none [OF 2 prunes_lease_none [OF 1 that]] .
  moreover have "dom (addresses t'') = dom (addresses t)"
    and "\<forall>h. h \<notin> C \<union> D \<longrightarrow> addresses t'' h = addresses t h"
    using 1 2 unfolding prunes_def by simp_all
  ultimately show ?thesis using frame unfolding prunes_def by blast
qed

lemma prunes_absent: "addresses t c = None \<Longrightarrow> prunes 0 {c} t t"
  by (simp add: prunes_def leases_def entriesForHostname_def table_simps)

lemma prunes_candidate:
  assumes "wf_table t" and "addresses t c = Some es" and "fresh_entries es t = (fresh, t1)"
  shows "prunes (length es) {c} t (t1\<lparr>addresses := (addresses t1)(c \<mapsto> fresh)\<rparr>)"
    (is "prunes _ _ _ ?t2")
proof -
  from assms(3) have t1: "t1 = ticked (length es) t" and fresh: "fresh = fst (fresh_entries es t)"
    by (simp_all flip: fresh_entries_ticks)
  have d: "distinct (map entry_ip es)" using assms by (simp add: wf_table_def)
  have c: "leases t c = leases_of es" using assms by (simp add: leases_def entriesForHostname_def)
  have l: "leases ?t2 = (leases t)(c := leases_of fresh)"
    by (subst leases_update [of _ t]) (auto simp: t1 table_simps)
  have "?t2 = (ticked (length es) t)\<lparr>addresses := addresses ?t2\<rparr>"
    by (simp add: t1 ticked_def)
  moreover have "\<exists>k<length es. leases ?t2 c i = (if stale_at t k u then None else Some u)"
    if "leases t c i = Some u" for i u
    using fresh_entries_lease [OF d, of i u t] that unfolding l
    by (simp only: fun_upd_same c fresh)
  moreover have "leases ?t2 h i = None" if "leases t h i = None" for h i
    using that fresh_entries_no_lease [of es i t] unfolding l by (auto simp: c fresh)
  ultimately show ?thesis
    using assms(2) unfolding prunes_def by (auto simp: t1 table_simps)
qed

lemma prune_loop_correct:
  assumes "wf_table t" and "prune_loop cs m n t = (m', n', t')"
  shows "wf_table t' \<and> (\<exists>k. prunes k (set cs) t t')"
  using assms
proof (induction cs arbitrary: m n t)
  case Nil
  then show ?case using prunes_empty [of 0 t] by (auto simp: table_simps)
next
  case (Cons c cs)
  show ?case
  proof (cases "addresses t c")
    case None
    with Cons.prems(2) have "prune_loop cs m n t = (m', n', t')" by simp
    then obtain k where IH: "wf_table t'" "prunes k (set cs) t t'"
      using Cons.IH Cons.prems(1) by blast
    from prunes_trans [OF prunes_absent [OF None] IH(2)] IH(1) show ?thesis by auto
  next
    case (Some es)
    obtain fresh t1 where f: "fresh_entries es t = (fresh, t1)" by fastforce
    let ?t2 = "t1\<lparr>addresses := (addresses t1)(c \<mapsto> fresh)\<rparr>"
    from f have t1: "t1 = ticked (length es) t" and fr: "fresh = fst (fresh_entries es t)"
      by (simp_all flip: fresh_entries_ticks)
    from Cons.prems(1) Some have es: "isFqdn c" "distinct (map entry_ip es)"
      by (simp_all add: wf_table_def)
    have "wf_table ?t2"
      by (rule wf_table_update [OF Cons.prems(1) _ es(1) fresh_entries_distinct [OF es(2)]])
        (simp add: t1 fr table_simps)
    moreover have "prune_loop cs (m + length es) (n + length fresh) ?t2 = (m', n', t')"
      using Cons.prems(2) Some f by simp
    ultimately obtain k where "wf_table t'" "prunes k (set cs) ?t2 t'" using Cons.IH by blast
    with prunes_trans [OF prunes_candidate [OF Cons.prems(1) Some f]] show ?thesis by auto
  qed
qed

lemma pruneStaleEntriesWithWriteLock_correct:
  assumes "wf_table t" and "pruneStaleEntriesWithWriteLock cs t = (log, t')"
  shows "wf_table t'" and "\<exists>n. prunes n (set cs) t t'"
proof -
  have "wf_table t' \<and> (\<exists>n. prunes n (set cs) t t')"
  proof (cases "cs = []")
    case True
    with assms prunes_empty [of 0 t] show ?thesis
      by (auto simp: pruneStaleEntriesWithWriteLock_def table_simps)
  next
    case False
    then show ?thesis
      using assms prune_loop_correct [OF assms(1), of cs 0 0]
      by (auto simp: pruneStaleEntriesWithWriteLock_def split: prod.splits)
  qed
  then show "wf_table t'" and "\<exists>n. prunes n (set cs) t t'" by blast+
qed

text \<open>A whole round is a prune of the candidates it found, or only reads the clock.\<close>

lemma round_correct:
  assumes "wf_table t" and "range_order ks (addresses t)" and "\<not> fst (pruning_suspended t)"
  obtains n C where "prunes n C t (pruneStaleEntriesOnInterval_round ks t)"
    and "wf_table (pruneStaleEntriesOnInterval_round ks t)"
    and "\<And>h i u. leases t h i = Some u \<Longrightarrow> (\<And>k. stale_at t k u) \<Longrightarrow> h \<in> C"
proof -
  let ?t1 = "ticked 1 t"
  obtain cs t2 where s: "stale_addresses_loop ks ?t1 = (cs, t2)" by fastforce
  with stale_addresses_loop_ticks [of ks ?t1] obtain m where t2: "t2 = ticked (1 + m) t"
    by (auto simp: table_simps)
  obtain log t3 where p: "pruneStaleEntriesWithWriteLock cs t2 = (log, t3)" by fastforce
  from assms(3) have round: "pruneStaleEntriesOnInterval_round ks t = t3"
    by (simp add: pruneStaleEntriesOnInterval_round_def pruning_suspended_eq
        addressesWithStaleEntriesWithReadLock_def s [simplified] p split: if_splits)
  from assms(1) have "wf_table t2" by (simp add: t2 wf_table_ticked)
  with p obtain n where n: "prunes n (set cs) t2 t3" "wf_table t3"
    using pruneStaleEntriesWithWriteLock_correct by blast
  have "prunes (1 + m + n) (set cs) t t3"
    using prunes_trans [OF prunes_empty n(1) [unfolded t2]] by simp
  moreover have "h \<in> set cs" if "leases t h i = Some u" "\<And>k. stale_at t k u" for h i u
  proof -
    from that(1) obtain es e where e: "addresses t h = Some es" "e \<in> set es"
      "entry_updateTime e = u"
      by (auto simp: leases_def leases_of_def entriesForHostname_def split: option.splits
          dest!: map_of_SomeD)
    have "h \<in> set (fst (stale_addresses_loop ks ?t1))"
      using assms(2) e that(2)
      by (intro stale_addresses_loop_complete [of _ _ _ es e])
        (auto simp: range_order_def table_simps stale_at_ticked)
    then show ?thesis by (simp only: s fst_conv)
  qed
  ultimately show ?thesis using that n(2) round by blast
qed

section \<open>Lookups after each operation\<close>

lemma Lookup_Add_hostname:
  "Lookup (Add_hostname ip g t) h =
     (let ips = Lookup t h in if fqdn h = fqdn g \<and> ip \<notin> set ips then ips @ [ip] else ips)"
  by (rule Add_hostname_shape [of ip g t])
    (auto simp: Lookup_def [of _ h] entriesForHostname_def Let_def Lookup_def [of t g])

lemma Lookup_Remove_hostname:
  assumes "wf_table t"
  shows "Lookup (Remove_hostname ip g t) h =
     (if fqdn h = fqdn g then filter (\<lambda>x. x \<noteq> ip) (Lookup t h) else Lookup t h)"
proof (cases "fqdn h = fqdn g")
  case False
  then show ?thesis
    by (rule_tac Remove_hostname_shape [of ip g t])
      (auto simp: Lookup_def entriesForHostname_def)
next
  case True
  let ?es = "entriesForHostname t (fqdn g)"
  have l: "Lookup t h = map entry_ip ?es" by (simp add: Lookup_def entriesToIPs_def True)
  show ?thesis
  proof (cases rule: indexOf_cases [of ?es ip])
    case absent
    then have "filter (\<lambda>x. x \<noteq> ip) (map entry_ip ?es) = map entry_ip ?es"
      by (intro filter_True) auto
    moreover from absent have "Remove_hostname ip g t = t" by (simp add: Remove_hostname_def Let_def)
    ultimately show ?thesis using True l by simp
  next
    case (found i)
    have "Lookup (Remove_hostname ip g t) h = take i (map entry_ip ?es) @ drop (Suc i) (map entry_ip ?es)"
      using found True by (auto simp: Remove_hostname_def Let_def Lookup_def entriesToIPs_def
          entriesForHostname_def [of "_\<lparr>addresses := _\<rparr>"] take_map drop_map length_Suc_conv)
    also have "\<dots> = filter (\<lambda>x. x \<noteq> ip) (map entry_ip ?es)"
      using found filter_neq_nth_distinct [OF wf_table_distinct [OF assms, of "fqdn g"], of i] by simp
    finally show ?thesis using True l by simp
  qed
qed

lemma Lookup_Add:
  "Lookup (Add hs ip t) h =
     (let ips = Lookup t h in if fqdn h \<in> fqdn ` set hs \<and> ip \<notin> set ips then ips @ [ip] else ips)"
  by (induction hs rule: rev_induct) (auto simp: Add_snoc Lookup_Add_hostname Let_def)

lemma Lookup_Remove:
  "wf_table t \<Longrightarrow> Lookup (Remove hs ip t) h =
     (if fqdn h \<in> fqdn ` set hs then filter (\<lambda>x. x \<noteq> ip) (Lookup t h) else Lookup t h)"
  by (induction hs rule: rev_induct)
    (auto simp: Remove_snoc Lookup_Remove_hostname wf_table_Remove)

section \<open>Properties\<close>

lemma Lookup_New [simp]: "Lookup (new_table s r c) h = []"
  by (simp add: Lookup_def new_table_def entriesToIPs_def entriesForHostname_def)

text \<open>The abstract effect of each operation on the leases.\<close>

definition spec_register ::
    "string list \<Rightarrow> string \<Rightarrow> clock \<Rightarrow> (string \<Rightarrow> string \<rightharpoonup> gotime) \<Rightarrow> string \<Rightarrow> string \<rightharpoonup> gotime" where
  "spec_register hs ip c L =
     (\<lambda>h i. if i = ip \<and> h \<in> fqdn ` set hs then Some (c (last_mention hs h)) else L h i)"

definition spec_unregister ::
    "string list \<Rightarrow> string \<Rightarrow> (string \<Rightarrow> string \<rightharpoonup> gotime) \<Rightarrow> string \<Rightarrow> string \<rightharpoonup> gotime" where
  "spec_unregister hs ip L = (\<lambda>h i. if i = ip \<and> h \<in> fqdn ` set hs then None else L h i)"

text \<open>
  C5: \<open>Add\<close> refines the registration of a lease. It keeps the table well formed (fully qualified
  hostnames, no IP twice under a hostname); abstractly it sets, for exactly the named hostnames and
  the given IP, the lease to the clock reading of the last iteration that named the hostname, whether
  the IP was new or not; and \<open>Lookup\<close> returns the old IPs in their order, with a new IP at the end.
\<close>

theorem Add_refines_registration:
  assumes "wf_table t"
  shows "wf_table (Add hs ip t) \<and>
         leases (Add hs ip t) = spec_register hs ip (clock t) (leases t) \<and>
         Lookup (Add hs ip t) h =
           (let ips = Lookup t h
            in if fqdn h \<in> fqdn ` set hs \<and> ip \<notin> set ips then ips @ [ip] else ips)"
  using assms by (auto simp: wf_table_Add leases_Add spec_register_def fun_eq_iff Lookup_Add)

theorem Add_refines_registration_witness:
  "Lookup (Add [''app.apps.internal'', ''b''] ''10.0.0.2''
             (Add [''app.apps.internal.''] ''10.0.0.1'' (new_table 120 30 int)))
          ''app.apps.internal'' = [''10.0.0.1'', ''10.0.0.2'']"
proof -
  let ?t = "Add [''app.apps.internal.''] ''10.0.0.1'' (new_table 120 30 int)"
  have "wf_table ?t" by (simp add: wf_table_Add wf_table_New)
  note Add_refines_registration [OF this, of "[''app.apps.internal'', ''b'']" "''10.0.0.2''"
      "''app.apps.internal''"]
  then have "Lookup (Add [''app.apps.internal'', ''b''] ''10.0.0.2'' ?t) ''app.apps.internal'' =
      (let ips = Lookup ?t ''app.apps.internal''
       in if fqdn ''app.apps.internal'' \<in> fqdn ` set [''app.apps.internal'', ''b''] \<and>
             ''10.0.0.2'' \<notin> set ips then ips @ [''10.0.0.2''] else ips)" by blast
  also have "Lookup ?t ''app.apps.internal'' = [''10.0.0.1'']"
    by (simp add: Lookup_Add fqdn_def isFqdn_def)
  finally show ?thesis by simp
qed

text \<open>
  C6: \<open>Remove\<close> refines the removal of a lease. It keeps the table well formed; abstractly it drops, for
  exactly the named hostnames, the lease of the given IP and no other; \<open>Lookup\<close> no longer returns the
  IP for these hostnames and returns all the others in their order.
\<close>

theorem Remove_refines_unregistration:
  assumes "wf_table t"
  shows "wf_table (Remove hs ip t) \<and>
         leases (Remove hs ip t) = spec_unregister hs ip (leases t) \<and>
         Lookup (Remove hs ip t) h =
           (if fqdn h \<in> fqdn ` set hs then filter (\<lambda>x. x \<noteq> ip) (Lookup t h) else Lookup t h)"
  using assms by (auto simp: wf_table_Remove leases_Remove spec_unregister_def fun_eq_iff Lookup_Remove)

theorem Remove_refines_unregistration_witness:
  "Lookup (Remove [''app'', ''app.''] ''10.0.0.1''
             (Add [''app.''] ''10.0.0.2'' (Add [''app''] ''10.0.0.1'' (new_table 120 30 int))))
          ''app'' = [''10.0.0.2'']"
proof -
  let ?t = "Add [''app.''] ''10.0.0.2'' (Add [''app''] ''10.0.0.1'' (new_table 120 30 int))"
  have "wf_table ?t" by (simp add: wf_table_Add wf_table_New)
  note Remove_refines_unregistration [OF this, of "[''app'', ''app.'']" "''10.0.0.1''" "''app''"]
  then have "Lookup (Remove [''app'', ''app.''] ''10.0.0.1'' ?t) ''app'' =
      filter (\<lambda>x. x \<noteq> ''10.0.0.1'') (Lookup ?t ''app'')" by simp
  also have "Lookup ?t ''app'' = [''10.0.0.1'', ''10.0.0.2'']"
    by (simp add: Lookup_Add fqdn_def isFqdn_def)
  finally show ?thesis by simp
qed

text \<open>
  A hostname and the same hostname with a trailing dot are the same key: every operation treats
  them alike, and \<open>GetAllAddresses\<close>, in whatever order the map is visited, agrees with \<open>Lookup\<close> on
  every hostname it lists.
\<close>

theorem fqdn_key_agreement:
  assumes "wf_table t" and "\<not> isFqdn h"
  shows "Lookup t (h @ ''.'') = Lookup t h \<and>
         Add [h @ ''.''] ip t = Add [h] ip t \<and> Remove [h @ ''.''] ip t = Remove [h] ip t \<and>
         (range_order ks (addresses t) \<longrightarrow>
            (\<forall>g ips. GetAllAddresses ks t g = Some ips \<longrightarrow> Lookup t g = ips))"
proof -
  have "Lookup t g = ips" if "range_order ks (addresses t)" "GetAllAddresses ks t g = Some ips" for g ips
    using that assms(1)
    by (auto simp: GetAllAddresses_eq Lookup_def entriesForHostname_def wf_table_def)
  with assms(2) show ?thesis
    by (auto simp: Lookup_trailing_dot Add_def Remove_def Add_hostname_def Remove_hostname_def
        fqdn_append_dot)
qed

theorem fqdn_key_agreement_witness:
  "Lookup (Add [''app''] ''10.0.0.1'' (new_table 120 30 int)) ''app.'' = [''10.0.0.1'']"
proof -
  let ?t = "Add [''app''] ''10.0.0.1'' (new_table 120 30 int)"
  have "wf_table ?t" by (simp add: wf_table_Add wf_table_New)
  moreover have "\<not> isFqdn ''app''" by (simp add: isFqdn_def)
  ultimately have "Lookup ?t (''app'' @ ''.'') = Lookup ?t ''app''"
    using fqdn_key_agreement [of ?t "''app''"] by blast
  then show ?thesis by (simp add: Lookup_Add)
qed

text \<open>
  C7: a pruning round that is not suspended takes some number of readings of the clock. With a clock that
  never goes back it removes every lease already older than \<open>stalenessThreshold\<close> when the round starts;
  it removes a lease only if one of the round's own readings shows it older than the threshold; it
  never changes the instant of a lease and never adds one; and it keeps the table well formed and
  every hostname in it.
\<close>

theorem round_removes_exactly_stale:
  assumes "wf_table t" and "range_order ks (addresses t)" and "\<not> fst (pruning_suspended t)"
    and "monotone_clock (clock t)"
  shows "wf_table (pruneStaleEntriesOnInterval_round ks t) \<and>
         dom (addresses (pruneStaleEntriesOnInterval_round ks t)) = dom (addresses t) \<and>
         (\<exists>n. clock (pruneStaleEntriesOnInterval_round ks t) = clock_drop n (clock t) \<and>
           (\<forall>h i. case leases t h i of
              None \<Rightarrow> leases (pruneStaleEntriesOnInterval_round ks t) h i = None
            | Some u \<Rightarrow>
                (leases (pruneStaleEntriesOnInterval_round ks t) h i = Some u \<and> \<not> stale_at t 0 u) \<or>
                (leases (pruneStaleEntriesOnInterval_round ks t) h i = None \<and> (\<exists>k<n. stale_at t k u))))"
proof -
  let ?t' = "pruneStaleEntriesOnInterval_round ks t"
  obtain n C where p: "prunes n C t ?t'" "wf_table ?t'"
    and C: "\<And>h i u. leases t h i = Some u \<Longrightarrow> (\<And>k. stale_at t k u) \<Longrightarrow> h \<in> C"
    using round_correct [OF assms(1-3)] by blast
  have always: "stale_at t k u" if "stale_at t 0 u" for k u
    using that time_Sub_mono [OF monotone_clock_le [OF assms(4), of 0 k], of u]
    by (simp add: stale_at_def)
  have "(leases ?t' h i = Some u \<and> \<not> stale_at t 0 u) \<or> (leases ?t' h i = None \<and> (\<exists>k<n. stale_at t k u))"
    if l: "leases t h i = Some u" for h i u
    using p(1) l
  proof (cases rule: prunes_lease_cases)
    case kept
    have "\<not> stale_at t 0 u"
    proof
      assume "stale_at t 0 u"
      with always C l have "h \<in> C" "\<And>k. stale_at t k u" by blast+
      with prunes_lease_inside [OF p(1) _ l] kept show False by auto
    qed
    with kept show ?thesis by blast
  qed blast
  then show ?thesis
    using p prunes_lease_none [OF p(1)] prunes_shift(2) [OF p(1)]
    by (intro conjI exI [of _ n]) (auto simp: prunes_def split: option.splits)
qed

theorem round_removes_exactly_stale_witness:
  "\<exists>n. leases (pruneStaleEntriesOnInterval_round [''app.'']
       (new_table 5 0 (\<lambda>i. 10 + int i)
          \<lparr>addresses := [''app.'' \<mapsto> [\<lparr>entry_ip = ''old'', entry_updateTime = 1\<rparr>,
                                          \<lparr>entry_ip = ''new'', entry_updateTime = 100\<rparr>]]\<rparr>))
     ''app.'' ''old'' = None \<and> 0 < n \<and>
     clock (pruneStaleEntriesOnInterval_round [''app.'']
       (new_table 5 0 (\<lambda>i. 10 + int i)
          \<lparr>addresses := [''app.'' \<mapsto> [\<lparr>entry_ip = ''old'', entry_updateTime = 1\<rparr>,
                                          \<lparr>entry_ip = ''new'', entry_updateTime = 100\<rparr>]]\<rparr>))
       = clock_drop n (\<lambda>i. 10 + int i)"
proof -
  let ?es = "[\<lparr>entry_ip = ''old'', entry_updateTime = 1\<rparr>, \<lparr>entry_ip = ''new'', entry_updateTime = 100\<rparr>]"
  let ?t = "new_table 5 0 (\<lambda>i. 10 + int i)\<lparr>addresses := [''app.'' \<mapsto> ?es]\<rparr>"
  have h: "wf_table ?t" "range_order [''app.''] (addresses ?t)" "\<not> fst (pruning_suspended ?t)"
    "monotone_clock (clock ?t)"
    by (auto simp: wf_table_def isFqdn_def range_order_def pruning_suspended_eq new_table_def
        time_Sub_def monotone_clock_def minInt64_def maxInt64_def)
  have l: "leases ?t ''app.'' ''old'' = Some 1" "stale_at ?t 0 1" "clock ?t = (\<lambda>i. 10 + int i)"
    by (simp_all add: leases_def entriesForHostname_def stale_at_def new_table_def time_Sub_def
        minInt64_def maxInt64_def)
  from round_removes_exactly_stale [OF h] obtain n where
    n: "clock (pruneStaleEntriesOnInterval_round [''app.''] ?t) = clock_drop n (clock ?t)"
    and "case leases ?t ''app.'' ''old'' of
      None \<Rightarrow> leases (pruneStaleEntriesOnInterval_round [''app.''] ?t) ''app.'' ''old'' = None
    | Some u \<Rightarrow>
        leases (pruneStaleEntriesOnInterval_round [''app.''] ?t) ''app.'' ''old'' = Some u \<and> \<not> stale_at ?t 0 u \<or>
        leases (pruneStaleEntriesOnInterval_round [''app.''] ?t) ''app.'' ''old'' = None \<and> (\<exists>k<n. stale_at ?t k u)"
    by blast
  from this(2) l(1,2) have "leases (pruneStaleEntriesOnInterval_round [''app.''] ?t) ''app.'' ''old'' = None" "\<exists>k<n. stale_at ?t k 1"
    by (simp_all only: option.case simp_thms)
  with n l(3) show ?thesis by (intro exI [of _ n]) (auto simp only:)
qed

text \<open>
  While pruning is paused, and for \<open>resumePruningDelay\<close> after it was resumed, a round of the pruner
  leaves every entry of the table as it is, however old.
\<close>

theorem suspended_round_keeps_entries:
  assumes "pausedPruning t \<or> time_Sub (clock t 0) (lastResume t) < resumePruningDelay t"
  shows "addresses (pruneStaleEntriesOnInterval_round ks t) = addresses t"
  using assms by (auto simp: pruneStaleEntriesOnInterval_round_def pruning_suspended_eq table_simps)

theorem suspended_round_keeps_entries_witness:
  "addresses (pruneStaleEntriesOnInterval_round [''app.'']
      (ResumePruning (Add [''app''] ''10.0.0.1'' (new_table 5 100 (\<lambda>i. 50 * int i)))))
   = addresses (ResumePruning (Add [''app''] ''10.0.0.1'' (new_table 5 100 (\<lambda>i. 50 * int i))))"
proof -
  let ?t = "ResumePruning (Add [''app''] ''10.0.0.1'' (new_table 5 100 (\<lambda>i. 50 * int i)))"
  have "time_Sub (clock ?t 0) (lastResume ?t) < resumePruningDelay ?t"
    by (simp add: table_simps new_table_def time_Sub_def minInt64_def maxInt64_def)
  then show ?thesis using suspended_round_keeps_entries [of ?t "[''app.'']"] by simp
qed

text \<open>
  A table that was never resumed is not held back by its zero \<open>lastResume\<close>: at any instant more
  than the largest duration after year 1, \<open>Sub\<close> saturates and its first round is not suspended,
  whatever the configured delay.
\<close>

theorem new_table_prunes_at_once:
  assumes "maxInt64 \<le> c 0" and "is_int64 delay"
  shows "\<not> fst (pruning_suspended (new_table staleness delay c))"
  using assms by (auto simp: pruning_suspended_eq new_table_def time_Sub_def is_int64_def
      minInt64_def maxInt64_def)

theorem new_table_prunes_at_once_witness:
  "\<not> fst (pruning_suspended (new_table 120000000000 30000000000 (\<lambda>i. time_Unix_ns (int i))))"
  by (rule new_table_prunes_at_once)
    (simp_all add: time_Unix_ns_def second_def is_int64_def minInt64_def maxInt64_def)

text \<open>
  C34: pruning the last entry of a hostname does not remove the hostname: it stays in the table with an
  empty list, and \<open>GetAllAddresses\<close> lists it with no IPs, whereas \<open>Remove\<close> of the last IP deletes the
  hostname.
\<close>

theorem pruned_hostname_stays_listed:
  assumes "wf_table t" and "range_order ks (addresses t)" and "\<not> fst (pruning_suspended t)"
    and "monotone_clock (clock t)" and "addresses t h = Some [e]"
    and "stale_at t 0 (entry_updateTime e)"
  shows "GetAllAddresses ks (pruneStaleEntriesOnInterval_round ks t) h = Some [] \<and>
         GetAllAddresses ks (Remove [h] (entry_ip e) t) h = None"
proof -
  let ?t' = "pruneStaleEntriesOnInterval_round ks t"
  obtain n C where p: "prunes n C t ?t'" and "wf_table ?t'"
    and C: "\<And>h i u. leases t h i = Some u \<Longrightarrow> (\<And>k. stale_at t k u) \<Longrightarrow> h \<in> C"
    using round_correct [OF assms(1-3)] by blast
  have always: "stale_at t k (entry_updateTime e)" for k
    using assms(6) time_Sub_mono [OF monotone_clock_le [OF assms(4), of 0 k], of "entry_updateTime e"]
    by (simp add: stale_at_def)
  have l: "leases t h = [entry_ip e \<mapsto> entry_updateTime e]"
    using assms(5) by (simp add: leases_def entriesForHostname_def)
  have "leases ?t' h i = None" for i
  proof (cases "i = entry_ip e")
    case True
    then have "leases t h i = Some (entry_updateTime e)" by (simp add: l)
    from prunes_lease_inside [OF p C [OF this always] this] always show ?thesis by auto
  next
    case False then show ?thesis using prunes_lease_none [OF p, of h i] l by simp
  qed
  then have "i \<notin> entry_ip ` set (entriesForHostname ?t' h)" for i
    unfolding leases_def leases_of_None .
  then have "entry_ip ` set (entriesForHostname ?t' h) = {}" by (auto simp only: set_eq_iff empty_iff)
  then have "entriesForHostname ?t' h = []" by simp
  moreover from p have "dom (addresses ?t') = dom (addresses t)" unfolding prunes_def by blast
  moreover from this assms(5) have "h \<in> dom (addresses ?t')" by (simp add: domI)
  then obtain es where "addresses ?t' h = Some es" by blast
  ultimately have "GetAllAddresses ks ?t' h = Some []"
    using assms(2) by (subst GetAllAddresses_eq)
      (simp_all add: range_order_def entriesForHostname_def entriesToIPs_def)
  moreover have "isFqdn h" using assms(1,5) by (simp add: wf_table_def)
  then have "addresses (Remove [h] (entry_ip e) t) h = None"
    using assms(5) by (simp add: Remove_Cons Remove_hostname_def entriesForHostname_def indexOf_def)
  then have "GetAllAddresses ks (Remove [h] (entry_ip e) t) h = None"
    by (simp add: GetAllAddresses_def GetAllAddresses_loop_eq)
  ultimately show ?thesis ..
qed

theorem pruned_hostname_stays_listed_witness:
  "GetAllAddresses [''app.''] (pruneStaleEntriesOnInterval_round [''app.'']
       (new_table 5 0 (\<lambda>i. 10 + int i)
          \<lparr>addresses := [''app.'' \<mapsto> [\<lparr>entry_ip = ''old'', entry_updateTime = 1\<rparr>]]\<rparr>)) ''app.'' = Some []"
proof -
  let ?e = "\<lparr>entry_ip = ''old'', entry_updateTime = 1\<rparr>"
  let ?t = "new_table 5 0 (\<lambda>i. 10 + int i)\<lparr>addresses := [''app.'' \<mapsto> [?e]]\<rparr>"
  have h: "wf_table ?t" "range_order [''app.''] (addresses ?t)" "\<not> fst (pruning_suspended ?t)"
    "monotone_clock (clock ?t)" "addresses ?t ''app.'' = Some [?e]"
    "stale_at ?t 0 (entry_updateTime ?e)"
    by (auto simp: wf_table_def isFqdn_def range_order_def pruning_suspended_eq new_table_def
        stale_at_def time_Sub_def monotone_clock_def minInt64_def maxInt64_def)
  from pruned_hostname_stays_listed [OF h] show ?thesis by blast
qed

end
