(* ===== verification/Go_Json.thy ===== *)
theory Go_Json
  imports Prelude
begin

text \<open>
  The part of Go's \<open>encoding/json\<close> that the program uses: \<open>Marshal\<close> of structs, slices, strings and
  integers, and \<open>Unmarshal\<close> into structs. Strings are byte sequences. The encoder escapes what the
  library escapes (HTML characters included) and replaces bytes that are not UTF-8; the decoder is a
  lexer, a push-down automaton over the tokens, and the assignment of object members to fields.
\<close>

section \<open>UTF-8\<close>

abbreviation byte :: "char \<Rightarrow> nat" where
  "byte c \<equiv> of_char c"

definition in_range :: "nat \<Rightarrow> nat \<Rightarrow> char \<Rightarrow> bool" where
  "in_range lo hi c \<longleftrightarrow> lo \<le> byte c \<and> byte c \<le> hi"

abbreviation ascii :: "char \<Rightarrow> bool" where
  "ascii c \<equiv> byte c < 128"

abbreviation continuation :: "char \<Rightarrow> bool" where
  "continuation \<equiv> in_range 128 191"

definition utf8_two :: "char \<Rightarrow> char \<Rightarrow> bool" where
  "utf8_two a b \<longleftrightarrow> in_range 194 223 a \<and> continuation b"

definition utf8_three :: "char \<Rightarrow> char \<Rightarrow> char \<Rightarrow> bool" where
  "utf8_three a b c \<longleftrightarrow>
     (in_range 224 224 a \<and> in_range 160 191 b \<or> in_range 225 236 a \<and> continuation b \<or>
      in_range 237 237 a \<and> in_range 128 159 b \<or> in_range 238 239 a \<and> continuation b) \<and>
     continuation c"

definition utf8_four :: "char \<Rightarrow> char \<Rightarrow> char \<Rightarrow> char \<Rightarrow> bool" where
  "utf8_four a b c d \<longleftrightarrow>
     (in_range 240 240 a \<and> in_range 144 191 b \<or> in_range 241 243 a \<and> continuation b \<or>
      in_range 244 244 a \<and> in_range 128 143 b) \<and> continuation c \<and> continuation d"

text \<open>The length of the encoded code point at the head of a byte sequence, 0 if there is none.\<close>

definition utf8_size :: "string \<Rightarrow> nat" where
  "utf8_size s =
     (case s of [] \<Rightarrow> 0
      | a # s1 \<Rightarrow> if ascii a then 1 else
         (case s1 of [] \<Rightarrow> 0
          | b # s2 \<Rightarrow> if utf8_two a b then 2 else
             (case s2 of [] \<Rightarrow> 0
              | c # s3 \<Rightarrow> if utf8_three a b c then 3 else
                 (case s3 of [] \<Rightarrow> 0
                  | d # _ \<Rightarrow> if utf8_four a b c d then 4 else 0))))"

definition replacement_rune :: string where
  "replacement_rune = [CHR 0xEF, CHR 0xBF, CHR 0xBD]"

text \<open>\<open>utf8.EncodeRune\<close>: code points that are surrogates or too large become the replacement rune.\<close>

definition encode_rune :: "nat \<Rightarrow> string" where
  "encode_rune r =
     (if r < 128 then [char_of r]
      else if r < 2048 then [char_of (192 + r div 64), char_of (128 + r mod 64)]
      else if 55296 \<le> r \<and> r < 57344 \<or> 1114112 \<le> r then replacement_rune
      else if r < 65536 then
        [char_of (224 + r div 4096), char_of (128 + r div 64 mod 64), char_of (128 + r mod 64)]
      else [char_of (240 + r div 262144), char_of (128 + r div 4096 mod 64),
            char_of (128 + r div 64 mod 64), char_of (128 + r mod 64)])"

section \<open>Strings\<close>

abbreviation backslash :: char where "backslash \<equiv> CHR 0x5C"
abbreviation dquote :: char where "dquote \<equiv> CHR 0x22"

definition hex_digit :: "nat \<Rightarrow> char" where
  "hex_digit n = (if n < 10 then char_of (48 + n) else char_of (87 + n))"

definition hex_value :: "char \<Rightarrow> nat option" where
  "hex_value c =
     (if in_range 48 57 c then Some (byte c - 48)
      else if in_range 97 102 c then Some (byte c - 87)
      else if in_range 65 70 c then Some (byte c - 55) else None)"

text \<open>The bytes \<open>htmlSafeSet\<close> allows unescaped.\<close>

definition html_safe :: "char \<Rightarrow> bool" where
  "html_safe c \<longleftrightarrow> 32 \<le> byte c \<and> ascii c \<and> c \<notin> {dquote, backslash, CHR ''<'', CHR ''>'', CHR ''&''}"

definition escape_ascii :: "char \<Rightarrow> string" where
  "escape_ascii c =
     (if html_safe c then [c]
      else if c = backslash \<or> c = dquote then [backslash, c]
      else if c = CHR 0x0A then [backslash, CHR ''n'']
      else if c = CHR 0x0D then [backslash, CHR ''r'']
      else if c = CHR 0x09 then [backslash, CHR ''t'']
      else [backslash, CHR ''u'', CHR ''0'', CHR ''0'', hex_digit (byte c div 16), hex_digit (byte c mod 16)])"

definition escape_rune :: "string \<Rightarrow> string" where
  "escape_rune p =
     (if p = [CHR 0xE2, CHR 0x80, CHR 0xA8] then backslash # ''u2028''
      else if p = [CHR 0xE2, CHR 0x80, CHR 0xA9] then backslash # ''u2029''
      else p)"

function json_escape :: "string \<Rightarrow> string" where
  "json_escape [] = []"
| "json_escape (a # s) =
     (if ascii a then escape_ascii a @ json_escape s
      else let n = utf8_size (a # s)
           in if n = 0 then (backslash # ''ufffd'') @ json_escape s
              else escape_rune (take n (a # s)) @ json_escape (drop (n - 1) s))"
  by pat_completeness auto
termination by (relation "measure length") auto

text \<open>What the decoder recovers: the same bytes, with every byte that is not UTF-8 replaced.\<close>

function valid_utf8 :: "string \<Rightarrow> string" where
  "valid_utf8 [] = []"
| "valid_utf8 (a # s) =
     (let n = utf8_size (a # s)
      in if n = 0 then replacement_rune @ valid_utf8 s
         else take n (a # s) @ valid_utf8 (drop (n - 1) s))"
  by pat_completeness auto
termination by (relation "measure length") auto

definition prepend :: "string \<Rightarrow> (string \<times> string) option \<Rightarrow> (string \<times> string) option" where
  "prepend p r = map_option (\<lambda>(a, b). (p @ a, b)) r"

definition simple_escape :: "char \<Rightarrow> char option" where
  "simple_escape e =
     (if e = dquote \<or> e = backslash \<or> e = CHR ''/'' then Some e
      else if e = CHR ''b'' then Some (CHR 0x08)
      else if e = CHR ''f'' then Some (CHR 0x0C)
      else if e = CHR ''n'' then Some (CHR 0x0A)
      else if e = CHR ''r'' then Some (CHR 0x0D)
      else if e = CHR ''t'' then Some (CHR 0x09)
      else None)"

definition getu4 :: "string \<Rightarrow> nat option" where
  "getu4 s =
     (case s of
        a # b # c # d # _ \<Rightarrow>
          (case (hex_value a, hex_value b, hex_value c, hex_value d) of
             (Some w, Some x, Some y, Some z) \<Rightarrow> Some (((w * 16 + x) * 16 + y) * 16 + z)
           | _ \<Rightarrow> None)
      | _ \<Rightarrow> None)"

text \<open>\<open>\u\<close> escapes: two of them make one code point when they are a surrogate pair.\<close>

definition unescape_u :: "nat \<Rightarrow> string \<Rightarrow> string \<times> nat" where
  "unescape_u r rest =
     (if 55296 \<le> r \<and> r < 57344
      then (case (if take 2 rest = [backslash, CHR ''u''] then getu4 (drop 2 rest) else None) of
              Some r2 \<Rightarrow> if r < 56320 \<and> 56320 \<le> r2 \<and> r2 < 57344
                then (encode_rune ((r - 55296) * 1024 + (r2 - 56320) + 65536), 6)
                else (replacement_rune, 0)
            | None \<Rightarrow> (replacement_rune, 0))
      else (encode_rune r, 0))"

function json_unquote :: "string \<Rightarrow> (string \<times> string) option" where
  "json_unquote [] = None"
| "json_unquote (c # s) =
     (if c = dquote then Some ([], s)
      else if c = backslash then
        (case s of [] \<Rightarrow> None
         | e # s' \<Rightarrow>
             if e = CHR ''u'' then
               (case getu4 s' of None \<Rightarrow> None
                | Some r \<Rightarrow> let (p, k) = unescape_u r (drop 4 s')
                           in prepend p (json_unquote (drop (4 + k) s')))
             else (case simple_escape e of None \<Rightarrow> None
                   | Some ch \<Rightarrow> prepend [ch] (json_unquote s')))
      else if byte c < 32 then None
      else let n = utf8_size (c # s)
           in if n = 0 then prepend replacement_rune (json_unquote s)
              else prepend (take n (c # s)) (json_unquote (drop (n - 1) s)))"
  by pat_completeness auto
termination by (relation "measure length") auto

declare json_escape.simps [simp del] valid_utf8.simps [simp del] json_unquote.simps [simp del]

lemma prepend_Some [simp]: "prepend p (Some (a, b)) = Some (p @ a, b)"
  by (simp add: prepend_def)

lemma prepend_prepend [simp]: "prepend p (prepend q r) = prepend (p @ q) r"
  by (cases r) (auto simp: prepend_def)

lemma utf8_size_le: "utf8_size s \<le> length s"
  by (auto simp: utf8_size_def split: list.splits)

lemma utf8_size_shapes:
  assumes "0 < utf8_size s"
  obtains (one) a s' where "s = a # s'" and "ascii a" and "utf8_size s = 1"
  | (two) a b s' where "s = a # b # s'" and "\<not> ascii a" and "utf8_two a b" and "utf8_size s = 2"
  | (three) a b c s' where "s = a # b # c # s'" and "\<not> ascii a" and "\<not> utf8_two a b"
      and "utf8_three a b c" and "utf8_size s = 3"
  | (four) a b c d s' where "s = a # b # c # d # s'" and "\<not> ascii a" and "\<not> utf8_two a b"
      and "\<not> utf8_three a b c" and "utf8_four a b c d" and "utf8_size s = 4"
  using assms unfolding utf8_size_def by (simp split: list.splits if_splits)

lemma utf8_size_take:
  assumes "0 < utf8_size s"
  shows "utf8_size (take (utf8_size s) s @ t) = utf8_size s"
  using assms by (cases rule: utf8_size_shapes) (simp_all add: utf8_size_def)

lemma utf8_size_ascii: "ascii a \<Longrightarrow> utf8_size (a # s) = 1"
  by (simp add: utf8_size_def)

lemma hex_value_digit: "n < 16 \<Longrightarrow> hex_value (hex_digit n) = Some n"
  by (auto simp: hex_value_def hex_digit_def in_range_def)

lemma hex_value_zero: "hex_value (CHR ''0'') = Some 0"
  by (simp add: hex_value_def in_range_def)

lemma valid_utf8_ascii: "ascii a \<Longrightarrow> valid_utf8 (a # s) = a # valid_utf8 s"
  by (simp add: valid_utf8.simps utf8_size_ascii)

lemma encode_rune_ascii: "ascii c \<Longrightarrow> encode_rune (byte c) = [c]"
  by (simp add: encode_rune_def)

lemma unquote_escape_ascii:
  assumes "ascii c"
  shows "json_unquote (escape_ascii c @ t) = prepend [c] (json_unquote t)"
proof -
  have u: "json_unquote ([backslash, CHR ''u'', CHR ''0'', CHR ''0'', hex_digit (byte c div 16),
      hex_digit (byte c mod 16)] @ t) = prepend [c] (json_unquote t)"
  proof -
    have "byte c div 16 < 16" using nat_of_char_less_256 [of c] by linarith
    then have "getu4 (CHR ''0'' # CHR ''0'' # hex_digit (byte c div 16) # hex_digit (byte c mod 16) # t)
        = Some (byte c)"
      by (simp add: getu4_def hex_value_digit hex_value_zero)
    with assms show ?thesis
      by (simp add: json_unquote.simps unescape_u_def encode_rune_ascii)
  qed
  have s: "json_unquote ([c] @ t) = prepend [c] (json_unquote t)" if "html_safe c"
    using that by (simp add: json_unquote.simps html_safe_def utf8_size_ascii)
  have b: "json_unquote ([backslash, e] @ t) = prepend [d] (json_unquote t)"
    if "simple_escape e = Some d" "e \<noteq> CHR ''u''" for e d
    using that by (simp add: json_unquote.simps)
  show ?thesis
    unfolding escape_ascii_def using s u
    by (simp add: b [unfolded append_Cons append_Nil] simple_escape_def)
qed

lemma unquote_u:
  "getu4 u = Some r \<Longrightarrow> r < 55296 \<or> 57344 \<le> r \<Longrightarrow> length u = 4 \<Longrightarrow>
     json_unquote ((backslash # CHR ''u'' # u) @ t) = prepend (encode_rune r) (json_unquote t)"
  by (auto simp: json_unquote.simps getu4_def unescape_u_def split: list.splits option.splits)

lemma special_runes:
  "getu4 ''2028'' = Some 8232" "encode_rune 8232 = [CHR 0xE2, CHR 0x80, CHR 0xA8]"
  "getu4 ''2029'' = Some 8233" "encode_rune 8233 = [CHR 0xE2, CHR 0x80, CHR 0xA9]"
  "getu4 ''fffd'' = Some 65533" "encode_rune 65533 = replacement_rune"
  by (simp_all add: getu4_def hex_value_def in_range_def encode_rune_def replacement_rune_def
      char_of_eq_iff)

lemma unquote_escape_rune:
  assumes "0 < utf8_size (a # s)" and "\<not> ascii a" and "p = take (utf8_size (a # s)) (a # s)"
  shows "json_unquote (escape_rune p @ t) = prepend p (json_unquote t)"
proof -
  let ?n = "utf8_size (a # s)"
  have "json_unquote (p @ t) = prepend p (json_unquote t)"
  proof -
    obtain m where m: "?n = Suc m" using assms(1) gr0_implies_Suc by blast
    with assms(3) have p: "p = a # take m s" by simp
    have "utf8_size (a # take m s @ t) = Suc m"
      using utf8_size_take [OF assms(1), of t] by (simp add: m)
    moreover have "length (take m s) = m" using utf8_size_le [of "a # s"] m by simp
    ultimately show ?thesis using assms(2)
      by (auto simp: p json_unquote.simps(2) [of a])
  qed
  moreover have "json_unquote ((backslash # ''u2028'') @ t)
      = prepend [CHR 0xE2, CHR 0x80, CHR 0xA8] (json_unquote t)"
    "json_unquote ((backslash # ''u2029'') @ t)
      = prepend [CHR 0xE2, CHR 0x80, CHR 0xA9] (json_unquote t)"
    using unquote_u [of "''2028''" 8232 t] unquote_u [of "''2029''" 8233 t]
    by (simp_all add: special_runes)
  ultimately show ?thesis by (simp add: escape_rune_def)
qed

lemma unquote_escape:
  "json_unquote (json_escape s @ dquote # rest) = Some (valid_utf8 s, rest)"
proof (induction s rule: json_escape.induct)
  case 1
  show ?case by (simp add: json_escape.simps valid_utf8.simps json_unquote.simps)
next
  case (2 a s)
  let ?n = "utf8_size (a # s)"
  consider "ascii a" | "\<not> ascii a" "?n = 0" | "\<not> ascii a" "0 < ?n" by blast
  then show ?case
  proof cases
    case 1
    with 2 show ?thesis by (simp add: json_escape.simps unquote_escape_ascii valid_utf8_ascii)
  next
    case 2
    have "json_unquote ((backslash # ''ufffd'') @ t) = prepend replacement_rune (json_unquote t)" for t
      using unquote_u [of "''fffd''" 65533 t] by (simp add: special_runes)
    with 2 "2.IH" show ?thesis
      by (simp add: json_escape.simps(2) valid_utf8.simps(2) Let_def)
  next
    case 3
    with unquote_escape_rune [OF 3(2,1) refl] "2.IH" show ?thesis
      by (simp add: json_escape.simps(2) valid_utf8.simps(2) Let_def)
  qed
qed

section \<open>Documents\<close>

datatype json =
    JNull
  | JBool bool
  | JNum string
  | JStr string
  | JArr "json list"
  | JObj "(string \<times> json) list"

text \<open>Numbers keep their literal; \<open>json_number\<close> is the grammar of number literals.\<close>

definition is_digit :: "char \<Rightarrow> bool" where
  "is_digit c \<longleftrightarrow> in_range 48 57 c"

definition num_char :: "char \<Rightarrow> bool" where
  "num_char c \<longleftrightarrow> is_digit c \<or> c \<in> {CHR ''-'', CHR ''+'', CHR ''.'', CHR ''e'', CHR ''E''}"

definition exponent_part :: "string \<Rightarrow> bool" where
  "exponent_part s =
     (case s of [] \<Rightarrow> True
      | c # s' \<Rightarrow> (c = CHR ''e'' \<or> c = CHR ''E'') \<and>
          (let ds = (case s' of d # s'' \<Rightarrow> if d = CHR ''+'' \<or> d = CHR ''-'' then s'' else s' | [] \<Rightarrow> [])
           in ds \<noteq> [] \<and> list_all is_digit ds))"

definition fraction_part :: "string \<Rightarrow> bool" where
  "fraction_part s =
     (case s of c # s' \<Rightarrow>
        if c = CHR ''.'' then takeWhile is_digit s' \<noteq> [] \<and> exponent_part (dropWhile is_digit s')
        else exponent_part s
      | [] \<Rightarrow> True)"

definition unsigned_number :: "string \<Rightarrow> bool" where
  "unsigned_number u =
     (let ds = takeWhile is_digit u
      in ds \<noteq> [] \<and> (hd ds = CHR ''0'' \<longrightarrow> ds = ''0'') \<and> fraction_part (dropWhile is_digit u))"

definition json_number :: "string \<Rightarrow> bool" where
  "json_number s =
     (case s of [] \<Rightarrow> False | c # s' \<Rightarrow> if c = CHR ''-'' then unsigned_number s' else unsigned_number s)"

definition join :: "string \<Rightarrow> string list \<Rightarrow> string" where
  "join sep xs = concat (case xs of [] \<Rightarrow> [] | x # xs' \<Rightarrow> x # map (\<lambda>y. sep @ y) xs')"

definition json_quote :: "string \<Rightarrow> string" where
  "json_quote s = dquote # json_escape s @ [dquote]"

text \<open>\<open>json.Marshal\<close>: no white space, members in the order of the struct's fields.\<close>

fun json_print :: "json \<Rightarrow> string" where
  "json_print JNull = ''null''"
| "json_print (JBool b) = (if b then ''true'' else ''false'')"
| "json_print (JNum n) = n"
| "json_print (JStr s) = json_quote s"
| "json_print (JArr vs) = ''['' @ join '','' (map json_print vs) @ '']''"
| "json_print (JObj ms) =
     ''{'' @ join '','' (map (\<lambda>(k, v). json_quote k @ '':'' @ json_print v) ms) @ ''}''"

subsection \<open>Tokens\<close>

datatype token =
    TLBrace | TRBrace | TLBrack | TRBrack | TColon | TComma
  | TStr string | TNum string | TTrue | TFalse | TNull

definition white :: "char \<Rightarrow> bool" where
  "white c \<longleftrightarrow> c \<in> {CHR '' '', CHR 0x09, CHR 0x0A, CHR 0x0D}"

definition punctuation :: "char \<Rightarrow> token option" where
  "punctuation c =
     (if c = CHR ''{'' then Some TLBrace else if c = CHR ''}'' then Some TRBrace
      else if c = CHR ''['' then Some TLBrack else if c = CHR '']'' then Some TRBrack
      else if c = CHR '':'' then Some TColon else if c = CHR '','' then Some TComma else None)"

lemma unquote_shorter: "json_unquote s = Some (v, r) \<Longrightarrow> length r < length s"
proof (induction s arbitrary: v r rule: json_unquote.induct)
  case (2 c s)
  then show ?case
    by (force simp: json_unquote.simps(2) [of c s] prepend_def Let_def
        split: if_splits list.splits option.splits prod.splits)
qed (simp add: json_unquote.simps)

definition add_token :: "token \<Rightarrow> token list option \<Rightarrow> token list option" where
  "add_token k r = map_option (\<lambda>ts. k # ts) r"

function json_lex :: "string \<Rightarrow> token list option" where
  "json_lex [] = Some []"
| "json_lex (c # s) =
     (if white c then json_lex s
      else if punctuation c \<noteq> None then add_token (the (punctuation c)) (json_lex s)
      else if c = dquote then
        (case json_unquote s of None \<Rightarrow> None | Some (v, r) \<Rightarrow> add_token (TStr v) (json_lex r))
      else if take 4 (c # s) = ''true'' then add_token TTrue (json_lex (drop 3 s))
      else if take 5 (c # s) = ''false'' then add_token TFalse (json_lex (drop 4 s))
      else if take 4 (c # s) = ''null'' then add_token TNull (json_lex (drop 3 s))
      else if num_char c then
        (let n = takeWhile num_char (c # s)
         in if json_number n then add_token (TNum n) (json_lex (dropWhile num_char s)) else None)
      else None)"
  by pat_completeness auto
termination
  by (relation "measure length") (auto dest: unquote_shorter simp: length_dropWhile_le less_Suc_eq_le)

declare json_lex.simps [simp del]

subsection \<open>The push-down automaton\<close>

datatype frame = InArray "json list" | InObject "(string \<times> json) list" string

datatype mode =
    WantValue
  | ArrayStart
  | ObjectStart
  | WantKey "(string \<times> json) list"
  | WantColon "(string \<times> json) list" string
  | Got json

definition value_start :: "token \<Rightarrow> mode option" where
  "value_start t =
     (case t of TLBrack \<Rightarrow> Some ArrayStart | TLBrace \<Rightarrow> Some ObjectStart
      | TStr s \<Rightarrow> Some (Got (JStr s)) | TNum n \<Rightarrow> Some (Got (JNum n))
      | TTrue \<Rightarrow> Some (Got (JBool True)) | TFalse \<Rightarrow> Some (Got (JBool False))
      | TNull \<Rightarrow> Some (Got JNull) | _ \<Rightarrow> None)"

definition json_step :: "frame list \<Rightarrow> mode \<Rightarrow> token \<Rightarrow> (frame list \<times> mode) option" where
  "json_step stk m t =
     (case m of
        WantValue \<Rightarrow> map_option (Pair stk) (value_start t)
      | ArrayStart \<Rightarrow> if t = TRBrack then Some (stk, Got (JArr []))
                     else map_option (Pair (InArray [] # stk)) (value_start t)
      | ObjectStart \<Rightarrow> (case t of TRBrace \<Rightarrow> Some (stk, Got (JObj []))
                        | TStr k \<Rightarrow> Some (stk, WantColon [] k) | _ \<Rightarrow> None)
      | WantKey acc \<Rightarrow> (case t of TStr k \<Rightarrow> Some (stk, WantColon acc k) | _ \<Rightarrow> None)
      | WantColon acc k \<Rightarrow> if t = TColon then Some (InObject acc k # stk, WantValue) else None
      | Got v \<Rightarrow>
          (case stk of
             [] \<Rightarrow> None
           | InArray acc # stk' \<Rightarrow>
               if t = TComma then Some (InArray (v # acc) # stk', WantValue)
               else if t = TRBrack then Some (stk', Got (JArr (rev (v # acc)))) else None
           | InObject acc k # stk' \<Rightarrow>
               if t = TComma then Some (stk', WantKey ((k, v) # acc))
               else if t = TRBrace then Some (stk', Got (JObj (rev ((k, v) # acc)))) else None))"

fun json_run :: "frame list \<Rightarrow> mode \<Rightarrow> token list \<Rightarrow> json option" where
  "json_run stk m [] = (case (stk, m) of ([], Got v) \<Rightarrow> Some v | _ \<Rightarrow> None)"
| "json_run stk m (t # ts) =
     (case json_step stk m t of None \<Rightarrow> None | Some (stk', m') \<Rightarrow> json_run stk' m' ts)"

definition json_parse :: "string \<Rightarrow> json option" where
  "json_parse s = (case json_lex s of None \<Rightarrow> None | Some ts \<Rightarrow> json_run [] WantValue ts)"

section \<open>Printing and parsing are inverse\<close>

fun comma_tokens :: "token list list \<Rightarrow> token list" where
  "comma_tokens [] = []"
| "comma_tokens [ts] = ts"
| "comma_tokens (ts # us # tss) = ts @ TComma # comma_tokens (us # tss)"

fun json_tokens :: "json \<Rightarrow> token list" where
  "json_tokens JNull = [TNull]"
| "json_tokens (JBool b) = [if b then TTrue else TFalse]"
| "json_tokens (JNum n) = [TNum n]"
| "json_tokens (JStr s) = [TStr s]"
| "json_tokens (JArr vs) = TLBrack # comma_tokens (map json_tokens vs) @ [TRBrack]"
| "json_tokens (JObj ms) =
     TLBrace # comma_tokens (map (\<lambda>(k, v). TStr k # TColon # json_tokens v) ms) @ [TRBrace]"

text \<open>What a document becomes on its way through \<open>Marshal\<close> and \<open>Unmarshal\<close>.\<close>

fun json_valid :: "json \<Rightarrow> json" where
  "json_valid JNull = JNull"
| "json_valid (JBool b) = JBool b"
| "json_valid (JNum n) = JNum n"
| "json_valid (JStr s) = JStr (valid_utf8 s)"
| "json_valid (JArr vs) = JArr (map json_valid vs)"
| "json_valid (JObj ms) = JObj (map (\<lambda>(k, v). (valid_utf8 k, json_valid v)) ms)"

text \<open>Number literals of a document that the encoder can produce.\<close>

fun json_wf :: "json \<Rightarrow> bool" where
  "json_wf (JNum n) = (json_number n \<and> list_all num_char n)"
| "json_wf (JArr vs) = list_all json_wf vs"
| "json_wf (JObj ms) = list_all (\<lambda>(k, v). json_wf v) ms"
| "json_wf _ = True"

text \<open>The automaton.\<close>

lemma run_value:
  "json_run stk WantValue (json_tokens v @ ts) = json_run stk (Got v) ts \<and>
   json_run stk ArrayStart (json_tokens v @ ts) = json_run (InArray [] # stk) (Got v) ts"
proof (induction v arbitrary: stk ts)
  case (JArr vs)
  have elems: "vs' \<noteq> [] \<Longrightarrow> set vs' \<subseteq> set vs \<Longrightarrow>
      json_run (InArray acc # stk) WantValue (comma_tokens (map json_tokens vs') @ TRBrack # ts)
      = json_run stk (Got (JArr (rev acc @ vs'))) ts" for vs' acc stk
  proof (induction vs' arbitrary: acc rule: induct_list012)
    case (2 v)
    then show ?case using JArr.IH [of v] by (simp add: json_step_def)
  next
    case (3 v w vs')
    then show ?case using JArr.IH [of v "InArray acc # stk"] "3.IH"(2) [of "v # acc"]
      by (simp add: json_step_def)
  qed simp
  have arr: "json_run stk ArrayStart (comma_tokens (map json_tokens vs) @ TRBrack # ts)
      = json_run stk (Got (JArr vs)) ts" for stk
  proof (cases vs)
    case Nil
    then show ?thesis by (simp add: json_step_def)
  next
    case (Cons v vs')
    then show ?thesis
      using JArr.IH [of v stk] elems [of vs' "[v]" stk] by (cases vs') (auto simp: json_step_def)
  qed
  show ?case
    using arr by (simp_all add: json_step_def value_start_def)
next
  case (JObj ms)
  let ?m = "\<lambda>(k, v). TStr k # TColon # json_tokens v"
  have colon: "json_run stk (WantColon acc k) (TColon # json_tokens v @ ts)
      = json_run (InObject acc k # stk) (Got v) ts" if "(k, v) \<in> set ms" for acc k v stk ts
    using JObj.IH [OF that, of v] by (simp add: json_step_def snds.simps)
  have members: "ms' \<noteq> [] \<Longrightarrow> set ms' \<subseteq> set ms \<Longrightarrow>
      json_run stk (WantKey acc) (comma_tokens (map ?m ms') @ TRBrace # ts)
      = json_run stk (Got (JObj (rev acc @ ms'))) ts" for ms' acc stk
  proof (induction ms' arbitrary: acc rule: induct_list012)
    case (2 m)
    then show ?case using colon by (cases m) (simp add: json_step_def)
  next
    case (3 m m' ms')
    then show ?case using colon "3.IH"(2) [of "m # acc"] by (cases m) (simp add: json_step_def)
  qed simp
  have "json_run stk ObjectStart (comma_tokens (map ?m ms) @ TRBrace # ts)
      = json_run stk (WantKey []) (comma_tokens (map ?m ms) @ TRBrace # ts)" if "ms \<noteq> []" for stk
    using that by (cases ms; cases "tl ms") (auto simp: json_step_def)
  with members [where ms' = ms and acc = "[]"] have obj: "json_run stk ObjectStart (comma_tokens (map ?m ms) @ TRBrace # ts)
      = json_run stk (Got (JObj ms)) ts" for stk
    by (cases "ms = []") (simp_all add: json_step_def)
  show ?case
    using obj by (simp_all add: json_step_def value_start_def)
qed (simp_all add: json_step_def value_start_def)

text \<open>The lexer on printed documents.\<close>

lemma add_token_append: "add_token k (map_option (\<lambda>ts. us @ ts) r) = map_option (\<lambda>ts. (k # us) @ ts) r"
  by (cases r) (simp_all add: add_token_def)

lemma lex_punctuation:
  "json_lex (CHR ''['' # s) = add_token TLBrack (json_lex s)"
  "json_lex (CHR '']'' # s) = add_token TRBrack (json_lex s)"
  "json_lex (CHR ''{'' # s) = add_token TLBrace (json_lex s)"
  "json_lex (CHR ''}'' # s) = add_token TRBrace (json_lex s)"
  "json_lex (CHR '':'' # s) = add_token TColon (json_lex s)"
  "json_lex (CHR '','' # s) = add_token TComma (json_lex s)"
  by (simp_all add: json_lex.simps white_def punctuation_def)

lemma lex_literals:
  "json_lex (''null'' @ s) = add_token TNull (json_lex s)"
  "json_lex (''true'' @ s) = add_token TTrue (json_lex s)"
  "json_lex (''false'' @ s) = add_token TFalse (json_lex s)"
  by (simp_all add: json_lex.simps white_def punctuation_def)

lemma lex_quote: "json_lex (json_quote k @ s) = add_token (TStr (valid_utf8 k)) (json_lex s)"
  by (simp add: json_quote_def json_lex.simps white_def punctuation_def unquote_escape)

definition no_num :: "string \<Rightarrow> bool" where
  "no_num s \<longleftrightarrow> (case s of [] \<Rightarrow> True | c # _ \<Rightarrow> \<not> num_char c)"

lemma num_char_facts:
  assumes "num_char c"
  shows "\<not> white c" "punctuation c = None" "c \<noteq> dquote" "c \<noteq> CHR ''t''" "c \<noteq> CHR ''f''" "c \<noteq> CHR ''n''"
  using assms
  by (auto simp: num_char_def white_def punctuation_def is_digit_def in_range_def)

lemma lex_number:
  assumes "json_number n" and "list_all num_char n" and "no_num s"
  shows "json_lex (n @ s) = add_token (TNum n) (json_lex s)"
proof -
  from assms(1) obtain c n' where n: "n = c # n'"
    by (cases n) (auto simp: json_number_def)
  from assms(2) have c: "num_char c" "list_all num_char n'" by (simp_all add: n)
  have "takeWhile num_char (n' @ s) = n'" "dropWhile num_char (n' @ s) = s"
    using c(2) assms(3) by (auto simp: no_num_def takeWhile_append2 dropWhile_append2 list_all_iff
        takeWhile_eq_Nil_iff split: list.splits)
  with c num_char_facts [OF c(1)] assms(1) show ?thesis
    by (simp add: n json_lex.simps)
qed

text \<open>
  A piece of text \<open>p\<close> lexes to the tokens \<open>ts\<close> when, in front of any rest that does not continue a
  number, the lexer yields these tokens and then those of the rest.
\<close>

definition lexes :: "string \<Rightarrow> token list \<Rightarrow> bool" where
  "lexes p ts \<longleftrightarrow>
     (\<forall>s. no_num s \<longrightarrow> json_lex (p @ s) = map_option (\<lambda>us. ts @ us) (json_lex s))"

lemma lexesD: "lexes p ts \<Longrightarrow> no_num s \<Longrightarrow> json_lex (p @ s) = map_option (\<lambda>us. ts @ us) (json_lex s)"
  by (simp add: lexes_def)

lemma no_num_punctuation [simp]:
  "no_num []" "no_num (CHR '','' # s)" "no_num (CHR '']'' # s)" "no_num (CHR ''}'' # s)"
  by (simp_all add: no_num_def num_char_def is_digit_def in_range_def)

lemma join_Nil [simp]: "join sep [] = []" and join_single [simp]: "join sep [x] = x"
  by (simp_all add: join_def)

lemma join_Cons2: "join sep (x # y # ys) = x @ sep @ join sep (y # ys)"
  by (simp add: join_def)

text \<open>Splitting a string at a separator, as \<open>strings.Split\<close> does.\<close>

fun split_at :: "char \<Rightarrow> string \<Rightarrow> string list" where
  "split_at sep [] = [[]]"
| "split_at sep (c # s) =
     (if c = sep then [] # split_at sep s
      else (case split_at sep s of [] \<Rightarrow> [[c]] | p # ps \<Rightarrow> (c # p) # ps))"

lemma split_at_not_Nil [simp]: "split_at sep s \<noteq> []"
  by (cases s) (auto split: list.splits)

lemma split_at_piece: "sep \<notin> set p \<Longrightarrow> split_at sep p = [p]"
  by (induction p) auto

lemma split_at_append: "sep \<notin> set p \<Longrightarrow> split_at sep (p @ sep # s) = p # split_at sep s"
  by (induction p) auto

lemma split_at_join:
  "ps \<noteq> [] \<Longrightarrow> \<forall>p\<in>set ps. sep \<notin> set p \<Longrightarrow> split_at sep (join [sep] ps) = ps"
  by (induction ps rule: induct_list012) (simp_all add: split_at_piece split_at_append join_Cons2)

lemma map_option_append_append:
  "map_option (\<lambda>us. ts @ us) (map_option (\<lambda>us. us' @ us) r) = map_option (\<lambda>us. (ts @ us') @ us) r"
  by (cases r) simp_all

lemma add_token_map: "add_token k r = map_option (\<lambda>us. [k] @ us) r"
  by (simp add: add_token_def)

lemma lexes_join:
  "list_all2 lexes ps tss \<Longrightarrow> lexes (join '','' ps) (comma_tokens tss)"
proof (induction ps tss rule: list_all2_induct)
  case Nil
  then show ?case by (simp add: lexes_def option.map_ident)
next
  case (Cons p ps ts tss)
  show ?case
  proof (cases ps)
    case Nil
    with Cons.hyps(2) have "tss = []" by simp
    with Nil Cons.hyps(1) show ?thesis by simp
  next
    case (Cons p' ps')
    with Cons.hyps(2) obtain ts' tss' where tss: "tss = ts' # tss'" by (cases tss) auto
    show ?thesis
      unfolding lexes_def
    proof (intro allI impI)
      fix s :: string
      assume s: "no_num s"
      have "json_lex (join '','' (p # ps) @ s) = json_lex (p @ CHR '','' # join '','' ps @ s)"
        by (simp add: Cons join_Cons2)
      also have "\<dots> = map_option (\<lambda>us. ts @ us) (json_lex (CHR '','' # join '','' ps @ s))"
        by (rule lexesD [OF Cons.hyps(1)]) simp
      also have "json_lex (CHR '','' # join '','' ps @ s)
          = map_option (\<lambda>us. [TComma] @ us) (map_option (\<lambda>us. comma_tokens tss @ us) (json_lex s))"
        by (simp only: lex_punctuation lexesD [OF Cons.IH s] add_token_map)
      finally show "json_lex (join '','' (p # ps) @ s)
          = map_option (\<lambda>us. comma_tokens (ts # tss) @ us) (json_lex s)"
        by (simp add: map_option_append_append tss option.map_comp o_def)
    qed
  qed
qed

lemma lexes_brackets:
  "lexes p ts \<Longrightarrow> lexes (''['' @ p @ '']'') (TLBrack # ts @ [TRBrack])"
  "lexes p ts \<Longrightarrow> lexes (''{'' @ p @ ''}'') (TLBrace # ts @ [TRBrace])"
  by (simp_all add: lexes_def lex_punctuation add_token_map option.map_comp o_def)

lemma lexes_member: "lexes p ts \<Longrightarrow> lexes (json_quote k @ '':'' @ p) (TStr (valid_utf8 k) # TColon # ts)"
  by (simp add: lexes_def lex_quote lex_punctuation add_token_map option.map_comp o_def)

lemma lexes_print: "json_wf v \<Longrightarrow> lexes (json_print v) (json_tokens (json_valid v))"
proof (induction v)
  case (JArr vs)
  then have "list_all2 lexes (map json_print vs) (map (\<lambda>v. json_tokens (json_valid v)) vs)"
    by (auto simp: list_all2_conv_all_nth list_all_iff)
  from lexes_brackets(1) [OF lexes_join [OF this]] show ?case by (simp add: o_def)
next
  case (JObj ms)
  have "lexes (json_quote k @ '':'' @ json_print v) (TStr (valid_utf8 k) # TColon # json_tokens (json_valid v))"
    if "(k, v) \<in> set ms" for k v
    by (rule lexes_member) (use JObj.IH [OF that, of v] JObj.prems that in \<open>auto simp: list_all_iff\<close>)
  then have "list_all2 lexes (map (\<lambda>(k, v). json_quote k @ '':'' @ json_print v) ms)
      (map (\<lambda>(k, v). TStr (valid_utf8 k) # TColon # json_tokens (json_valid v)) ms)"
    by (auto simp: list_all2_conv_all_nth split: prod.splits) (metis nth_mem)
  from lexes_brackets(2) [OF lexes_join [OF this]] show ?case
    by (simp add: o_def case_prod_unfold)
qed (auto simp: lexes_def lex_literals [simplified] lex_quote lex_number add_token_map)

lemma json_parse_print:
  assumes "json_wf v"
  shows "json_parse (json_print v) = Some (json_valid v)"
proof -
  have "json_lex (json_print v) = Some (json_tokens (json_valid v))"
    using lexesD [OF lexes_print [OF assms], of "[]"] by (simp add: json_lex.simps)
  moreover have "json_run [] WantValue (json_tokens (json_valid v)) = Some (json_valid v)"
    using run_value [of "[]" "json_valid v" "[]"] by simp
  ultimately show ?thesis by (simp add: json_parse_def)
qed

section \<open>Go values\<close>

text \<open>
  \<open>Marshal\<close> of the structs of this program cannot fail: they hold strings, integers, slices and empty
  maps only. Its error branch is kept so that the callers keep theirs.
\<close>

definition json_Marshal :: "json \<Rightarrow> go_error + string" where
  "json_Marshal v = Inr (json_print v)"

definition JInt :: "int \<Rightarrow> json" where
  "JInt n = JNum (show_int n)"

definition digits_value :: "string \<Rightarrow> nat" where
  "digits_value s = foldl (\<lambda>n c. 10 * n + (byte c - 48)) 0 s"

text \<open>\<open>strconv.ParseInt(s, 10, 64)\<close> on a number literal, without the range check.\<close>

definition parse_int :: "string \<Rightarrow> int option" where
  "parse_int s =
     (let (neg, ds) = (case s of c # s' \<Rightarrow> if c = CHR ''-'' then (True, s') else (False, s) | [] \<Rightarrow> (False, []))
      in if ds \<noteq> [] \<and> list_all is_digit ds
         then Some (if neg then - int (digits_value ds) else int (digits_value ds)) else None)"

text \<open>
  Decoding assigns to an existing value: \<open>null\<close> leaves it as it is, a value of the wrong type is an
  error (\<open>None\<close>).
\<close>

definition decode_string :: "json \<Rightarrow> string \<Rightarrow> string option" where
  "decode_string v old = (case v of JNull \<Rightarrow> Some old | JStr s \<Rightarrow> Some s | _ \<Rightarrow> None)"

definition decode_int :: "int \<Rightarrow> int \<Rightarrow> json \<Rightarrow> int \<Rightarrow> int option" where
  "decode_int lo hi v old =
     (case v of JNull \<Rightarrow> Some old
      | JNum n \<Rightarrow> (case parse_int n of None \<Rightarrow> None
                  | Some i \<Rightarrow> if lo \<le> i \<and> i \<le> hi then Some i else None)
      | _ \<Rightarrow> None)"

definition decode_int64 :: "json \<Rightarrow> int \<Rightarrow> int option" where
  "decode_int64 = decode_int minInt64 maxInt64"

text \<open>\<open>strconv.ParseUint\<close> takes no sign.\<close>

definition decode_uint16 :: "json \<Rightarrow> int \<Rightarrow> int option" where
  "decode_uint16 v old =
     (case v of JNum n \<Rightarrow> if n \<noteq> [] \<and> hd n = CHR ''-'' then None else decode_int 0 65535 v old
      | _ \<Rightarrow> decode_int 0 65535 v old)"

text \<open>
  A slice is decoded into the elements it already has; \<open>null\<close> makes it nil.
\<close>

fun decode_elems :: "'a \<Rightarrow> (json \<Rightarrow> 'a \<Rightarrow> 'a option) \<Rightarrow> json list \<Rightarrow> 'a list \<Rightarrow> 'a list option" where
  "decode_elems zero dec [] old = Some []"
| "decode_elems zero dec (v # vs) old =
     (case dec v (case old of [] \<Rightarrow> zero | x # _ \<Rightarrow> x) of None \<Rightarrow> None
      | Some y \<Rightarrow> map_option (Cons y) (decode_elems zero dec vs (tl old)))"

definition decode_slice :: "'a \<Rightarrow> (json \<Rightarrow> 'a \<Rightarrow> 'a option) \<Rightarrow> json \<Rightarrow> 'a list \<Rightarrow> 'a list option" where
  "decode_slice zero dec v old =
     (case v of JNull \<Rightarrow> Some [] | JArr vs \<Rightarrow> decode_elems zero dec vs old | _ \<Rightarrow> None)"

text \<open>
  Members are matched to fields by their exact name, else by the first name equal up to the case
  folding of \<open>encoding/json\<close> (ASCII letters, the long s and the Kelvin sign); others are ignored.
\<close>

definition lower_ascii :: "char \<Rightarrow> char" where
  "lower_ascii c = (if in_range 65 90 c then char_of (byte c + 32) else c)"

function fold_key :: "string \<Rightarrow> string" where
  "fold_key [] = []"
| "fold_key (a # s) =
     (if a = CHR 0xC5 \<and> take 1 s = [CHR 0xBF] then CHR ''s'' # fold_key (drop 1 s)
      else if a = CHR 0xE2 \<and> take 2 s = [CHR 0x84, CHR 0xAA] then CHR ''k'' # fold_key (drop 2 s)
      else lower_ascii a # fold_key s)"
  by pat_completeness auto
termination by (relation "measure length") auto

declare fold_key.simps(2) [simp del]

definition field_match :: "string list \<Rightarrow> string \<Rightarrow> string option" where
  "field_match names key =
     (if key \<in> set names then Some key else find (\<lambda>n. fold_key n = fold_key key) names)"

fun decode_members ::
    "string list \<Rightarrow> (string \<Rightarrow> json \<Rightarrow> 'r \<Rightarrow> 'r option) \<Rightarrow> (string \<times> json) list \<Rightarrow> 'r \<Rightarrow> 'r option" where
  "decode_members names assign [] r = Some r"
| "decode_members names assign ((k, v) # ms) r =
     (case field_match names k of
        None \<Rightarrow> decode_members names assign ms r
      | Some f \<Rightarrow> (case assign f v r of None \<Rightarrow> None | Some r' \<Rightarrow> decode_members names assign ms r'))"

definition decode_struct ::
    "string list \<Rightarrow> (string \<Rightarrow> json \<Rightarrow> 'r \<Rightarrow> 'r option) \<Rightarrow> json \<Rightarrow> 'r \<Rightarrow> 'r option" where
  "decode_struct names assign v r =
     (case v of JNull \<Rightarrow> Some r | JObj ms \<Rightarrow> decode_members names assign ms r | _ \<Rightarrow> None)"

section \<open>Integers survive the round trip\<close>

lemma is_digit_digit_char [simp]: "d < 10 \<Longrightarrow> is_digit (digit_char d)"
  by (simp add: is_digit_def in_range_def digit_char_def)

lemma byte_digit_char: "d < 10 \<Longrightarrow> byte (digit_char d) = 48 + d"
  by (simp add: digit_char_def)

lemma show_nat_not_Nil [simp]: "show_nat n \<noteq> []"
  by (subst show_nat.simps) simp

lemma show_nat_digits: "list_all is_digit (show_nat n)"
proof (induction n rule: show_nat.induct)
  case (1 n)
  then show ?case by (subst show_nat.simps) simp
qed

lemma digits_value_show_nat: "digits_value (show_nat n) = n"
proof (induction n rule: show_nat.induct)
  case (1 n)
  show ?case
  proof (cases "n < 10")
    case True
    then show ?thesis by (subst show_nat.simps) (simp add: digits_value_def byte_digit_char)
  next
    case False
    have "digits_value (show_nat (n div 10) @ [digit_char (n mod 10)])
        = 10 * digits_value (show_nat (n div 10)) + n mod 10"
      by (simp add: digits_value_def byte_digit_char)
    with 1 False show ?thesis by (subst show_nat.simps) simp
  qed
qed

lemma minus_not_digit: "\<not> is_digit (CHR ''-'')"
  by (simp add: is_digit_def in_range_def)

lemma hd_show_nat_digit: "is_digit (hd (show_nat n))"
  using show_nat_digits [of n] show_nat_not_Nil [of n] by (cases "show_nat n") auto

lemma parse_int_show_nat: "parse_int (show_nat m) = Some (int m)"
proof -
  obtain c cs where c: "show_nat m = c # cs" using show_nat_not_Nil [of m] by (cases "show_nat m") auto
  then have "c \<noteq> CHR ''-''" using hd_show_nat_digit [of m] minus_not_digit by auto
  moreover have "list_all is_digit (c # cs)" "digits_value (c # cs) = m"
    using show_nat_digits [of m] digits_value_show_nat [of m] by (simp_all add: c)
  ultimately show ?thesis unfolding c by (simp add: parse_int_def)
qed

lemma parse_int_show_int: "parse_int (show_int n) = Some n"
proof (cases "n < 0")
  case True
  then show ?thesis
    by (simp add: parse_int_def show_int_def show_nat_digits digits_value_show_nat)
next
  case False
  then show ?thesis by (simp add: show_int_def parse_int_show_nat)
qed

lemma show_nat_leading_zero: "hd (show_nat n) = CHR ''0'' \<Longrightarrow> show_nat n = ''0''"
proof (induction n rule: show_nat.induct)
  case (1 n)
  show ?case
  proof (cases "n < 10")
    case True
    then have "show_nat n = [digit_char n]" by (subst show_nat.simps) simp
    with "1.prems" show ?thesis by simp
  next
    case False
    then have s: "show_nat n = show_nat (n div 10) @ [digit_char (n mod 10)]"
      by (subst show_nat.simps) simp
    with "1.prems" have "hd (show_nat (n div 10)) = CHR ''0''" by simp
    with "1.IH" False have "show_nat (n div 10) = ''0''" by simp
    then have "n div 10 = 0" using digits_value_show_nat [of "n div 10"]
      by (simp add: digits_value_def)
    with False show ?thesis by simp
  qed
qed

lemma takeWhile_digits: "list_all is_digit s \<Longrightarrow> takeWhile is_digit s = s \<and> dropWhile is_digit s = []"
  by (induction s) auto

lemma unsigned_number_show_nat: "unsigned_number (show_nat m)"
  using show_nat_leading_zero [of m]
  by (simp add: unsigned_number_def takeWhile_digits [OF show_nat_digits [of m]] fraction_part_def)

lemma json_number_show_int: "json_number (show_int n)"
proof (cases "n < 0")
  case True
  then show ?thesis by (simp add: show_int_def json_number_def unsigned_number_show_nat)
next
  case False
  obtain c cs where c: "show_nat (nat n) = c # cs"
    using show_nat_not_Nil [of "nat n"] by (cases "show_nat (nat n)") auto
  with hd_show_nat_digit [of "nat n"] minus_not_digit have "c \<noteq> CHR ''-''" by auto
  with False unsigned_number_show_nat [of "nat n"] show ?thesis
    by (simp add: show_int_def json_number_def c)
qed

lemma num_char_show_int: "list_all num_char (show_int n)"
  using show_nat_digits by (auto simp: show_int_def list_all_iff num_char_def)

lemma json_wf_JInt [simp]: "json_wf (JInt n)"
  by (simp add: JInt_def json_number_show_int num_char_show_int)

lemma json_valid_JInt [simp]: "json_valid (JInt n) = JInt n"
  by (simp add: JInt_def)

lemma decode_int_JInt [simp]: "lo \<le> n \<Longrightarrow> n \<le> hi \<Longrightarrow> decode_int lo hi (JInt n) old = Some n"
  by (simp add: decode_int_def JInt_def parse_int_show_int)

lemma decode_string_JStr [simp]: "decode_string (JStr s) old = Some s"
  by (simp add: decode_string_def)

lemma decode_elems_strings [simp]:
  "decode_elems [] decode_string (map (\<lambda>x. JStr (f x)) xs) old = Some (map f xs)"
  by (induction xs arbitrary: old) simp_all

text \<open>ASCII strings are UTF-8.\<close>

lemma valid_utf8_ascii_string: "list_all ascii s \<Longrightarrow> valid_utf8 s = s"
  by (induction s) (simp_all add: valid_utf8.simps utf8_size_ascii)

text \<open>One encoded code point.\<close>

definition utf8_rune :: "string \<Rightarrow> bool" where
  "utf8_rune p \<longleftrightarrow> p \<noteq> [] \<and> utf8_size p = length p"

lemma valid_utf8_rune: "utf8_rune p \<Longrightarrow> valid_utf8 (p @ t) = p @ valid_utf8 t"
proof -
  assume "utf8_rune p"
  then obtain c p' where p: "p = c # p'" "utf8_size p = length p" by (cases p) (auto simp: utf8_rune_def)
  have "utf8_size (p @ t) = length p" using utf8_size_take [of p t] p by simp
  then show ?thesis by (simp add: p valid_utf8.simps(2))
qed

lemma utf8_rune_replacement: "utf8_rune replacement_rune"
  by (simp add: utf8_rune_def replacement_rune_def utf8_size_def utf8_two_def utf8_three_def in_range_def)

lemma utf8_rune_take: "0 < utf8_size s \<Longrightarrow> utf8_rune (take (utf8_size s) s)"
  using utf8_size_take [of s "[]"] utf8_size_le [of s] by (cases s) (auto simp: utf8_rune_def utf8_size_def)

lemma valid_utf8_idem: "valid_utf8 (valid_utf8 s) = valid_utf8 s"
proof (induction s rule: valid_utf8.induct)
  case (2 a s)
  show ?case
  proof (cases "utf8_size (a # s) = 0")
    case True
    with "2.IH" show ?thesis by (simp add: valid_utf8.simps(2) [of a s] valid_utf8_rune [OF utf8_rune_replacement])
  next
    case False
    with "2.IH" valid_utf8_rune [OF utf8_rune_take [of "a # s"]] show ?thesis
      by (simp add: valid_utf8.simps(2) [of a s] Let_def)
  qed
qed (simp add: valid_utf8.simps)

section \<open>Parsed strings are UTF-8\<close>

lemma char_of_ranges:
  "in_range lo hi (char_of n) \<longleftrightarrow> lo \<le> n mod 256 \<and> n mod 256 \<le> hi"
  by (simp add: in_range_def)

lemma utf8_rune_encode: "utf8_rune (encode_rune r)"
proof -
  consider "r < 128" | "128 \<le> r" "r < 2048" | "encode_rune r = replacement_rune"
    | "2048 \<le> r" "r < 65536" "\<not> (55296 \<le> r \<and> r < 57344)" | "65536 \<le> r" "r < 1114112"
    by (force simp: encode_rune_def)
  then show ?thesis
  proof cases
    case 1
    then show ?thesis by (simp add: utf8_rune_def encode_rune_def utf8_size_def)
  next
    case 2
    then have "r div 64 < 32" "2 \<le> r div 64" by (simp_all add: div_less_iff_less_mult less_eq_div_iff_mult_less_eq)
    moreover have "r mod 64 < 64" by simp
    ultimately show ?thesis using 2
      by (auto simp: utf8_rune_def encode_rune_def utf8_size_def utf8_two_def char_of_ranges)
  next
    case 3
    then show ?thesis by (simp add: utf8_rune_replacement)
  next
    case 4
    define q x where "q = r div 4096" and "x = r div 64 mod 64"
    have "q = r div 64 div 64" by (simp add: q_def flip: div_mult2_eq)
    then have r64: "r div 64 = 64 * q + x" unfolding x_def by simp
    have "64 * (r div 64) \<le> r" "r < 64 * (r div 64) + 64" by linarith+
    then have b: "x < 64" "r mod 64 < 64" "4096 * q + 64 * x \<le> r" "r < 4096 * q + 64 * x + 64"
      unfolding r64 by (simp_all add: x_def)
    have q: "q < 16" using 4(2) by (simp add: q_def div_less_iff_less_mult)
    have "q = 0 \<longrightarrow> 32 \<le> x" "q = 13 \<longrightarrow> x < 32" using 4 b by auto
    with 4 b q show ?thesis
      by (auto simp: utf8_rune_def encode_rune_def utf8_size_def utf8_two_def utf8_three_def char_of_ranges
          simp flip: q_def x_def)
  next
    case 5
    define q x where "q = r div 262144" and "x = r div 4096 mod 64"
    have "q = r div 4096 div 64" by (simp add: q_def flip: div_mult2_eq)
    then have r12: "r div 4096 = 64 * q + x" unfolding x_def by simp
    have "4096 * (r div 4096) \<le> r" "r < 4096 * (r div 4096) + 4096" by linarith+
    then have b: "x < 64" "262144 * q + 4096 * x \<le> r" "r < 262144 * q + 4096 * x + 4096"
      unfolding r12 by (simp_all add: x_def)
    have q: "q < 5" using 5(2) by (simp add: q_def div_less_iff_less_mult)
    have "q = 0 \<longrightarrow> 16 \<le> x" "q = 4 \<longrightarrow> x < 16" using 5 b by auto
    moreover have "r div 64 mod 64 < 64" "r mod 64 < 64" by simp_all
    ultimately show ?thesis using 5 b q
      by (auto simp: utf8_rune_def encode_rune_def utf8_size_def utf8_two_def utf8_three_def utf8_four_def char_of_ranges
          simp flip: q_def x_def)
  qed
qed

lemma prepend_utf8:
  assumes "prepend p x = Some (v, r)" and "utf8_rune p" and "\<And>w t. x = Some (w, t) \<Longrightarrow> valid_utf8 w = w"
  shows "valid_utf8 v = v"
  using assms by (auto simp: prepend_def valid_utf8_rune)

lemma unescape_u_rune: "utf8_rune (fst (unescape_u r rest))"
  by (simp add: unescape_u_def utf8_rune_replacement utf8_rune_encode split: option.splits)

lemma simple_escape_rune: "simple_escape e = Some c \<Longrightarrow> utf8_rune [c]"
  by (auto simp: simple_escape_def utf8_rune_def utf8_size_def split: if_splits)

lemma unquote_utf8: "json_unquote s = Some (v, r) \<Longrightarrow> valid_utf8 v = v"
proof (induction s arbitrary: v r rule: json_unquote.induct)
  case (2 c s)
  consider "c = dquote" | s' n where "c = backslash" "s = CHR ''u'' # s'" "getu4 s' = Some n"
    | e s' d where "c = backslash" "s = e # s'" "e \<noteq> CHR ''u''" "simple_escape e = Some d"
    | "c \<noteq> dquote" "c \<noteq> backslash" "\<not> byte c < 32"
    using "2.prems" by (auto simp: json_unquote.simps(2) split: if_splits list.splits option.splits)
  then show ?case
  proof cases
    case 1
    with "2.prems" show ?thesis by (simp add: json_unquote.simps valid_utf8.simps)
  next
    case (2 s' n)
    obtain p k where pk: "unescape_u n (drop 4 s') = (p, k)" by fastforce
    with 2 "2.prems" have "prepend p (json_unquote (drop (4 + k) s')) = Some (v, r)" by (simp add: json_unquote.simps(2))
    then show ?thesis
      using unescape_u_rune [of n "drop 4 s'"] pk "2.IH"(1) [of "CHR ''u''" s' n] 2 by (auto elim!: prepend_utf8)
  next
    case (3 e s' d)
    with "2.prems" have "prepend [d] (json_unquote s') = Some (v, r)" by (simp add: json_unquote.simps(2))
    then show ?thesis using simple_escape_rune [OF 3(4)] "2.IH"(2) 3 by (auto elim!: prepend_utf8)
  next
    case 4
    let ?n = "utf8_size (c # s)"
    show ?thesis
    proof (cases "?n = 0")
      case True
      with 4 "2.prems" have "prepend replacement_rune (json_unquote s) = Some (v, r)" by (simp add: json_unquote.simps(2))
      then show ?thesis using "2.IH"(3) 4 True by (auto elim!: prepend_utf8 simp: utf8_rune_replacement)
    next
      case False
      with 4 "2.prems" have "prepend (take ?n (c # s)) (json_unquote (drop (?n - 1) s)) = Some (v, r)"
        by (simp add: json_unquote.simps(2) Let_def)
      then show ?thesis using utf8_rune_take [of "c # s"] "2.IH"(4) 4 False by (auto elim!: prepend_utf8)
    qed
  qed
qed (simp add: json_unquote.simps)

fun token_utf8 :: "token \<Rightarrow> bool" where
  "token_utf8 (TStr s) = (valid_utf8 s = s)"
| "token_utf8 _ = True"

lemma lex_utf8: "json_lex s = Some ts \<Longrightarrow> list_all token_utf8 ts"
proof (induction s arbitrary: ts rule: json_lex.induct)
  case (2 c s)
  have p: "token_utf8 (the (punctuation c))" if "punctuation c \<noteq> None" using that by (auto simp: punctuation_def)
  show ?case
    using "2.prems" "2.IH" p
    by (auto simp: json_lex.simps(2) Let_def add_token_def dest: unquote_utf8 split: if_splits option.splits)
qed (simp add: json_lex.simps)

fun frame_utf8 :: "frame \<Rightarrow> bool" where
  "frame_utf8 (InArray vs) = list_all (\<lambda>v. json_valid v = v) vs"
| "frame_utf8 (InObject ms k) = (list_all (\<lambda>(k, v). valid_utf8 k = k \<and> json_valid v = v) ms \<and> valid_utf8 k = k)"

fun mode_utf8 :: "mode \<Rightarrow> bool" where
  "mode_utf8 (WantKey ms) = list_all (\<lambda>(k, v). valid_utf8 k = k \<and> json_valid v = v) ms"
| "mode_utf8 (WantColon ms k) = (list_all (\<lambda>(k, v). valid_utf8 k = k \<and> json_valid v = v) ms \<and> valid_utf8 k = k)"
| "mode_utf8 (Got v) = (json_valid v = v)"
| "mode_utf8 _ = True"

lemma valid_members: "list_all (\<lambda>(k, v). valid_utf8 k = k \<and> json_valid v = v) ms \<Longrightarrow>
    map (\<lambda>(k, v). (valid_utf8 k, json_valid v)) ms = ms"
  by (induction ms) auto

lemma valid_elements: "map json_valid vs = vs \<longleftrightarrow> list_all (\<lambda>v. json_valid v = v) vs"
  by (induction vs) auto

lemma value_start_utf8: "value_start t = Some m \<Longrightarrow> token_utf8 t \<Longrightarrow> mode_utf8 m"
  by (cases t) (auto simp: value_start_def)

lemma step_utf8:
  assumes "json_step stk m t = Some (stk', m')" and "list_all frame_utf8 stk" and "mode_utf8 m" and "token_utf8 t"
  shows "list_all frame_utf8 stk' \<and> mode_utf8 m'"
proof (cases m)
  case (Got v)
  then show ?thesis
    using assms by (auto simp: json_step_def valid_members valid_elements rev_map [symmetric] split: list.splits frame.splits if_splits)
qed (use assms in \<open>auto simp: json_step_def dest: value_start_utf8 split: if_splits token.splits\<close>)

lemma run_utf8:
  "json_run stk m ts = Some v \<Longrightarrow> list_all frame_utf8 stk \<Longrightarrow> mode_utf8 m \<Longrightarrow> list_all token_utf8 ts \<Longrightarrow> json_valid v = v"
proof (induction stk m ts rule: json_run.induct)
  case (1 stk m)
  then show ?case by (auto split: list.splits mode.splits)
next
  case (2 stk m t ts)
  then show ?case using step_utf8 by (fastforce split: option.splits)
qed

text \<open>Whatever text is parsed, the strings in the document are UTF-8.\<close>

lemma json_parse_utf8: "json_parse s = Some v \<Longrightarrow> json_valid v = v"
  by (auto simp: json_parse_def dest: lex_utf8 run_utf8 split: option.splits)

text \<open>What every assignment of a decoded member keeps, decoding keeps.\<close>

lemma decode_struct_keeps:
  assumes "decode_struct names assign v r = Some r'" and "json_valid v = v" and "P r"
    and "\<And>f v r r'. assign f v r = Some r' \<Longrightarrow> json_valid v = v \<Longrightarrow> P r \<Longrightarrow> P r'"
  shows "P r'"
proof -
  have members: "P r'" if "decode_members names assign ms r = Some r'" "\<forall>(k, v)\<in>set ms. json_valid v = v" "P r" for ms r
    using that by (induction ms arbitrary: r) (fastforce split: option.splits dest: assms(4))+
  show ?thesis
  proof (cases v)
    case (JObj ms)
    have "json_valid w = w" if "(k, w) \<in> set ms" for k w
      using assms(2) that unfolding JObj by (auto simp: map_idI dest!: map_eq_conv [THEN iffD1, of _ _ id, simplified])
    with assms(1,3) JObj members show ?thesis by (auto simp: decode_struct_def)
  qed (use assms in \<open>simp_all add: decode_struct_def\<close>)
qed

lemma decode_slice_keeps:
  assumes "decode_slice zero dec v old = Some xs" and "json_valid v = v" and "list_all P old" and "P zero"
    and "\<And>v x y. dec v x = Some y \<Longrightarrow> json_valid v = v \<Longrightarrow> P x \<Longrightarrow> P y"
  shows "list_all P xs"
proof -
  have elems: "list_all P xs" if "decode_elems zero dec vs old = Some xs" "list_all (\<lambda>v. json_valid v = v) vs" "list_all P old" for vs old xs
    using that
  proof (induction vs arbitrary: old xs)
    case (Cons v vs)
    then obtain y ys where y: "dec v (case old of [] \<Rightarrow> zero | x # _ \<Rightarrow> x) = Some y" "decode_elems zero dec vs (tl old) = Some ys" "xs = y # ys"
      by (auto split: option.splits)
    have "P y" using assms(4,5) y(1) Cons.prems by (cases old) auto
    moreover have "list_all P ys" using Cons y(2) by (cases old) auto
    ultimately show ?case using y(3) by simp
  qed simp
  show ?thesis
  proof (cases v)
    case (JArr vs)
    with assms(2) have "list_all (\<lambda>v. json_valid v = v) vs" by (simp add: valid_elements)
    with elems JArr assms(1,3) show ?thesis by (simp add: decode_slice_def)
  qed (use assms in \<open>simp_all add: decode_slice_def\<close>)
qed

end
