(* ===== verification/Metrics_Recorders.thy ===== *)
theory Metrics_Recorders
  imports Complex_Main Prelude
begin

text \<open>
  The two metric recorders of the controller: \<open>mbus/metrics_recorder.go\<close> keeps the largest transit
  time of a register message since it was last read, \<open>routes/metrics_recorder.go\<close> counts requests.
  The \<open>float64\<close> results are given by their exact value.
\<close>

section \<open>mbus.MetricsRecorder\<close>

record mbus_MetricsRecorder =
  currentMax :: duration
  recorder_Clock :: clock

definition NewMetricsRecorder :: "clock \<Rightarrow> mbus_MetricsRecorder" where
  "NewMetricsRecorder c = \<lparr>currentMax = 0, recorder_Clock = c\<rparr>"

definition GetMaxSinceLastInterval :: "mbus_MetricsRecorder \<Rightarrow> rat \<times> mbus_MetricsRecorder" where
  "GetMaxSinceLastInterval r =
     (let duration = currentMax r in (of_int duration / 1000000, r\<lparr>currentMax := 0\<rparr>))"

definition RecordMessageTransitTime :: "int \<Rightarrow> mbus_MetricsRecorder \<Rightarrow> mbus_MetricsRecorder" where
  "RecordMessageTransitTime unixTimeNS r =
     (if unixTimeNS = 0 then r
      else let (now, c) = clock_Now (recorder_Clock r);
               diff = time_Sub now (time_Unix_ns unixTimeNS);
               r' = r\<lparr>recorder_Clock := c\<rparr>
           in if diff > currentMax r' then r'\<lparr>currentMax := diff\<rparr> else r')"

section \<open>routes.MetricsRecorder\<close>

record routes_MetricsRecorder =
  requestCount :: int

definition RecordRequest :: "routes_MetricsRecorder \<Rightarrow> routes_MetricsRecorder" where
  "RecordRequest m = m\<lparr>requestCount := int64 (requestCount m + 1)\<rparr>"

definition Getter :: "routes_MetricsRecorder \<Rightarrow> rat \<times> routes_MetricsRecorder" where
  "Getter m = (let count = requestCount m in (of_int count, m\<lparr>requestCount := 0\<rparr>))"

section \<open>Correctness\<close>

text \<open>The transit times of the messages that carry a timestamp, each with its own clock reading.\<close>

fun transit_times :: "int list \<Rightarrow> clock \<Rightarrow> duration list" where
  "transit_times [] c = []"
| "transit_times (ns # nss) c =
     (if ns = 0 then transit_times nss c
      else time_Sub (c 0) (time_Unix_ns ns) # transit_times nss (clock_rest c))"

lemma currentMax_records:
  "currentMax (fold RecordMessageTransitTime nss r) =
     Max (insert (currentMax r) (set (transit_times nss (recorder_Clock r))))"
proof (induction nss arbitrary: r)
  case (Cons ns nss)
  let ?r = "RecordMessageTransitTime ns r"
  show ?case
  proof (cases "ns = 0")
    case False
    let ?d = "time_Sub (recorder_Clock r 0) (time_Unix_ns ns)"
    have r': "currentMax ?r = max ?d (currentMax r)" "recorder_Clock ?r = clock_rest (recorder_Clock r)"
      using False by (auto simp: RecordMessageTransitTime_def clock_Now_def Let_def)
    have "Max (insert (max a b) S) = Max (insert b (insert a S))" if "finite S" for a b :: int and S
      using that by (cases "S = {}") (auto simp: max_def)
    then show ?thesis using Cons.IH [of ?r, unfolded r'] False by (simp add: clock_rest_def)
  qed (use Cons.IH [of r] in \<open>simp add: RecordMessageTransitTime_def\<close>)
qed simp

text \<open>
  The transit-time metric reports, in milliseconds, the largest transit time among the messages
  recorded since it was last read (0 if there was none or all were negative), ignoring messages without
  a timestamp, and reading it starts the next interval at 0.
\<close>

theorem GetMaxSinceLastInterval_is_max:
  "GetMaxSinceLastInterval (fold RecordMessageTransitTime nss (snd (GetMaxSinceLastInterval r))) =
     (of_int (Max (insert 0 (set (transit_times nss (recorder_Clock r))))) / 1000000,
      (fold RecordMessageTransitTime nss (snd (GetMaxSinceLastInterval r)))\<lparr>currentMax := 0\<rparr>)"
proof -
  have "currentMax (fold RecordMessageTransitTime nss (r\<lparr>currentMax := 0\<rparr>))
      = Max (insert 0 (set (transit_times nss (recorder_Clock r))))"
    by (subst currentMax_records) simp
  then show ?thesis unfolding GetMaxSinceLastInterval_def Let_def by simp
qed

lemma requestCount_records:
  "is_int64 (requestCount m) \<Longrightarrow> is_int64 (requestCount m + int n) \<Longrightarrow>
     requestCount ((RecordRequest ^^ n) m) = requestCount m + int n"
proof (induction n)
  case (Suc n)
  then have "is_int64 (requestCount m + int n)" by (simp add: is_int64_def)
  with Suc show ?case by (simp add: RecordRequest_def algebra_simps)
qed simp

text \<open>
  \<open>Getter\<close> of the request recorder returns the number of requests recorded since it was last
  called, as long as that number fits the 64-bit counter, and resets the counter.
\<close>

theorem Getter_counts_requests:
  assumes "int n \<le> maxInt64"
  shows "Getter ((RecordRequest ^^ n) (snd (Getter m))) = (of_nat n, m\<lparr>requestCount := 0\<rparr>)"
proof -
  have "requestCount ((RecordRequest ^^ n) (m\<lparr>requestCount := 0\<rparr>)) = int n"
    using assms by (subst requestCount_records) (simp_all add: is_int64_def minInt64_def maxInt64_def)
  moreover have "((RecordRequest ^^ n) (m\<lparr>requestCount := 0\<rparr>))\<lparr>requestCount := 0\<rparr> = m\<lparr>requestCount := 0\<rparr>"
    by (induction n) (simp_all add: RecordRequest_def)
  ultimately show ?thesis by (simp add: Getter_def)
qed

theorem Getter_counts_requests_witness:
  "fst (Getter (RecordRequest (RecordRequest (snd (Getter \<lparr>requestCount = 7\<rparr>))))) = 2"
proof -
  have "int 2 \<le> maxInt64" by (simp add: maxInt64_def)
  from Getter_counts_requests [OF this, of "\<lparr>requestCount = 7\<rparr>"] show ?thesis
    by (simp add: numeral_2_eq_2)
qed

end
