(* ===== verification/Subscriber.thy ===== *)
theory Subscriber
  imports Address_Table Go_Json Metrics_Recorders
begin

text \<open>
  Model of \<open>service-discovery-controller/mbus/subscriber.go\<close>: the subscriber that connects to NATS,
  announces itself, and turns register and unregister messages into operations of the address table.
  The NATS client library is not part of the repository: every call on it is recorded in a trace, and
  whether a call fails is an argument of the model, a function of the calls made so far.
\<close>

section \<open>Messages and state\<close>

record ServiceDiscoveryStartMessage =
  Id :: string
  Host :: string
  MinimumRegisterIntervalInSeconds :: int
  PruneThresholdInSeconds :: int

record SubscriberOpts =
  opts_ID :: string
  opts_MinimumRegisterIntervalInSeconds :: int
  opts_PruneThresholdInSeconds :: int
  opts_AcceptTLS :: bool

record RegistryMessage =
  rm_IP :: string
  rm_InfraNames :: "string list"
  rm_EndpointUpdatedAt :: int

text \<open>The interface \<open>mbus.AddressTable\<close>, the operations the subscriber calls on its table.\<close>

record 't mbus_AddressTable =
  if_Add :: "string list \<Rightarrow> string \<Rightarrow> 't \<Rightarrow> 't"
  if_Remove :: "string list \<Rightarrow> string \<Rightarrow> 't \<Rightarrow> 't"
  if_PausePruning :: "'t \<Rightarrow> 't"
  if_ResumePruning :: "'t \<Rightarrow> 't"
  if_SetWarm :: "'t \<Rightarrow> 't"

record nats_Msg =
  msg_Subject :: string
  msg_Reply :: string
  msg_Data :: string

text \<open>The three message handlers; the greet handler closes over the start message.\<close>

datatype handler = GreetMsgHandler string | RegisterHandler | UnregisterHandler

text \<open>The calls on the interfaces \<open>NatsConnProvider\<close> and \<open>NatsConn\<close>.\<close>

datatype nats_call =
    CallConnection
  | CallPublishMsg string string
  | CallSubscribe string handler
  | CallFlush
  | CallConnectedUrl
  | CallClose

type_synonym nats_env = "nats_call list \<Rightarrow> nats_call \<Rightarrow> go_error option"

record 't Subscriber =
  subOpts :: SubscriberOpts
  warmingDuration :: duration
  sub_table :: 't
  sub_recorder :: mbus_MetricsRecorder
  localIP :: string
  natsClient :: bool
  once_done :: bool
  nats_calls :: "nats_call list"
  subscriptions :: "(string \<times> handler) list"
  sub_metrics :: "string list"
  warm_timers :: "duration list"

definition NewSubscriber ::
    "SubscriberOpts \<Rightarrow> duration \<Rightarrow> 't \<Rightarrow> string \<Rightarrow> mbus_MetricsRecorder \<Rightarrow> 't Subscriber" where
  "NewSubscriber opts warming t ip rec =
     \<lparr>subOpts = opts, warmingDuration = warming, sub_table = t, sub_recorder = rec, localIP = ip,
      natsClient = False, once_done = False, nats_calls = [], subscriptions = [], sub_metrics = [],
      warm_timers = []\<rparr>"

text \<open>
  A call on the NATS library: it is recorded, and the environment says whether it fails. The calls
  \<open>ConnectedUrl\<close> and \<open>Close\<close> have no error, and the callers below ignore what the environment says of them.
\<close>

definition nats_do :: "nats_env \<Rightarrow> nats_call \<Rightarrow> 't Subscriber \<Rightarrow> go_error option \<times> 't Subscriber" where
  "nats_do env c s = (env (nats_calls s) c, s\<lparr>nats_calls := nats_calls s @ [c]\<rparr>)"

definition nats_subscribe ::
    "nats_env \<Rightarrow> string \<Rightarrow> handler \<Rightarrow> 't Subscriber \<Rightarrow> go_error option \<times> 't Subscriber" where
  "nats_subscribe env subject h s =
     (case nats_do env (CallSubscribe subject h) s of
        (None, s') \<Rightarrow> (None, s'\<lparr>subscriptions := subscriptions s' @ [(subject, h)]\<rparr>)
      | (Some e, s') \<Rightarrow> (Some e, s'))"

section \<open>Operations\<close>

definition start_message_json :: "ServiceDiscoveryStartMessage \<Rightarrow> json" where
  "start_message_json m =
     JObj [(''id'', JStr (Id m)), (''host'', JStr (Host m)),
           (''minimumRegisterIntervalInSeconds'', JInt (MinimumRegisterIntervalInSeconds m)),
           (''pruneThresholdInSeconds'', JInt (PruneThresholdInSeconds m))]"

definition subscriptionOptionsJSON :: "'t Subscriber \<Rightarrow> string outcome" where
  "subscriptionOptionsJSON s =
     (case json_Marshal (start_message_json
             \<lparr>Id = opts_ID (subOpts s), Host = localIP s,
              MinimumRegisterIntervalInSeconds = opts_MinimumRegisterIntervalInSeconds (subOpts s),
              PruneThresholdInSeconds = opts_PruneThresholdInSeconds (subOpts s)\<rparr>) of
        Inl err \<Rightarrow> Panic (ExplicitPanic (''Unable to marshal subsription options: '' @ err))
      | Inr data \<Rightarrow> Return data)"

definition wrap_error :: "string \<Rightarrow> go_error \<Rightarrow> go_error" where
  "wrap_error msg err = msg @ '': '' @ err"

text \<open>Publishing on a nil client is a nil dereference.\<close>

definition sendStartMessage :: "nats_env \<Rightarrow> 't Subscriber \<Rightarrow> (go_error option \<times> 't Subscriber) outcome" where
  "sendStartMessage env s =
     (case subscriptionOptionsJSON s of
        Panic p \<Rightarrow> Panic p
      | Return data \<Rightarrow>
          if \<not> natsClient s then Panic NilDereference
          else (case nats_do env (CallPublishMsg ''service-discovery.start'' data) s of
                  (Some err, s') \<Rightarrow> Return (Some (wrap_error ''unable to publish a start message'' err), s')
                | (None, s') \<Rightarrow> Return (None, s')))"

definition Close :: "nats_env \<Rightarrow> 't Subscriber \<Rightarrow> 't Subscriber" where
  "Close env s = (if natsClient s then snd (nats_do env CallClose s) else s)"

definition setupGreetMsgHandler ::
    "nats_env \<Rightarrow> 't Subscriber \<Rightarrow> (go_error option \<times> 't Subscriber) outcome" where
  "setupGreetMsgHandler env s =
     (case subscriptionOptionsJSON s of
        Panic p \<Rightarrow> Panic p
      | Return data \<Rightarrow>
          (case nats_subscribe env ''service-discovery.greet'' (GreetMsgHandler data) s of
             (Some err, s') \<Rightarrow> Return (Some err, s')
           | (None, s') \<Rightarrow> Return (nats_do env CallFlush s')))"

definition setupAddressMessageHandler :: "nats_env \<Rightarrow> 't Subscriber \<Rightarrow> go_error option \<times> 't Subscriber" where
  "setupAddressMessageHandler env s =
     (case nats_subscribe env ''service-discovery.register'' RegisterHandler s of
        (Some err, s') \<Rightarrow> (Some err, s')
      | (None, s') \<Rightarrow> nats_subscribe env ''service-discovery.unregister'' UnregisterHandler s')"

text \<open>
  The function given to \<open>once.Do\<close>: connect, ask for the URL (to log it), announce, subscribe, and start the
  goroutine that waits for \<open>warmingDuration\<close>; the first error ends it.
\<close>

definition connect_and_subscribe ::
    "nats_env \<Rightarrow> 't Subscriber \<Rightarrow> (go_error option \<times> 't Subscriber) outcome" where
  "connect_and_subscribe env s =
     (case nats_do env CallConnection s of
        (Some err, s1) \<Rightarrow> Return (Some (wrap_error ''unable to create nats connection'' err), s1)
      | (None, s1) \<Rightarrow>
          (case sendStartMessage env (snd (nats_do env CallConnectedUrl (s1\<lparr>natsClient := True\<rparr>))) of
             Panic p \<Rightarrow> Panic p
           | Return (Some err, s2) \<Rightarrow> Return (Some err, s2)
           | Return (None, s2) \<Rightarrow>
               (case setupGreetMsgHandler env s2 of
                  Panic p \<Rightarrow> Panic p
                | Return (Some err, s3) \<Rightarrow> Return (Some err, s3)
                | Return (None, s3) \<Rightarrow>
                    (case setupAddressMessageHandler env s3 of
                       (Some err, s4) \<Rightarrow> Return (Some err, s4)
                     | (None, s4) \<Rightarrow>
                         Return (None, s4\<lparr>warm_timers := warm_timers s4 @ [warmingDuration s4]\<rparr>)))))"

definition RunOnce :: "nats_env \<Rightarrow> 't Subscriber \<Rightarrow> (go_error option \<times> 't Subscriber) outcome" where
  "RunOnce env s =
     (if once_done s then Return (None, s)
      else (case connect_and_subscribe env (s\<lparr>once_done := True\<rparr>) of
              Panic p \<Rightarrow> Panic p
            | Return (Some err, s') \<Rightarrow> Return (Some err, Close env s')
            | Return (None, s') \<Rightarrow> Return (None, s')))"

text \<open>
  \<open>Run\<close>: an error of \<open>RunOnce\<close> is returned before \<open>ready\<close> is closed; otherwise the connection is closed
  when a signal arrives. The result is the error, whether \<open>ready\<close> was closed, and the state.
\<close>

definition Run :: "nats_env \<Rightarrow> 't Subscriber \<Rightarrow> (go_error option \<times> bool \<times> 't Subscriber) outcome" where
  "Run env s =
     (case RunOnce env s of
        Panic p \<Rightarrow> Panic p
      | Return (Some err, s') \<Rightarrow> Return (Some err, False, s')
      | Return (None, s') \<Rightarrow> Return (None, True, Close env s'))"

section \<open>Handlers\<close>

definition registry_fields :: "string list" where
  "registry_fields = [''host'', ''uris'', ''endpoint_updated_at_ns'']"

definition assign_registry :: "string \<Rightarrow> json \<Rightarrow> RegistryMessage \<Rightarrow> RegistryMessage option" where
  "assign_registry f v m =
     (if f = ''host'' then map_option (\<lambda>x. m\<lparr>rm_IP := x\<rparr>) (decode_string v (rm_IP m))
      else if f = ''uris''
        then map_option (\<lambda>x. m\<lparr>rm_InfraNames := x\<rparr>) (decode_slice [] decode_string v (rm_InfraNames m))
      else if f = ''endpoint_updated_at_ns''
        then map_option (\<lambda>x. m\<lparr>rm_EndpointUpdatedAt := x\<rparr>) (decode_int64 v (rm_EndpointUpdatedAt m))
      else Some m)"

definition unmarshal_RegistryMessage :: "string \<Rightarrow> RegistryMessage option" where
  "unmarshal_RegistryMessage data =
     (case json_parse data of None \<Rightarrow> None
      | Some v \<Rightarrow> decode_struct registry_fields assign_registry v
                   \<lparr>rm_IP = [], rm_InfraNames = [], rm_EndpointUpdatedAt = 0\<rparr>)"

definition handle_register :: "'t mbus_AddressTable \<Rightarrow> nats_Msg \<Rightarrow> 't Subscriber \<Rightarrow> 't Subscriber" where
  "handle_register T msg s =
     (case unmarshal_RegistryMessage (msg_Data msg) of
        None \<Rightarrow> s
      | Some m \<Rightarrow>
          if rm_IP m = [] \<or> length (rm_InfraNames m) = 0 then s
          else let s1 = s\<lparr>sub_recorder := RecordMessageTransitTime (rm_EndpointUpdatedAt m) (sub_recorder s)\<rparr>;
                   s2 = s1\<lparr>sub_metrics := sub_metrics s1 @ [''registerMessagesReceived'']\<rparr>
               in s2\<lparr>sub_table := if_Add T (rm_InfraNames m) (rm_IP m) (sub_table s2)\<rparr>)"

definition handle_unregister :: "'t mbus_AddressTable \<Rightarrow> nats_Msg \<Rightarrow> 't Subscriber \<Rightarrow> 't Subscriber" where
  "handle_unregister T msg s =
     (case unmarshal_RegistryMessage (msg_Data msg) of
        None \<Rightarrow> s
      | Some m \<Rightarrow>
          if length (rm_InfraNames m) = 0 then s
          else s\<lparr>sub_table := if_Remove T (rm_InfraNames m) (rm_IP m) (sub_table s)\<rparr>)"

text \<open>A failed reply to a greeting is only logged.\<close>

definition handle_greet :: "nats_env \<Rightarrow> string \<Rightarrow> nats_Msg \<Rightarrow> 't Subscriber \<Rightarrow> 't Subscriber outcome" where
  "handle_greet env discoveryMessageJson greetMsg s =
     (if \<not> natsClient s then Panic NilDereference
      else Return (snd (nats_do env (CallPublishMsg (msg_Reply greetMsg) discoveryMessageJson) s)))"

definition handle_reconnect :: "nats_env \<Rightarrow> 't mbus_AddressTable \<Rightarrow> 't Subscriber \<Rightarrow> 't Subscriber outcome" where
  "handle_reconnect env T s =
     (case sendStartMessage env (s\<lparr>sub_table := if_ResumePruning T (sub_table s)\<rparr>) of
        Panic p \<Rightarrow> Panic p
      | Return (_, s') \<Rightarrow> Return s')"

definition handle_disconnect :: "'t mbus_AddressTable \<Rightarrow> 't Subscriber \<Rightarrow> 't Subscriber" where
  "handle_disconnect T s = s\<lparr>sub_table := if_PausePruning T (sub_table s)\<rparr>"

text \<open>The goroutine \<open>RunOnce\<close> starts: the timer fires and the table becomes warm.\<close>

definition warm_timer_fires :: "'t mbus_AddressTable \<Rightarrow> 't Subscriber \<Rightarrow> 't Subscriber" where
  "warm_timer_fires T s =
     (case warm_timers s of [] \<Rightarrow> s
      | _ # ts \<Rightarrow> s\<lparr>warm_timers := ts, sub_table := if_SetWarm T (sub_table s)\<rparr>)"

text \<open>A message is handed to every handler subscribed to its subject, in the order of subscription.\<close>

definition run_handler ::
    "nats_env \<Rightarrow> 't mbus_AddressTable \<Rightarrow> nats_Msg \<Rightarrow> handler \<Rightarrow> 't Subscriber \<Rightarrow> 't Subscriber outcome" where
  "run_handler env T msg h s =
     (case h of
        GreetMsgHandler data \<Rightarrow> handle_greet env data msg s
      | RegisterHandler \<Rightarrow> Return (handle_register T msg s)
      | UnregisterHandler \<Rightarrow> Return (handle_unregister T msg s))"

fun run_handlers ::
    "nats_env \<Rightarrow> 't mbus_AddressTable \<Rightarrow> nats_Msg \<Rightarrow> handler list \<Rightarrow> 't Subscriber \<Rightarrow> 't Subscriber outcome" where
  "run_handlers env T msg [] s = Return s"
| "run_handlers env T msg (h # hs) s =
     (case run_handler env T msg h s of Panic p \<Rightarrow> Panic p | Return s' \<Rightarrow> run_handlers env T msg hs s')"

definition deliver :: "nats_env \<Rightarrow> 't mbus_AddressTable \<Rightarrow> nats_Msg \<Rightarrow> 't Subscriber \<Rightarrow> 't Subscriber outcome" where
  "deliver env T msg s =
     run_handlers env T msg
       (map snd (filter (\<lambda>(subject, h). subject = msg_Subject msg) (subscriptions s))) s"

text \<open>The interface on the table of the controller.\<close>

definition table_interface :: "AddressTable mbus_AddressTable" where
  "table_interface =
     \<lparr>if_Add = Add, if_Remove = Remove, if_PausePruning = PausePruning,
      if_ResumePruning = ResumePruning, if_SetWarm = SetWarm\<rparr>"

section \<open>Starting\<close>

definition start_data :: "'t Subscriber \<Rightarrow> string" where
  "start_data s =
     json_print (start_message_json
       \<lparr>Id = opts_ID (subOpts s), Host = localIP s,
        MinimumRegisterIntervalInSeconds = opts_MinimumRegisterIntervalInSeconds (subOpts s),
        PruneThresholdInSeconds = opts_PruneThresholdInSeconds (subOpts s)\<rparr>)"

lemma subscriptionOptionsJSON_eq: "subscriptionOptionsJSON s = Return (start_data s)"
  by (simp add: subscriptionOptionsJSON_def json_Marshal_def start_data_def)

lemma start_data_frame [simp]:
  "start_data (s\<lparr>nats_calls := cs\<rparr>) = start_data s"
  "start_data (s\<lparr>natsClient := b\<rparr>) = start_data s"
  "start_data (s\<lparr>once_done := b\<rparr>) = start_data s"
  "start_data (s\<lparr>subscriptions := ss\<rparr>) = start_data s"
  "start_data (s\<lparr>sub_table := t\<rparr>) = start_data s"
  by (simp_all add: start_data_def)

text \<open>The calls of a start that meets no error, in order.\<close>

definition start_script :: "'t Subscriber \<Rightarrow> nats_call list" where
  "start_script s =
     [CallConnection, CallConnectedUrl, CallPublishMsg ''service-discovery.start'' (start_data s),
      CallSubscribe ''service-discovery.greet'' (GreetMsgHandler (start_data s)), CallFlush,
      CallSubscribe ''service-discovery.register'' RegisterHandler,
      CallSubscribe ''service-discovery.unregister'' UnregisterHandler]"

text \<open>The error of a call: what the library returns, with the context that the caller adds, if any.\<close>

fun call_error :: "nats_call \<Rightarrow> go_error option \<Rightarrow> go_error option" where
  "call_error CallConnection e = map_option (wrap_error ''unable to create nats connection'') e"
| "call_error (CallPublishMsg _ _) e = map_option (wrap_error ''unable to publish a start message'') e"
| "call_error (CallSubscribe _ _) e = e"
| "call_error CallFlush e = e"
| "call_error CallConnectedUrl e = None"
| "call_error CallClose e = None"

text \<open>The first call of a script that fails: its position and its error.\<close>

fun first_failure :: "nats_env \<Rightarrow> nats_call list \<Rightarrow> nats_call list \<Rightarrow> (nat \<times> go_error) option" where
  "first_failure env made [] = None"
| "first_failure env made (c # cs) =
     (case call_error c (env made c) of Some e \<Rightarrow> Some (length made, e) | None \<Rightarrow> first_failure env (made @ [c]) cs)"

lemma RunOnce_script:
  fixes s :: "'t Subscriber"
  assumes "\<not> once_done s" and "nats_calls s = []" and "\<not> natsClient s" and "subscriptions s = []"
    and "warm_timers s = []"
  shows "case first_failure env [] (start_script s) of
     None \<Rightarrow> (\<exists>s'. RunOnce env s = Return (None, s') \<and> nats_calls s' = start_script s \<and> natsClient s' \<and>
               subscriptions s' = [(''service-discovery.greet'', GreetMsgHandler (start_data s)),
                                   (''service-discovery.register'', RegisterHandler),
                                   (''service-discovery.unregister'', UnregisterHandler)] \<and>
               warm_timers s' = [warmingDuration s] \<and> sub_table s' = sub_table s \<and> once_done s' \<and> sub_metrics s' = sub_metrics s)
   | Some (k, e) \<Rightarrow> (\<exists>s'. RunOnce env s = Return (Some e, s') \<and> once_done s' \<and>
               nats_calls s' = take (Suc k) (start_script s) @ (if k = 0 then [] else [CallClose]) \<and>
               warm_timers s' = [] \<and> sub_table s' = sub_table s)"
proof -
  note defs = RunOnce_def connect_and_subscribe_def sendStartMessage_def setupGreetMsgHandler_def
    setupAddressMessageHandler_def nats_subscribe_def nats_do_def Close_def
    subscriptionOptionsJSON_eq assms
  show ?thesis by (auto simp: start_script_def defs split: option.splits)
qed

section \<open>Messages\<close>

definition registry_json :: "RegistryMessage \<Rightarrow> json" where
  "registry_json m =
     JObj [(''host'', JStr (rm_IP m)), (''uris'', JArr (map JStr (rm_InfraNames m))),
           (''endpoint_updated_at_ns'', JInt (rm_EndpointUpdatedAt m))]"

definition utf8_message :: "RegistryMessage \<Rightarrow> RegistryMessage" where
  "utf8_message m = m\<lparr>rm_IP := valid_utf8 (rm_IP m), rm_InfraNames := map valid_utf8 (rm_InfraNames m)\<rparr>"

lemma field_names_ascii [simp]:
  "valid_utf8 ''host'' = ''host''" "valid_utf8 ''uris'' = ''uris''"
  "valid_utf8 ''endpoint_updated_at_ns'' = ''endpoint_updated_at_ns''"
  by (rule valid_utf8_ascii_string, simp)+

lemma unmarshal_registry_json:
  assumes "is_int64 (rm_EndpointUpdatedAt m)"
  shows "unmarshal_RegistryMessage (json_print (registry_json m)) = Some (utf8_message m)"
proof -
  have "json_wf (registry_json m)" by (simp add: registry_json_def list_all_iff)
  from json_parse_print [OF this] show ?thesis
    using assms
    by (simp add: unmarshal_RegistryMessage_def registry_json_def decode_struct_def registry_fields_def
        field_match_def assign_registry_def decode_slice_def decode_int64_def is_int64_def
        utf8_message_def o_def)
qed

text \<open>The contract the subscriber relies on: what each operation of its table does to the lookups.\<close>

locale mbus_table =
  fixes T :: "'t mbus_AddressTable"
    and lookup :: "'t \<Rightarrow> string \<Rightarrow> string list"
    and inv :: "'t \<Rightarrow> bool"
    and paused :: "'t \<Rightarrow> bool"
    and is_warm :: "'t \<Rightarrow> bool"
  assumes inv_add: "inv t \<Longrightarrow> inv (if_Add T hs ip t)"
    and inv_remove: "inv t \<Longrightarrow> inv (if_Remove T hs ip t)"
    and lookup_add: "inv t \<Longrightarrow> lookup (if_Add T hs ip t) h =
      (let ips = lookup t h in if fqdn h \<in> fqdn ` set hs \<and> ip \<notin> set ips then ips @ [ip] else ips)"
    and lookup_remove: "inv t \<Longrightarrow> lookup (if_Remove T hs ip t) h =
      (if fqdn h \<in> fqdn ` set hs then filter (\<lambda>x. x \<noteq> ip) (lookup t h) else lookup t h)"
    and pause: "paused (if_PausePruning T t)" "lookup (if_PausePruning T t) = lookup t"
    and resume: "\<not> paused (if_ResumePruning T t)" "lookup (if_ResumePruning T t) = lookup t"
    and set_warm: "is_warm (if_SetWarm T t)" "lookup (if_SetWarm T t) = lookup t"
begin

lemma register_lookup:
  assumes "inv (sub_table s)" and "unmarshal_RegistryMessage (msg_Data msg) = Some m"
    and "rm_IP m \<noteq> []" and "rm_InfraNames m \<noteq> []"
  shows "lookup (sub_table (handle_register T msg s)) h =
     (let ips = lookup (sub_table s) h
      in if fqdn h \<in> fqdn ` set (rm_InfraNames m) \<and> rm_IP m \<notin> set ips then ips @ [rm_IP m] else ips)"
  using assms by (simp add: handle_register_def lookup_add)

lemma unregister_lookup:
  assumes "inv (sub_table s)" and "unmarshal_RegistryMessage (msg_Data msg) = Some m"
    and "rm_InfraNames m \<noteq> []"
  shows "lookup (sub_table (handle_unregister T msg s)) h =
     (if fqdn h \<in> fqdn ` set (rm_InfraNames m) then filter (\<lambda>x. x \<noteq> rm_IP m) (lookup (sub_table s) h)
      else lookup (sub_table s) h)"
  using assms by (simp add: handle_unregister_def lookup_remove)

lemma handlers_inv:
  assumes "inv (sub_table s)"
  shows "inv (sub_table (handle_register T msg s))" and "inv (sub_table (handle_unregister T msg s))"
  using assms
  by (auto simp: handle_register_def handle_unregister_def inv_add inv_remove Let_def split: option.splits)

lemma register_then_unregister:
  assumes "inv (sub_table s)" and "unmarshal_RegistryMessage (msg_Data msg) = Some m"
    and "rm_IP m \<noteq> []" and "rm_InfraNames m \<noteq> []"
  shows "lookup (sub_table (handle_unregister T msg (handle_register T msg s))) h =
     (if fqdn h \<in> fqdn ` set (rm_InfraNames m) then filter (\<lambda>x. x \<noteq> rm_IP m) (lookup (sub_table s) h)
      else lookup (sub_table s) h)"
  using register_lookup [OF assms, of h] assms
  by (auto simp: unregister_lookup [OF handlers_inv(1) [OF assms(1)] assms(2,4)] Let_def)

end

interpretation sdc_table: mbus_table table_interface Lookup wf_table pausedPruning IsWarm
proof
  show "Lookup (if_PausePruning table_interface t) = Lookup t" for t
    by (simp add: table_interface_def Lookup_def entriesForHostname_def table_simps fun_eq_iff)
  show "Lookup (if_ResumePruning table_interface t) = Lookup t" for t
    by (simp add: table_interface_def Lookup_def entriesForHostname_def table_simps fun_eq_iff)
  show "Lookup (if_SetWarm table_interface t) = Lookup t" for t
    by (simp add: table_interface_def Lookup_def entriesForHostname_def table_simps fun_eq_iff)
qed (simp_all add: table_interface_def wf_table_Add wf_table_Remove Lookup_Add Lookup_Remove IsWarm_def
    table_simps)

section \<open>Properties\<close>

text \<open>
  C12: starting a subscriber makes the calls on NATS in a fixed order: connect, ask for the URL, publish the start
  message, subscribe to greetings, flush, subscribe to register and to unregister messages. If none
  fails, \<open>RunOnce\<close> returns no error with the three subscriptions in place and one warm-up timer running.
  If one fails, \<open>RunOnce\<close> returns the error of that call, with its context if it is the connection or the
  start message and as it is otherwise; it makes no further call of the sequence, closes the connection
  if there is one, and starts no timer. The address table is untouched in both cases.
\<close>

theorem RunOnce_follows_script:
  fixes opts warming ip rec and t :: "'t"
  defines "s \<equiv> NewSubscriber opts warming t ip rec"
  shows "case first_failure env [] (start_script s) of
     None \<Rightarrow> (\<exists>s'. RunOnce env s = Return (None, s') \<and> nats_calls s' = start_script s \<and> natsClient s' \<and>
               subscriptions s' = [(''service-discovery.greet'', GreetMsgHandler (start_data s)),
                                   (''service-discovery.register'', RegisterHandler),
                                   (''service-discovery.unregister'', UnregisterHandler)] \<and>
               warm_timers s' = [warming] \<and> sub_table s' = t)
   | Some (k, e) \<Rightarrow> (\<exists>s'. RunOnce env s = Return (Some e, s') \<and>
               nats_calls s' = take (Suc k) (start_script s) @ (if k = 0 then [] else [CallClose]) \<and>
               warm_timers s' = [] \<and> sub_table s' = t)"
  using RunOnce_script [of s env]
  by (auto simp: s_def NewSubscriber_def split: option.splits)

lemma once_done_frame:
  "nats_do env c s = (r, s') \<Longrightarrow> once_done s' = once_done s"
  "nats_subscribe env subject h s = (r, s') \<Longrightarrow> once_done s' = once_done s"
  "once_done (Close env s) = once_done s"
  "once_done (snd (nats_do env c s)) = once_done s"
  by (auto simp: nats_do_def nats_subscribe_def Close_def split: option.splits)

lemma connect_and_subscribe_once:
  "connect_and_subscribe env s = Return (r, s') \<Longrightarrow> once_done s \<Longrightarrow> once_done s'"
  unfolding connect_and_subscribe_def sendStartMessage_def setupGreetMsgHandler_def
    setupAddressMessageHandler_def subscriptionOptionsJSON_eq
  by (auto simp: once_done_frame(4) split: option.splits prod.splits outcome.splits if_splits dest!: once_done_frame(1,2))

text \<open>
  \<open>RunOnce\<close> does its work at most once: after it has returned, with an error or without, every later
  call returns no error and does nothing, also when the first call failed and left no connection.
\<close>

theorem RunOnce_only_once:
  assumes "RunOnce env s = Return (r, s')"
  shows "RunOnce env' s' = Return (None, s')"
proof -
  have "once_done s'"
  proof (cases "once_done s")
    case False
    with assms obtain r0 s0 where
      "connect_and_subscribe env (s\<lparr>once_done := True\<rparr>) = Return (r0, s0)"
      "s' = s0 \<or> s' = Close env s0"
      by (auto simp: RunOnce_def split: outcome.splits option.splits)
    moreover from this(1) have "once_done s0" by (rule connect_and_subscribe_once) simp
    ultimately show ?thesis by (auto simp: once_done_frame)
  qed (use assms in \<open>auto simp: RunOnce_def\<close>)
  then show ?thesis by (simp add: RunOnce_def)
qed

theorem RunOnce_only_once_witness:
  "\<exists>s'. RunOnce (\<lambda>_ _. Some ''refused'')
           (NewSubscriber \<lparr>opts_ID = ''0-a'', opts_MinimumRegisterIntervalInSeconds = 30,
              opts_PruneThresholdInSeconds = 120, opts_AcceptTLS = False\<rparr> 5 () ''10.0.0.9''
              (NewMetricsRecorder int))
           = Return (Some ''unable to create nats connection: refused'', s') \<and>
        RunOnce (\<lambda>_ _. None) s' = Return (None, s')"
proof -
  let ?s = "NewSubscriber \<lparr>opts_ID = ''0-a'', opts_MinimumRegisterIntervalInSeconds = 30,
              opts_PruneThresholdInSeconds = 120, opts_AcceptTLS = False\<rparr> 5 () ''10.0.0.9''
              (NewMetricsRecorder int)"
  have "\<exists>s'. RunOnce (\<lambda>_ _. Some ''refused'') ?s
      = Return (Some ''unable to create nats connection: refused'', s')"
    by (simp add: RunOnce_def connect_and_subscribe_def nats_do_def NewSubscriber_def wrap_error_def)
  then obtain s' where s': "RunOnce (\<lambda>_ _. Some ''refused'') ?s
      = Return (Some ''unable to create nats connection: refused'', s')" by blast
  from RunOnce_only_once [OF this, of "\<lambda>_ _. None"] s' show ?thesis by blast
qed

text \<open>
  C11: end to end over the wire. Once a subscriber has started, a message published on the register
  subject whose body is the JSON of a registration, with an IP and at least one hostname, makes \<open>Lookup\<close>
  return the IP for exactly the named hostnames besides what it returned before, counts one received
  message, and records its transit time; the same body on the unregister subject takes the IP out again.
\<close>

theorem registration_messages_roundtrip:
  fixes opts warming ip rec t
  defines "s0 \<equiv> NewSubscriber opts warming t ip rec"
  assumes "RunOnce env s0 = Return (None, s)" and "wf_table t"
    and "is_int64 (rm_EndpointUpdatedAt m)" and "valid_utf8 (rm_IP m) = rm_IP m"
    and "\<forall>n\<in>set (rm_InfraNames m). valid_utf8 n = n" and "rm_IP m \<noteq> []" and "rm_InfraNames m \<noteq> []"
  shows "\<exists>s1 s2.
     deliver env table_interface
       \<lparr>msg_Subject = ''service-discovery.register'', msg_Reply = r, msg_Data = json_print (registry_json m)\<rparr> s
       = Return s1 \<and>
     Lookup (sub_table s1) h =
       (let ips = Lookup t h
        in if fqdn h \<in> fqdn ` set (rm_InfraNames m) \<and> rm_IP m \<notin> set ips then ips @ [rm_IP m] else ips) \<and>
     sub_metrics s1 = sub_metrics s @ [''registerMessagesReceived''] \<and>
     sub_recorder s1 = RecordMessageTransitTime (rm_EndpointUpdatedAt m) (sub_recorder s) \<and>
     deliver env table_interface
       \<lparr>msg_Subject = ''service-discovery.unregister'', msg_Reply = r, msg_Data = json_print (registry_json m)\<rparr> s1
       = Return s2 \<and>
     Lookup (sub_table s2) h =
       (if fqdn h \<in> fqdn ` set (rm_InfraNames m) then filter (\<lambda>x. x \<noteq> rm_IP m) (Lookup t h) else Lookup t h)"
proof -
  let ?data = "json_print (registry_json m)"
  let ?reg = "\<lparr>msg_Subject = ''service-discovery.register'', msg_Reply = r, msg_Data = ?data\<rparr>"
  let ?unreg = "\<lparr>msg_Subject = ''service-discovery.unregister'', msg_Reply = r, msg_Data = ?data\<rparr>"
  have s: "subscriptions s = [(''service-discovery.greet'', GreetMsgHandler (start_data s0)),
      (''service-discovery.register'', RegisterHandler),
      (''service-discovery.unregister'', UnregisterHandler)]" "sub_table s = t"
    using RunOnce_script [of s0 env] assms(2)
    by (auto simp: s0_def NewSubscriber_def split: option.splits)
  have "utf8_message m = m"
    using assms(5,6) by (cases m) (simp add: utf8_message_def map_idI)
  then have m: "unmarshal_RegistryMessage ?data = Some m"
    using unmarshal_registry_json [OF assms(4)] by simp
  let ?s1 = "handle_register table_interface ?reg s"
  let ?s2 = "handle_unregister table_interface ?unreg ?s1"
  have d1: "deliver env table_interface ?reg s = Return ?s1"
    by (simp add: deliver_def s run_handler_def)
  have "subscriptions ?s1 = subscriptions s"
    by (simp add: handle_register_def m Let_def)
  then have d2: "deliver env table_interface ?unreg ?s1 = Return ?s2"
    by (simp add: deliver_def s run_handler_def)
  have l1: "Lookup (sub_table ?s1) h = (let ips = Lookup t h
        in if fqdn h \<in> fqdn ` set (rm_InfraNames m) \<and> rm_IP m \<notin> set ips then ips @ [rm_IP m] else ips)"
    using sdc_table.register_lookup [of s ?reg m h] m assms(3,7,8) by (simp add: s)
  have l2: "Lookup (sub_table ?s2) h =
      (if fqdn h \<in> fqdn ` set (rm_InfraNames m) then filter (\<lambda>x. x \<noteq> rm_IP m) (Lookup t h) else Lookup t h)"
    using sdc_table.register_then_unregister [of s ?reg m h] m assms(3,7,8)
    by (simp add: s handle_unregister_def)
  show ?thesis
    using d1 d2 l1 l2 m assms(7,8) by (intro exI conjI) (simp_all add: handle_register_def Let_def)
qed

lemma no_failure: "first_failure (\<lambda>_ _. None) made cs = None"
proof (induction cs arbitrary: made)
  case (Cons c cs)
  then show ?case by (cases c) simp_all
qed simp

theorem registration_messages_roundtrip_witness:
  "\<exists>s s1. RunOnce (\<lambda>_ _. None)
       (NewSubscriber \<lparr>opts_ID = ''0-a'', opts_MinimumRegisterIntervalInSeconds = 30,
          opts_PruneThresholdInSeconds = 120, opts_AcceptTLS = False\<rparr> 5 (new_table 120 30 int)
          ''10.0.0.9'' (NewMetricsRecorder int)) = Return (None, s) \<and>
     deliver (\<lambda>_ _. None) table_interface
       \<lparr>msg_Subject = ''service-discovery.register'', msg_Reply = [],
        msg_Data = json_print (registry_json
          \<lparr>rm_IP = ''10.0.0.1'', rm_InfraNames = [''app.apps.internal''], rm_EndpointUpdatedAt = 17\<rparr>)\<rparr> s
       = Return s1 \<and> Lookup (sub_table s1) ''app.apps.internal'' = [''10.0.0.1'']"
proof -
  let ?opts = "\<lparr>opts_ID = ''0-a'', opts_MinimumRegisterIntervalInSeconds = 30,
          opts_PruneThresholdInSeconds = 120, opts_AcceptTLS = False\<rparr>"
  let ?s = "NewSubscriber ?opts 5 (new_table 120 30 int) ''10.0.0.9'' (NewMetricsRecorder int)"
  let ?m = "\<lparr>rm_IP = ''10.0.0.1'', rm_InfraNames = [''app.apps.internal''], rm_EndpointUpdatedAt = 17\<rparr>"
  obtain s where s: "RunOnce (\<lambda>_ _. None) ?s = Return (None, s)"
    using RunOnce_script [of ?s "\<lambda>_ _. None"] by (auto simp: no_failure NewSubscriber_def)
  have "wf_table (new_table 120 30 int)" "is_int64 (rm_EndpointUpdatedAt ?m)"
    "valid_utf8 (rm_IP ?m) = rm_IP ?m" "\<forall>n\<in>set (rm_InfraNames ?m). valid_utf8 n = n"
    "rm_IP ?m \<noteq> []" "rm_InfraNames ?m \<noteq> []"
    by (simp_all add: wf_table_New is_int64_def minInt64_def maxInt64_def valid_utf8_ascii_string)
  from registration_messages_roundtrip [OF s this, of "[]" "''app.apps.internal''"] s
  show ?thesis by (auto simp: Let_def)
qed

text \<open>
  A register message is ignored, table, counters and recorder included, when its body is not JSON
  or not of the message's types, or names no IP or no hostname; an unregister message is ignored when
  its body does not decode or names no hostname.
\<close>

theorem malformed_messages_are_ignored:
  "(unmarshal_RegistryMessage (msg_Data msg) = None \<longrightarrow>
      handle_register T msg s = s \<and> handle_unregister T msg s = s) \<and>
   (\<forall>m. unmarshal_RegistryMessage (msg_Data msg) = Some m \<longrightarrow>
      (rm_IP m = [] \<or> rm_InfraNames m = [] \<longrightarrow> handle_register T msg s = s) \<and>
      (rm_InfraNames m = [] \<longrightarrow> handle_unregister T msg s = s))"
  by (auto simp: handle_register_def handle_unregister_def)

lemma unmarshal_not_json: "unmarshal_RegistryMessage ''{not json'' = None"
  by code_simp

theorem malformed_messages_are_ignored_witness:
  "unmarshal_RegistryMessage ''{not json'' = None \<and>
   (\<forall>s. handle_register table_interface
     \<lparr>msg_Subject = ''service-discovery.register'', msg_Reply = [], msg_Data = ''{not json''\<rparr> s = s)"
proof -
  let ?msg = "\<lparr>msg_Subject = ''service-discovery.register'', msg_Reply = [], msg_Data = ''{not json''\<rparr>"
  have "handle_register table_interface ?msg s = s" for s
    using malformed_messages_are_ignored [of ?msg table_interface s] unmarshal_not_json by simp
  with unmarshal_not_json show ?thesis by simp
qed

text \<open>
  Losing the connection pauses pruning; getting it back resumes pruning from the current instant,
  announces the controller again with the start message, and, in between, no address is lost. The
  reconnect handler needs the connection that \<open>RunOnce\<close> stores: if it runs before, it panics.
\<close>

theorem reconnect_resumes_and_announces:
  fixes s :: "AddressTable Subscriber"
  shows "pausedPruning (sub_table (handle_disconnect table_interface s)) \<and>
    (case handle_reconnect env table_interface (handle_disconnect table_interface s) of
       Panic p \<Rightarrow> \<not> natsClient s \<and> p = NilDereference
     | Return s' \<Rightarrow> natsClient s \<and> \<not> pausedPruning (sub_table s') \<and>
         lastResume (sub_table s') = clock (sub_table s) 0 \<and>
         Lookup (sub_table s') = Lookup (sub_table s) \<and>
         nats_calls s' = nats_calls s @ [CallPublishMsg ''service-discovery.start'' (start_data s)])"
proof -
  have "Lookup (ResumePruning (PausePruning (sub_table s))) = Lookup (sub_table s)"
    using sdc_table.pause(2) [of "sub_table s"] sdc_table.resume(2) [of "PausePruning (sub_table s)"]
    by (simp add: table_interface_def)
  then show ?thesis
    by (auto simp: handle_disconnect_def handle_reconnect_def sendStartMessage_def
        subscriptionOptionsJSON_eq table_interface_def table_simps nats_do_def split: option.splits)
qed

text \<open>
  A greeting is answered on its reply subject with the start message: a JSON object with the
  subscriber's id, its IP, the minimum register interval and the prune threshold.
\<close>

theorem greeting_is_answered:
  fixes s :: "'t Subscriber"
  assumes "natsClient s"
    and "subscriptions s = [(''service-discovery.greet'', GreetMsgHandler (start_data s)),
                            (''service-discovery.register'', RegisterHandler),
                            (''service-discovery.unregister'', UnregisterHandler)]"
    and "msg_Subject msg = ''service-discovery.greet''"
  shows "\<exists>s' data. deliver env T msg s = Return s' \<and>
           nats_calls s' = nats_calls s @ [CallPublishMsg (msg_Reply msg) data] \<and>
           json_parse data = Some (JObj
             [(''id'', JStr (valid_utf8 (opts_ID (subOpts s)))), (''host'', JStr (valid_utf8 (localIP s))),
              (''minimumRegisterIntervalInSeconds'', JInt (opts_MinimumRegisterIntervalInSeconds (subOpts s))),
              (''pruneThresholdInSeconds'', JInt (opts_PruneThresholdInSeconds (subOpts s)))])"
proof -
  have names: "valid_utf8 ''id'' = ''id''"
    "valid_utf8 ''minimumRegisterIntervalInSeconds'' = ''minimumRegisterIntervalInSeconds''"
    "valid_utf8 ''pruneThresholdInSeconds'' = ''pruneThresholdInSeconds''"
    by (rule valid_utf8_ascii_string, simp)+
  have "json_parse (start_data s) = Some (JObj
             [(''id'', JStr (valid_utf8 (opts_ID (subOpts s)))), (''host'', JStr (valid_utf8 (localIP s))),
              (''minimumRegisterIntervalInSeconds'', JInt (opts_MinimumRegisterIntervalInSeconds (subOpts s))),
              (''pruneThresholdInSeconds'', JInt (opts_PruneThresholdInSeconds (subOpts s)))])"
    unfolding start_data_def
    by (subst json_parse_print) (simp_all add: start_message_json_def names)
  then show ?thesis
    using assms by (simp add: deliver_def run_handler_def handle_greet_def nats_do_def)
qed

theorem greeting_is_answered_witness:
  "\<exists>s' data. deliver (\<lambda>_ _. None) table_interface
       \<lparr>msg_Subject = ''service-discovery.greet'', msg_Reply = ''_INBOX.1'', msg_Data = []\<rparr>
       ((NewSubscriber \<lparr>opts_ID = ''0-a'', opts_MinimumRegisterIntervalInSeconds = 30,
          opts_PruneThresholdInSeconds = 120, opts_AcceptTLS = False\<rparr> 5 (new_table 120 30 int)
          ''10.0.0.9'' (NewMetricsRecorder int))
        \<lparr>natsClient := True,
         subscriptions := [(''service-discovery.greet'', GreetMsgHandler (start_data
             (NewSubscriber \<lparr>opts_ID = ''0-a'', opts_MinimumRegisterIntervalInSeconds = 30,
                opts_PruneThresholdInSeconds = 120, opts_AcceptTLS = False\<rparr> 5 (new_table 120 30 int)
                ''10.0.0.9'' (NewMetricsRecorder int)))),
            (''service-discovery.register'', RegisterHandler),
            (''service-discovery.unregister'', UnregisterHandler)]\<rparr>) = Return s' \<and>
     nats_calls s' = [CallPublishMsg ''_INBOX.1'' data] \<and>
     json_parse data = Some (JObj
       [(''id'', JStr ''0-a''), (''host'', JStr ''10.0.0.9''),
        (''minimumRegisterIntervalInSeconds'', JInt 30), (''pruneThresholdInSeconds'', JInt 120)])"
proof -
  let ?new = "NewSubscriber \<lparr>opts_ID = ''0-a'', opts_MinimumRegisterIntervalInSeconds = 30,
          opts_PruneThresholdInSeconds = 120, opts_AcceptTLS = False\<rparr> 5 (new_table 120 30 int)
          ''10.0.0.9'' (NewMetricsRecorder int)"
  let ?s = "?new\<lparr>natsClient := True,
         subscriptions := [(''service-discovery.greet'', GreetMsgHandler (start_data ?new)),
            (''service-discovery.register'', RegisterHandler),
            (''service-discovery.unregister'', UnregisterHandler)]\<rparr>"
  let ?msg = "\<lparr>msg_Subject = ''service-discovery.greet'', msg_Reply = ''_INBOX.1'', msg_Data = []\<rparr>"
  have "natsClient ?s" "subscriptions ?s = [(''service-discovery.greet'', GreetMsgHandler (start_data ?s)),
      (''service-discovery.register'', RegisterHandler), (''service-discovery.unregister'', UnregisterHandler)]"
    "msg_Subject ?msg = ''service-discovery.greet''"
    by simp_all
  from greeting_is_answered [OF this, of "\<lambda>_ _. None" table_interface] show ?thesis
    by (simp add: NewSubscriber_def valid_utf8_ascii_string)
qed

end
