(* ===== verification/Configs.thy ===== *)
theory Configs
  imports Go_Json
begin

text \<open>
  Model of \<open>service-discovery-controller/config/config.go\<close> and \<open>bosh-dns-adapter/config/config.go\<close>: the
  two configurations, read from JSON and validated, and the NATS URLs built from the controller's. The
  validator library is not part of the repository: it is an argument of the constructors, and what
  they rely on is the hypothesis \<open>validator_checks\<close>.
\<close>

section \<open>The validator\<close>

text \<open>
  The validated fields of a struct: the name of the field, its tag and its value. \<open>nonzero\<close> is used on
  strings and \<open>min=n\<close> on integers.
\<close>

datatype validated = Nonzero string string | Min string int int

fun rule_holds :: "validated \<Rightarrow> bool" where
  "rule_holds (Nonzero field value) = (value \<noteq> [])"
| "rule_holds (Min field limit value) = (limit \<le> value)"

type_synonym validator = "validated list \<Rightarrow> go_error option"

definition validator_checks :: "validator \<Rightarrow> bool" where
  "validator_checks Validate \<longleftrightarrow> (\<forall>fs. Validate fs = None \<longleftrightarrow> list_all rule_holds fs)"

section \<open>The controller's configuration\<close>

record NatsConfig =
  nc_Host :: string
  nc_Port :: int
  nc_User :: string
  nc_Pass :: string

record sdc_Config =
  Address :: string
  Port :: string
  Nats :: "NatsConfig list"
  Index :: string
  ServerCert :: string
  ServerKey :: string
  CACert :: string
  MetronPort :: int
  LogLevelAddress :: string
  LogLevelPort :: int
  StalenessThresholdSeconds :: int
  PruningIntervalSeconds :: int
  MetricsEmitSeconds :: int
  ResumePruningDelaySeconds :: int
  WarmDurationSeconds :: int

definition zero_NatsConfig :: NatsConfig where
  "zero_NatsConfig = \<lparr>nc_Host = [], nc_Port = 0, nc_User = [], nc_Pass = []\<rparr>"

definition zero_Config :: sdc_Config where
  "zero_Config =
     \<lparr>Address = [], Port = [], Nats = [], Index = [], ServerCert = [], ServerKey = [], CACert = [],
      MetronPort = 0, LogLevelAddress = [], LogLevelPort = 0, StalenessThresholdSeconds = 0,
      PruningIntervalSeconds = 0, MetricsEmitSeconds = 0, ResumePruningDelaySeconds = 0,
      WarmDurationSeconds = 0\<rparr>"

definition nats_fields :: "string list" where
  "nats_fields = [''host'', ''port'', ''user'', ''pass'']"

definition assign_nats :: "string \<Rightarrow> json \<Rightarrow> NatsConfig \<Rightarrow> NatsConfig option" where
  "assign_nats f v c =
     (if f = ''host'' then map_option (\<lambda>x. c\<lparr>nc_Host := x\<rparr>) (decode_string v (nc_Host c))
      else if f = ''port'' then map_option (\<lambda>x. c\<lparr>nc_Port := x\<rparr>) (decode_uint16 v (nc_Port c))
      else if f = ''user'' then map_option (\<lambda>x. c\<lparr>nc_User := x\<rparr>) (decode_string v (nc_User c))
      else if f = ''pass'' then map_option (\<lambda>x. c\<lparr>nc_Pass := x\<rparr>) (decode_string v (nc_Pass c))
      else Some c)"

definition config_fields :: "string list" where
  "config_fields =
     [''address'', ''port'', ''nats'', ''index'', ''server_cert'', ''server_key'', ''ca_cert'', ''metron_port'',
      ''log_level_address'', ''log_level_port'', ''staleness_threshold_seconds'',
      ''pruning_interval_seconds'', ''metrics_emit_seconds'', ''resume_pruning_delay_seconds'',
      ''warm_duration_seconds'']"

definition assign_config :: "string \<Rightarrow> json \<Rightarrow> sdc_Config \<Rightarrow> sdc_Config option" where
  "assign_config f v c =
     (if f = ''address'' then map_option (\<lambda>x. c\<lparr>Address := x\<rparr>) (decode_string v (Address c))
      else if f = ''port'' then map_option (\<lambda>x. c\<lparr>Port := x\<rparr>) (decode_string v (Port c))
      else if f = ''nats'' then map_option (\<lambda>x. c\<lparr>Nats := x\<rparr>)
        (decode_slice zero_NatsConfig (decode_struct nats_fields assign_nats) v (Nats c))
      else if f = ''index'' then map_option (\<lambda>x. c\<lparr>Index := x\<rparr>) (decode_string v (Index c))
      else if f = ''server_cert'' then map_option (\<lambda>x. c\<lparr>ServerCert := x\<rparr>) (decode_string v (ServerCert c))
      else if f = ''server_key'' then map_option (\<lambda>x. c\<lparr>ServerKey := x\<rparr>) (decode_string v (ServerKey c))
      else if f = ''ca_cert'' then map_option (\<lambda>x. c\<lparr>CACert := x\<rparr>) (decode_string v (CACert c))
      else if f = ''metron_port'' then map_option (\<lambda>x. c\<lparr>MetronPort := x\<rparr>) (decode_int64 v (MetronPort c))
      else if f = ''log_level_address''
        then map_option (\<lambda>x. c\<lparr>LogLevelAddress := x\<rparr>) (decode_string v (LogLevelAddress c))
      else if f = ''log_level_port''
        then map_option (\<lambda>x. c\<lparr>LogLevelPort := x\<rparr>) (decode_int64 v (LogLevelPort c))
      else if f = ''staleness_threshold_seconds''
        then map_option (\<lambda>x. c\<lparr>StalenessThresholdSeconds := x\<rparr>) (decode_int64 v (StalenessThresholdSeconds c))
      else if f = ''pruning_interval_seconds''
        then map_option (\<lambda>x. c\<lparr>PruningIntervalSeconds := x\<rparr>) (decode_int64 v (PruningIntervalSeconds c))
      else if f = ''metrics_emit_seconds''
        then map_option (\<lambda>x. c\<lparr>MetricsEmitSeconds := x\<rparr>) (decode_int64 v (MetricsEmitSeconds c))
      else if f = ''resume_pruning_delay_seconds''
        then map_option (\<lambda>x. c\<lparr>ResumePruningDelaySeconds := x\<rparr>) (decode_int64 v (ResumePruningDelaySeconds c))
      else if f = ''warm_duration_seconds''
        then map_option (\<lambda>x. c\<lparr>WarmDurationSeconds := x\<rparr>) (decode_int64 v (WarmDurationSeconds c))
      else Some c)"

definition config_rules :: "sdc_Config \<Rightarrow> validated list" where
  "config_rules c =
     [Nonzero ''Address'' (Address c), Nonzero ''Port'' (Port c), Nonzero ''ServerCert'' (ServerCert c),
      Nonzero ''ServerKey'' (ServerKey c), Nonzero ''CACert'' (CACert c), Min ''MetronPort'' 1 (MetronPort c),
      Min ''StalenessThresholdSeconds'' 1 (StalenessThresholdSeconds c),
      Min ''PruningIntervalSeconds'' 1 (PruningIntervalSeconds c),
      Min ''MetricsEmitSeconds'' 1 (MetricsEmitSeconds c),
      Min ''ResumePruningDelaySeconds'' 0 (ResumePruningDelaySeconds c),
      Min ''WarmDurationSeconds'' 0 (WarmDurationSeconds c)]"

text \<open>The text of a JSON error is left open: \<open>json_error\<close> gives it.\<close>

definition sdc_NewConfig :: "validator \<Rightarrow> (string \<Rightarrow> go_error) \<Rightarrow> string \<Rightarrow> go_error + sdc_Config" where
  "sdc_NewConfig Validate json_error configJSON =
     (case Option.bind (json_parse configJSON) (\<lambda>v. decode_struct config_fields assign_config v zero_Config) of
        None \<Rightarrow> Inl (''unmarshal config: '' @ json_error configJSON)
      | Some sdcConfig \<Rightarrow>
          (case Validate (config_rules sdcConfig) of
             Some err \<Rightarrow> Inl (''invalid config: '' @ err)
           | None \<Rightarrow> Inr sdcConfig))"

section \<open>URLs\<close>

text \<open>
  \<open>url.URL.String\<close> on a URL with a scheme, a user, a password and a host: the two parts of the user
  information and the host are percent-encoded, each with its own set of characters left as they are.
\<close>

definition alphanumeric :: "char \<Rightarrow> bool" where
  "alphanumeric c \<longleftrightarrow> in_range 48 57 c \<or> in_range 65 90 c \<or> in_range 97 122 c"

definition keep_userinfo :: "char \<Rightarrow> bool" where
  "keep_userinfo c \<longleftrightarrow> alphanumeric c \<or> c \<in> set ''-_.~$&+,;=''"

definition keep_host :: "char \<Rightarrow> bool" where
  "keep_host c \<longleftrightarrow> alphanumeric c \<or> c \<in> set ''-_.~!$&()*+,;=:[]<>'' \<or> c = CHR 0x27 \<or> c = CHR 0x22"

definition upper_hex_digit :: "nat \<Rightarrow> char" where
  "upper_hex_digit n = (if n < 10 then char_of (48 + n) else char_of (55 + n))"

definition escape_char :: "(char \<Rightarrow> bool) \<Rightarrow> char \<Rightarrow> string" where
  "escape_char keep c =
     (if keep c then [c] else [CHR 0x25, upper_hex_digit (byte c div 16), upper_hex_digit (byte c mod 16)])"

definition url_escape :: "(char \<Rightarrow> bool) \<Rightarrow> string \<Rightarrow> string" where
  "url_escape keep s = concat (map (escape_char keep) s)"

definition nats_url :: "NatsConfig \<Rightarrow> string" where
  "nats_url info =
     ''nats://'' @ url_escape keep_userinfo (nc_User info) @ '':'' @ url_escape keep_userinfo (nc_Pass info)
     @ ''@'' @ url_escape keep_host (nc_Host info @ '':'' @ show_int (nc_Port info))"

definition NatsServers :: "sdc_Config \<Rightarrow> string list" where
  "NatsServers c = map nats_url (Nats c)"

section \<open>The adapter's configuration\<close>

record adapter_Config =
  ac_Address :: string
  ac_Port :: string
  ServiceDiscoveryControllerAddress :: string
  ServiceDiscoveryControllerPort :: string
  ClientCert :: string
  ClientKey :: string
  ac_CACert :: string
  ac_MetronPort :: int
  ac_MetricsEmitSeconds :: int
  ac_LogLevelAddress :: string
  ac_LogLevelPort :: int

definition zero_adapter_Config :: adapter_Config where
  "zero_adapter_Config =
     \<lparr>ac_Address = [], ac_Port = [], ServiceDiscoveryControllerAddress = [],
      ServiceDiscoveryControllerPort = [], ClientCert = [], ClientKey = [], ac_CACert = [], ac_MetronPort = 0,
      ac_MetricsEmitSeconds = 0, ac_LogLevelAddress = [], ac_LogLevelPort = 0\<rparr>"

definition adapter_fields :: "string list" where
  "adapter_fields =
     [''address'', ''port'', ''service_discovery_controller_address'', ''service_discovery_controller_port'',
      ''client_cert'', ''client_key'', ''ca_cert'', ''metron_port'', ''metrics_emit_seconds'',
      ''log_level_address'', ''log_level_port'']"

definition assign_adapter :: "string \<Rightarrow> json \<Rightarrow> adapter_Config \<Rightarrow> adapter_Config option" where
  "assign_adapter f v c =
     (if f = ''address'' then map_option (\<lambda>x. c\<lparr>ac_Address := x\<rparr>) (decode_string v (ac_Address c))
      else if f = ''port'' then map_option (\<lambda>x. c\<lparr>ac_Port := x\<rparr>) (decode_string v (ac_Port c))
      else if f = ''service_discovery_controller_address''
        then map_option (\<lambda>x. c\<lparr>ServiceDiscoveryControllerAddress := x\<rparr>)
               (decode_string v (ServiceDiscoveryControllerAddress c))
      else if f = ''service_discovery_controller_port''
        then map_option (\<lambda>x. c\<lparr>ServiceDiscoveryControllerPort := x\<rparr>)
               (decode_string v (ServiceDiscoveryControllerPort c))
      else if f = ''client_cert'' then map_option (\<lambda>x. c\<lparr>ClientCert := x\<rparr>) (decode_string v (ClientCert c))
      else if f = ''client_key'' then map_option (\<lambda>x. c\<lparr>ClientKey := x\<rparr>) (decode_string v (ClientKey c))
      else if f = ''ca_cert'' then map_option (\<lambda>x. c\<lparr>ac_CACert := x\<rparr>) (decode_string v (ac_CACert c))
      else if f = ''metron_port''
        then map_option (\<lambda>x. c\<lparr>ac_MetronPort := x\<rparr>) (decode_int64 v (ac_MetronPort c))
      else if f = ''metrics_emit_seconds''
        then map_option (\<lambda>x. c\<lparr>ac_MetricsEmitSeconds := x\<rparr>) (decode_int64 v (ac_MetricsEmitSeconds c))
      else if f = ''log_level_address''
        then map_option (\<lambda>x. c\<lparr>ac_LogLevelAddress := x\<rparr>) (decode_string v (ac_LogLevelAddress c))
      else if f = ''log_level_port''
        then map_option (\<lambda>x. c\<lparr>ac_LogLevelPort := x\<rparr>) (decode_int64 v (ac_LogLevelPort c))
      else Some c)"

definition adapter_rules :: "adapter_Config \<Rightarrow> validated list" where
  "adapter_rules c =
     [Nonzero ''Address'' (ac_Address c), Nonzero ''Port'' (ac_Port c),
      Nonzero ''ServiceDiscoveryControllerAddress'' (ServiceDiscoveryControllerAddress c),
      Nonzero ''ServiceDiscoveryControllerPort'' (ServiceDiscoveryControllerPort c),
      Nonzero ''ClientCert'' (ClientCert c), Nonzero ''ClientKey'' (ClientKey c),
      Nonzero ''CACert'' (ac_CACert c), Min ''MetronPort'' 1 (ac_MetronPort c),
      Min ''MetricsEmitSeconds'' 1 (ac_MetricsEmitSeconds c),
      Nonzero ''LogLevelAddress'' (ac_LogLevelAddress c), Min ''LogLevelPort'' 1 (ac_LogLevelPort c)]"

definition adapter_NewConfig :: "validator \<Rightarrow> (string \<Rightarrow> go_error) \<Rightarrow> string \<Rightarrow> go_error + adapter_Config" where
  "adapter_NewConfig Validate json_error configJSON =
     (case Option.bind (json_parse configJSON)
             (\<lambda>v. decode_struct adapter_fields assign_adapter v zero_adapter_Config) of
        None \<Rightarrow> Inl (json_error configJSON)
      | Some adapterConfig \<Rightarrow>
          (case Validate (adapter_rules adapterConfig) of
             Some err \<Rightarrow> Inl (''invalid config: '' @ err)
           | None \<Rightarrow> Inr adapterConfig))"

section \<open>Reading a configuration\<close>

definition nats_json :: "NatsConfig \<Rightarrow> json" where
  "nats_json c = JObj [(''host'', JStr (nc_Host c)), (''port'', JInt (nc_Port c)), (''user'', JStr (nc_User c)),
     (''pass'', JStr (nc_Pass c))]"

definition config_json :: "sdc_Config \<Rightarrow> json" where
  "config_json c = JObj
     [(''address'', JStr (Address c)), (''port'', JStr (Port c)), (''nats'', JArr (map nats_json (Nats c))),
      (''index'', JStr (Index c)), (''server_cert'', JStr (ServerCert c)), (''server_key'', JStr (ServerKey c)),
      (''ca_cert'', JStr (CACert c)), (''metron_port'', JInt (MetronPort c)),
      (''log_level_address'', JStr (LogLevelAddress c)), (''log_level_port'', JInt (LogLevelPort c)),
      (''staleness_threshold_seconds'', JInt (StalenessThresholdSeconds c)),
      (''pruning_interval_seconds'', JInt (PruningIntervalSeconds c)),
      (''metrics_emit_seconds'', JInt (MetricsEmitSeconds c)),
      (''resume_pruning_delay_seconds'', JInt (ResumePruningDelaySeconds c)),
      (''warm_duration_seconds'', JInt (WarmDurationSeconds c))]"

definition utf8 :: "string \<Rightarrow> bool" where
  "utf8 s \<longleftrightarrow> valid_utf8 s = s"

definition nats_representable :: "NatsConfig \<Rightarrow> bool" where
  "nats_representable c \<longleftrightarrow> utf8 (nc_Host c) \<and> utf8 (nc_User c) \<and> utf8 (nc_Pass c) \<and>
     0 \<le> nc_Port c \<and> nc_Port c \<le> 65535"

definition config_representable :: "sdc_Config \<Rightarrow> bool" where
  "config_representable c \<longleftrightarrow>
     list_all utf8 [Address c, Port c, Index c, ServerCert c, ServerKey c, CACert c, LogLevelAddress c] \<and>
     list_all nats_representable (Nats c) \<and>
     list_all is_int64 [MetronPort c, LogLevelPort c, StalenessThresholdSeconds c, PruningIntervalSeconds c,
       MetricsEmitSeconds c, ResumePruningDelaySeconds c, WarmDurationSeconds c]"

lemma ascii_is_utf8 [simp]:
  "list_all ascii f \<Longrightarrow> valid_utf8 f = f"
  by (rule valid_utf8_ascii_string)

lemma show_nat_hd_not_minus: "0 \<le> n \<Longrightarrow> hd (show_int n) \<noteq> CHR ''-''"
  using hd_show_nat_digit [of "nat n"] minus_not_digit by (auto simp: show_int_def)

lemma decode_uint16_JInt [simp]:
  "0 \<le> n \<Longrightarrow> n \<le> 65535 \<Longrightarrow> decode_uint16 (JInt n) old = Some n"
  using show_nat_hd_not_minus [of n] by (simp add: decode_uint16_def JInt_def)
    (simp add: decode_int_def parse_int_show_int)

lemma decode_int64_JInt [simp]: "is_int64 n \<Longrightarrow> decode_int64 (JInt n) old = Some n"
  by (simp add: decode_int64_def is_int64_def)

lemma decode_nats_json:
  "nats_representable c \<Longrightarrow> decode_struct nats_fields assign_nats (json_valid (nats_json c)) old = Some c"
  by (cases c) (simp add: nats_json_def decode_struct_def nats_fields_def assign_nats_def field_match_def
      nats_representable_def utf8_def)

lemma decode_elems_nats:
  "list_all nats_representable cs \<Longrightarrow>
     decode_elems zero_NatsConfig (decode_struct nats_fields assign_nats)
       (map (\<lambda>x. json_valid (nats_json x)) cs) old = Some cs"
  by (induction cs arbitrary: old) (simp_all add: decode_nats_json)

lemma decode_config_json:
  assumes "config_representable c"
  shows "decode_struct config_fields assign_config (json_valid (config_json c)) old = Some c"
proof -
  have c: "list_all utf8 [Address c, Port c, Index c, ServerCert c, ServerKey c, CACert c, LogLevelAddress c]"
    "list_all nats_representable (Nats c)"
    "list_all is_int64 [MetronPort c, LogLevelPort c, StalenessThresholdSeconds c, PruningIntervalSeconds c,
       MetricsEmitSeconds c, ResumePruningDelaySeconds c, WarmDurationSeconds c]"
    using assms by (simp_all add: config_representable_def)
  note n = decode_elems_nats [OF c(2)]
  show ?thesis
    using c(1,3) n
    by (cases c) (simp add: config_json_def decode_struct_def config_fields_def assign_config_def field_match_def
      decode_slice_def utf8_def o_def)
qed

lemma json_wf_config: "json_wf (config_json c)"
  by (simp add: config_json_def nats_json_def list_all_iff)

lemma read_back:
  "config_representable c \<Longrightarrow> Option.bind (json_parse (json_print (config_json c)))
     (\<lambda>v. decode_struct config_fields assign_config v zero_Config) = Some c"
  by (simp add: json_parse_print [OF json_wf_config] decode_config_json)

text \<open>Decoding yields values of the fields' types.\<close>

lemma decode_string_utf8: "decode_string v old = Some s \<Longrightarrow> json_valid v = v \<Longrightarrow> utf8 old \<Longrightarrow> utf8 s"
  by (cases v) (auto simp: decode_string_def utf8_def)

lemma decode_int_range: "decode_int lo hi v old = Some n \<Longrightarrow> lo \<le> old \<and> old \<le> hi \<Longrightarrow> lo \<le> n \<and> n \<le> hi"
  by (cases v) (auto simp: decode_int_def split: option.splits if_splits)

lemma decode_int64_range: "decode_int64 v old = Some n \<Longrightarrow> is_int64 old \<Longrightarrow> is_int64 n"
  using decode_int_range [of minInt64 maxInt64 v old n] by (simp add: decode_int64_def is_int64_def)

lemma decode_uint16_range: "decode_uint16 v old = Some n \<Longrightarrow> 0 \<le> old \<and> old \<le> 65535 \<Longrightarrow> 0 \<le> n \<and> n \<le> 65535"
  using decode_int_range [of 0 65535 v old n] by (auto simp: decode_uint16_def split: json.splits if_splits)

lemma assign_nats_keeps:
  "assign_nats f v c = Some c' \<Longrightarrow> json_valid v = v \<Longrightarrow> nats_representable c \<Longrightarrow> nats_representable c'"
  by (auto simp: assign_nats_def nats_representable_def dest: decode_string_utf8 decode_uint16_range split: if_splits)

lemma zero_Config_representable: "config_representable zero_Config" and zero_NatsConfig_representable: "nats_representable zero_NatsConfig"
  by (simp_all add: config_representable_def zero_Config_def nats_representable_def zero_NatsConfig_def utf8_def
      is_int64_def minInt64_def maxInt64_def)

lemma assign_config_keeps:
  assumes "assign_config f v c = Some c'" and "json_valid v = v" and "config_representable c"
  shows "config_representable c'"
proof (cases "f = ''nats''")
  case True
  with assms(1) obtain ns where ns: "c' = c\<lparr>Nats := ns\<rparr>"
    "decode_slice zero_NatsConfig (decode_struct nats_fields assign_nats) v (Nats c) = Some ns"
    by (auto simp: assign_config_def)
  have "nats_representable y" if "decode_struct nats_fields assign_nats w x = Some y" "json_valid w = w" "nats_representable x" for w x y
    by (rule decode_struct_keeps [where P = nats_representable, OF that assign_nats_keeps])
  moreover have "list_all nats_representable (Nats c)" using assms(3) by (simp add: config_representable_def)
  ultimately have "list_all nats_representable ns"
    using decode_slice_keeps [where P = nats_representable, OF ns(2) assms(2) _ zero_NatsConfig_representable] by blast
  with ns(1) assms(3) show ?thesis by (simp add: config_representable_def)
next
  case False
  with assms show ?thesis
    by (auto simp: assign_config_def config_representable_def dest: decode_string_utf8 decode_int64_range split: if_splits)
qed

section \<open>Reading URLs back\<close>

fun url_unescape :: "string \<Rightarrow> string option" where
  "url_unescape [] = Some []"
| "url_unescape (c # s) =
     (if c = CHR 0x25
      then (case s of
              a # b # s' \<Rightarrow>
                (case (hex_value a, hex_value b) of
                   (Some m, Some n) \<Rightarrow> map_option (Cons (char_of (16 * m + n))) (url_unescape (drop 2 s))
                 | _ \<Rightarrow> None)
            | _ \<Rightarrow> None)
      else map_option (Cons c) (url_unescape s))"

lemma byte_nibbles: "byte c div 16 < 16" "byte c mod 16 < 16"
  using nat_of_char_less_256 [of c] by (simp_all add: div_less_iff_less_mult)

lemma hex_value_upper: "n < 16 \<Longrightarrow> hex_value (upper_hex_digit n) = Some n"
  by (auto simp: hex_value_def upper_hex_digit_def in_range_def)

lemma url_unescape_escape:
  assumes "\<not> keep (CHR 0x25)"
  shows "url_unescape (url_escape keep s) = Some s"
proof (induction s)
  case (Cons c s)
  have "byte c div 16 < 16" "byte c mod 16 < 16"
    by (fact byte_nibbles)+
  moreover have "char_of (16 * (byte c div 16) + byte c mod 16) = c" by simp
  ultimately show ?case
    using Cons assms
    by (auto simp: url_escape_def escape_char_def hex_value_upper simp del: url_unescape.simps(2))
       (auto simp: url_unescape.simps(2) hex_value_upper)
qed (simp add: url_escape_def)

lemma url_escape_inj:
  assumes "\<not> keep (CHR 0x25)" and "url_escape keep s = url_escape keep t"
  shows "s = t"
proof -
  have "Some s = url_unescape (url_escape keep s)" by (rule sym, rule url_unescape_escape, fact assms(1))
  also have "\<dots> = url_unescape (url_escape keep t)" by (simp only: assms(2))
  also have "\<dots> = Some t" by (rule url_unescape_escape, fact assms(1))
  finally show ?thesis by simp
qed

lemma in_url_escape:
  assumes "\<not> in_range 48 57 x" and "\<not> in_range 65 70 x" and "x \<noteq> CHR 0x25"
  shows "x \<in> set (url_escape keep s) \<longleftrightarrow> keep x \<and> x \<in> set s"
proof -
  have hex: "x \<noteq> upper_hex_digit n" if "n < 16" for n
  proof
    assume x: "x = upper_hex_digit n"
    from that have "in_range 48 57 (upper_hex_digit n) \<or> in_range 65 70 (upper_hex_digit n)"
      by (auto simp: upper_hex_digit_def in_range_def)
    with assms x show False by simp
  qed
  have "x \<in> set (escape_char keep c) \<longleftrightarrow> keep c \<and> x = c" for c
    using assms hex [OF byte_nibbles(1)] hex [OF byte_nibbles(2)] by (auto simp: escape_char_def)
  then show ?thesis by (auto simp: url_escape_def)
qed

lemma split_first:
  "x \<notin> set a \<Longrightarrow> x \<notin> set c \<Longrightarrow> a @ x # b = c @ x # d \<longleftrightarrow> a = c \<and> b = d"
proof (induction a arbitrary: c)
  case Nil
  then show ?case by (cases c) auto
next
  case (Cons y a)
  then show ?case by (cases c) auto
qed

lemma split_last:
  assumes "x \<notin> set b" and "x \<notin> set d"
  shows "a @ x # b = c @ x # d \<longleftrightarrow> a = c \<and> b = d"
proof -
  have "a @ x # b = c @ x # d \<longleftrightarrow> rev b @ x # rev a = rev d @ x # rev c"
    by (subst rev_is_rev_conv [symmetric]) simp
  with assms show ?thesis by (auto simp: split_first)
qed

lemma show_int_inj: "show_int m = show_int n \<Longrightarrow> m = n"
  by (metis parse_int_show_int option.inject)

lemma colon_not_in_show_int: "CHR '':'' \<notin> set (show_int n)" and comma_not_in_show_int: "CHR '','' \<notin> set (show_int n)"
  using num_char_show_int [of n] by (auto simp: list_all_iff num_char_def is_digit_def in_range_def)

lemma keep_percent: "\<not> keep_userinfo (CHR 0x25)" "\<not> keep_host (CHR 0x25)"
  by (simp_all add: keep_userinfo_def keep_host_def alphanumeric_def in_range_def)

lemma not_in_userinfo: "CHR '':'' \<notin> set (url_escape keep_userinfo s)" "CHR ''@'' \<notin> set (url_escape keep_userinfo s)"
  by (simp_all add: in_url_escape in_range_def keep_userinfo_def alphanumeric_def)

lemmas userinfo_inj = url_escape_inj [of keep_userinfo, OF keep_percent(1)]
lemmas host_inj = url_escape_inj [of keep_host, OF keep_percent(2)]

lemma nats_url_inj: "nats_url c = nats_url d \<Longrightarrow> c = d"
  by (cases c; cases d)
     (auto simp: nats_url_def split_first not_in_userinfo split_last colon_not_in_show_int
       dest!: userinfo_inj host_inj show_int_inj)

lemma comma_in_nats_url:
  "CHR '','' \<in> set (nats_url c) \<longleftrightarrow> CHR '','' \<in> set (nc_User c) \<union> set (nc_Pass c) \<union> set (nc_Host c)"
  by (auto simp: nats_url_def in_url_escape in_range_def keep_userinfo_def keep_host_def comma_not_in_show_int)

lemma length_split_at: "length (split_at sep s) = Suc (count_list s sep)"
  by (induction s) (auto split: list.splits)

section \<open>Properties\<close>

lemma split_at_pieces: "p \<in> set (split_at sep s) \<Longrightarrow> sep \<notin> set p"
  by (induction s arbitrary: p) (auto split: if_splits list.splits)

text \<open>
  Reading a configuration of the controller. Given a validator that checks the tags, the JSON of any
  configuration reads back as that configuration when the address, the port and the three certificate
  paths are present, the metron port, the staleness threshold, the pruning interval and the metrics
  interval are at least 1, and the two delays are not negative; otherwise it is refused as invalid.
\<close>

theorem NewConfig_accepts_exactly_valid:
  assumes "validator_checks Validate" and "config_representable c"
  shows "sdc_NewConfig Validate json_error (json_print (config_json c)) =
    (if Address c \<noteq> [] \<and> Port c \<noteq> [] \<and> ServerCert c \<noteq> [] \<and> ServerKey c \<noteq> [] \<and> CACert c \<noteq> [] \<and>
        1 \<le> MetronPort c \<and> 1 \<le> StalenessThresholdSeconds c \<and> 1 \<le> PruningIntervalSeconds c \<and>
        1 \<le> MetricsEmitSeconds c \<and> 0 \<le> ResumePruningDelaySeconds c \<and> 0 \<le> WarmDurationSeconds c
     then Inr c else Inl (''invalid config: '' @ the (Validate (config_rules c))))"
    (is "_ = (if ?valid then _ else _)")
proof -
  have valid: "list_all rule_holds (config_rules c) \<longleftrightarrow> ?valid"
    by (auto simp: config_rules_def)
  have read: "Option.bind (json_parse (json_print (config_json c)))
      (\<lambda>v. decode_struct config_fields assign_config v zero_Config) = Some c"
    using assms(2) by (rule read_back)
  have "Validate (config_rules c) = None \<longleftrightarrow> list_all rule_holds (config_rules c)"
    using assms(1) by (simp add: validator_checks_def)
  then show ?thesis
    unfolding sdc_NewConfig_def read by (auto simp flip: valid split: option.splits)
qed

definition sample_Config :: sdc_Config where
  "sample_Config =
     \<lparr>Address = ''127.0.0.1'', Port = ''8054'',
      Nats = [\<lparr>nc_Host = ''nats'', nc_Port = 4222, nc_User = ''u'', nc_Pass = ''p''\<rparr>],
      Index = ''0'', ServerCert = ''server.crt'', ServerKey = ''server.key'', CACert = ''ca.crt'',
      MetronPort = 3457, LogLevelAddress = ''127.0.0.1'', LogLevelPort = 8055,
      StalenessThresholdSeconds = 600, PruningIntervalSeconds = 60, MetricsEmitSeconds = 10,
      ResumePruningDelaySeconds = 90, WarmDurationSeconds = 60\<rparr>"

definition sample_validator :: validator where
  "sample_validator fs = (if list_all rule_holds fs then None else Some ''rule violated'')"

lemma sample_validator_checks: "validator_checks sample_validator"
  by (simp add: validator_checks_def sample_validator_def)

lemma sample_Config_representable: "config_representable sample_Config"
  by (simp add: config_representable_def sample_Config_def utf8_def nats_representable_def is_int64_def
      minInt64_def maxInt64_def)

theorem NewConfig_accepts_exactly_valid_witness:
  "sdc_NewConfig sample_validator (\<lambda>_. []) (json_print (config_json sample_Config)) = Inr sample_Config \<and>
   sdc_NewConfig sample_validator (\<lambda>_. []) (json_print (config_json (sample_Config\<lparr>MetronPort := 0\<rparr>)))
     = Inl ''invalid config: rule violated''"
proof -
  have zero: "config_representable (sample_Config\<lparr>MetronPort := 0\<rparr>)"
    using sample_Config_representable
    by (simp add: config_representable_def is_int64_def minInt64_def maxInt64_def)
  have "sample_validator (config_rules (sample_Config\<lparr>MetronPort := 0\<rparr>)) = Some ''rule violated''"
    by (simp add: sample_validator_def config_rules_def)
  then show ?thesis
    using NewConfig_accepts_exactly_valid [OF sample_validator_checks sample_Config_representable, of "\<lambda>_. []"]
      NewConfig_accepts_exactly_valid [OF sample_validator_checks zero, of "\<lambda>_. []"]
    by (simp add: sample_Config_def)
qed

text \<open>
  C26: the configurations that are accepted, whatever texts they are read from, are exactly those whose
  fields have the types that the struct declares and the values that its tags ask for: the strings are UTF-8, the ports of the
  NATS servers are 16-bit and the other numbers 64-bit integers, the required strings are not empty
  and the numbers not below their bounds. Every accepted configuration survives being written and read again.
\<close>

theorem accepted_configs_are_typed:
  assumes "validator_checks Validate"
  shows "((\<exists>data. sdc_NewConfig Validate json_error data = Inr c) \<longleftrightarrow>
      config_representable c \<and> list_all rule_holds (config_rules c)) \<and>
    ((\<exists>data. sdc_NewConfig Validate json_error data = Inr c) \<longrightarrow>
      sdc_NewConfig Validate json_error (json_print (config_json c)) = Inr c)"
proof -
  have checked: "Validate (config_rules c) = None \<longleftrightarrow> list_all rule_holds (config_rules c)"
    using assms by (simp add: validator_checks_def)
  have sound: "config_representable c \<and> list_all rule_holds (config_rules c)" if "sdc_NewConfig Validate json_error data = Inr c" for data
  proof -
    from that obtain v where v: "json_parse data = Some v" "decode_struct config_fields assign_config v zero_Config = Some c"
      and "Validate (config_rules c) = None"
      by (auto simp: sdc_NewConfig_def bind_eq_Some_conv split: option.splits)
    moreover have "config_representable c"
      by (rule decode_struct_keeps [where P = config_representable, OF v(2) json_parse_utf8 [OF v(1)] zero_Config_representable
            assign_config_keeps])
    ultimately show ?thesis by (simp add: checked)
  qed
  have reread: "sdc_NewConfig Validate json_error (json_print (config_json c)) = Inr c"
    if "config_representable c \<and> list_all rule_holds (config_rules c)"
    using read_back [of c] that by (simp add: sdc_NewConfig_def flip: checked)
  have "(\<exists>data. sdc_NewConfig Validate json_error data = Inr c) \<longleftrightarrow> config_representable c \<and> list_all rule_holds (config_rules c)"
    using sound reread by auto
  with reread show ?thesis by simp
qed

theorem accepted_configs_are_typed_witness:
  "sdc_NewConfig sample_validator (\<lambda>_. []) (json_print (config_json sample_Config)) = Inr sample_Config \<and>
   (\<nexists>data. sdc_NewConfig sample_validator (\<lambda>_. []) data = Inr (sample_Config\<lparr>LogLevelPort := 9223372036854775808\<rparr>))"
proof -
  have "list_all rule_holds (config_rules sample_Config)" by (simp add: config_rules_def sample_Config_def)
  moreover have "\<not> config_representable (sample_Config\<lparr>LogLevelPort := 9223372036854775808\<rparr>)"
    by (simp add: config_representable_def is_int64_def maxInt64_def)
  ultimately show ?thesis
    using accepted_configs_are_typed [OF sample_validator_checks, of "\<lambda>_. []"] sample_Config_representable by blast
qed

text \<open>
  C33: the NATS client is given the URLs of all servers in one string, separated by commas. Splitting
  that string gives the list of URLs back exactly when no host, user or password contains a comma:
  the encoding of the user information does not escape it.
\<close>

theorem nats_urls_split_iff_no_comma:
  assumes "Nats c \<noteq> []"
  shows "split_at (CHR '','') (join '','' (NatsServers c)) = NatsServers c \<longleftrightarrow>
    (\<forall>s. s \<in> set (Nats c) \<longrightarrow> CHR '','' \<notin> set (nc_User s) \<union> set (nc_Pass s) \<union> set (nc_Host s))"
    (is "?split \<longleftrightarrow> ?free")
proof -
  have free: "?free \<longleftrightarrow> (\<forall>u\<in>set (NatsServers c). CHR '','' \<notin> set u)"
    by (auto simp: NatsServers_def comma_in_nats_url)
  show ?thesis
  proof
    assume ?split
    then have "set (NatsServers c) = set (split_at (CHR '','') (join '','' (NatsServers c)))" by simp
    then show ?free unfolding free by (blast dest: split_at_pieces)
  next
    assume ?free
    moreover from assms have "NatsServers c \<noteq> []" by (simp add: NatsServers_def)
    ultimately show ?split unfolding free by (rule split_at_join [rotated])
  qed
qed

theorem nats_urls_split_iff_no_comma_witness:
  "split_at (CHR '','') (join '','' (NatsServers sample_Config)) = NatsServers sample_Config \<and>
   split_at (CHR '','') (join '','' (NatsServers (sample_Config\<lparr>Nats :=
      [\<lparr>nc_Host = ''nats'', nc_Port = 4222, nc_User = ''u'', nc_Pass = ''a,b''\<rparr>]\<rparr>)))
    \<noteq> NatsServers (sample_Config\<lparr>Nats :=
      [\<lparr>nc_Host = ''nats'', nc_Port = 4222, nc_User = ''u'', nc_Pass = ''a,b''\<rparr>]\<rparr>)"
  using nats_urls_split_iff_no_comma [of sample_Config]
    nats_urls_split_iff_no_comma [of "sample_Config\<lparr>Nats :=
      [\<lparr>nc_Host = ''nats'', nc_Port = 4222, nc_User = ''u'', nc_Pass = ''a,b''\<rparr>]\<rparr>"]
  by (simp add: sample_Config_def)

text \<open>
  The URLs determine the servers: host, port, user and password can all be read back from them,
  whatever characters they contain.
\<close>

theorem nats_urls_determine_servers:
  "NatsServers c = NatsServers d \<longleftrightarrow> Nats c = Nats d"
proof
  assume "NatsServers c = NatsServers d"
  then show "Nats c = Nats d"
    unfolding NatsServers_def by (rule list.inj_map_strong [rotated]) (rule nats_url_inj)
qed (simp add: NatsServers_def)

text \<open>
  A configuration of the adapter that is accepted names its own address and port, those of the
  controller, the client certificate and key, the CA and the log-level endpoint, and has positive ports
  and metrics interval; a document that is not such an object is refused with an error.
\<close>

theorem adapter_NewConfig_sound:
  assumes "validator_checks Validate"
  shows "case adapter_NewConfig Validate json_error data of
      Inr c \<Rightarrow> (\<exists>v. json_parse data = Some v \<and>
          decode_struct adapter_fields assign_adapter v zero_adapter_Config = Some c) \<and>
        [] \<notin> set [ac_Address c, ac_Port c, ServiceDiscoveryControllerAddress c, ServiceDiscoveryControllerPort c,
          ClientCert c, ClientKey c, ac_CACert c, ac_LogLevelAddress c] \<and>
        1 \<le> ac_MetronPort c \<and> 1 \<le> ac_MetricsEmitSeconds c \<and> 1 \<le> ac_LogLevelPort c
    | Inl err \<Rightarrow> (case Option.bind (json_parse data)
          (\<lambda>v. decode_struct adapter_fields assign_adapter v zero_adapter_Config) of
          None \<Rightarrow> err = json_error data
        | Some c \<Rightarrow> \<not> list_all rule_holds (adapter_rules c))"
proof -
  have checked: "Validate (adapter_rules c) = None \<longleftrightarrow> list_all rule_holds (adapter_rules c)" for c
    using assms by (simp add: validator_checks_def)
  have rules: "list_all rule_holds (adapter_rules c) \<longleftrightarrow>
      [] \<notin> set [ac_Address c, ac_Port c, ServiceDiscoveryControllerAddress c, ServiceDiscoveryControllerPort c,
        ClientCert c, ClientKey c, ac_CACert c, ac_LogLevelAddress c] \<and>
      1 \<le> ac_MetronPort c \<and> 1 \<le> ac_MetricsEmitSeconds c \<and> 1 \<le> ac_LogLevelPort c" for c
    by (auto simp: adapter_rules_def)
  show ?thesis
    unfolding adapter_NewConfig_def
    by (auto simp: bind_eq_Some_conv checked rules [symmetric] simp del: list.set
        split: option.splits) (metis checked option.distinct(1))+
qed

theorem adapter_NewConfig_sound_witness:
  "adapter_NewConfig sample_validator (\<lambda>_. ''syntax error'') ''{not json'' = Inl ''syntax error'' \<and>
   (\<exists>err. adapter_NewConfig sample_validator (\<lambda>_. ''syntax error'') ''{}'' = Inl err)"
proof -
  have "json_parse ''{not json'' = None" by code_simp
  moreover have "json_parse ''{}'' = Some (JObj [])" by code_simp
  ultimately show ?thesis
    using adapter_NewConfig_sound [OF sample_validator_checks, of "\<lambda>_. ''syntax error''" "''{not json''"]
      adapter_NewConfig_sound [OF sample_validator_checks, of "\<lambda>_. ''syntax error''" "''{}''"]
    by (auto simp: decode_struct_def zero_adapter_Config_def split: sum.splits)
qed

end
