(* ===== verification/Go_Http.thy ===== *)
theory Go_Http
  imports Go_Json
begin

text \<open>
  What the servers of the program use of the packages \<open>net/http\<close> and \<open>path\<close>: a response writer, error
  responses, the last element of a path, and the request multiplexer.
\<close>

section \<open>Responses\<close>

text \<open>
  The status is fixed by the first \<open>WriteHeader\<close>, or as 200 by the first \<open>Write\<close>. When the connection to
  the client is broken (\<open>rw_error\<close>), \<open>Write\<close> returns an error and nothing arrives.
\<close>

record ResponseWriter =
  rw_status :: "int option"
  rw_body :: string
  rw_error :: "go_error option"

definition new_response :: "go_error option \<Rightarrow> ResponseWriter" where
  "new_response e = \<lparr>rw_status = None, rw_body = [], rw_error = e\<rparr>"

definition WriteHeader :: "int \<Rightarrow> ResponseWriter \<Rightarrow> ResponseWriter" where
  "WriteHeader code rw = (if rw_status rw = None then rw\<lparr>rw_status := Some code\<rparr> else rw)"

definition Write :: "string \<Rightarrow> ResponseWriter \<Rightarrow> go_error option \<times> ResponseWriter" where
  "Write data rw =
     (let rw1 = WriteHeader 200 rw
      in case rw_error rw of
           None \<Rightarrow> (None, rw1\<lparr>rw_body := rw_body rw1 @ data\<rparr>)
         | Some e \<Rightarrow> (Some e, rw1))"

text \<open>\<open>http.Error\<close> ends the message with a newline.\<close>

definition http_Error :: "string \<Rightarrow> int \<Rightarrow> ResponseWriter \<Rightarrow> ResponseWriter" where
  "http_Error msg code rw = snd (Write (msg @ [CHR 0x0A]) (WriteHeader code rw))"

text \<open>What the client receives once the handler has returned.\<close>

definition response :: "ResponseWriter \<Rightarrow> int \<times> string" where
  "response rw = (case rw_status rw of None \<Rightarrow> 200 | Some c \<Rightarrow> c, rw_body rw)"

lemma response_Write:
  "response (snd (Write data (new_response None))) = (200, data)"
  "response (snd (Write data (WriteHeader code (new_response None)))) = (code, data)"
  by (simp_all add: response_def Write_def WriteHeader_def new_response_def)

lemma response_Error: "response (http_Error msg code (new_response None)) = (code, msg @ [CHR 0x0A])"
  by (simp add: http_Error_def response_Write)

text \<open>A response that a client received: its status and what reading its body gives.\<close>

record http_Response =
  StatusCode :: int
  Body :: "go_error + string"

section \<open>Files and certificates\<close>

text \<open>
  What reading a file, adding PEM certificates to an empty pool, and loading a key pair return: the
  file system and the certificate libraries are arguments of what uses them.
\<close>

record ('cert, 'pool) cert_env =
  ReadFile :: "string \<Rightarrow> go_error + string"
  AppendCertsFromPEM :: "string \<Rightarrow> bool \<times> 'pool"
  LoadX509KeyPair :: "string \<Rightarrow> string \<Rightarrow> go_error + 'cert"

section \<open>Paths\<close>

fun split_path :: "string \<Rightarrow> string list" where
  "split_path [] = [[]]"
| "split_path (c # s) =
     (if c = CHR ''/'' then [] # split_path s
      else (case split_path s of [] \<Rightarrow> [[c]] | p # ps \<Rightarrow> (c # p) # ps))"

text \<open>\<open>path.Base\<close>: trailing slashes are removed, then what follows the last slash is returned.\<close>

definition strip_slashes :: "string \<Rightarrow> string" where
  "strip_slashes p = rev (dropWhile (\<lambda>c. c = CHR ''/'') (rev p))"

definition after_last_slash :: "string \<Rightarrow> string" where
  "after_last_slash p = rev (takeWhile (\<lambda>c. c \<noteq> CHR ''/'') (rev p))"

definition path_Base :: "string \<Rightarrow> string" where
  "path_Base p =
     (if p = [] then ''.''
      else let q = after_last_slash (strip_slashes p) in if q = [] then ''/'' else q)"

text \<open>
  \<open>path.Clean\<close> on a rooted path, by elements: empty ones and \<open>.\<close> are dropped, \<open>..\<close> removes the
  element before it.
\<close>

definition clean_element :: "string \<Rightarrow> string list \<Rightarrow> string list" where
  "clean_element e out =
     (if e = [] \<or> e = ''.'' then out else if e = ''..'' then butlast out else out @ [e])"

definition path_Clean :: "string \<Rightarrow> string" where
  "path_Clean p = ''/'' @ join ''/'' (fold clean_element (split_path p) [])"

definition cleanPath :: "string \<Rightarrow> string" where
  "cleanPath p =
     (if p = [] then ''/''
      else let p' = (if hd p = CHR ''/'' then p else CHR ''/'' # p); np = path_Clean p'
           in if last p' = CHR ''/'' \<and> np \<noteq> ''/'' then np @ ''/'' else np)"

section \<open>The multiplexer\<close>

text \<open>
  A pattern that ends in a slash matches every path it is a prefix of, any other one only itself; the
  longest match wins. A path that is not clean is redirected to the clean one, and the path of a
  subtree without its final slash to the subtree (methods other than \<open>CONNECT\<close>).
\<close>

datatype 'h mux_result = MuxHandler 'h | MuxRedirect string | MuxNotFound

definition has_prefix :: "string \<Rightarrow> string \<Rightarrow> bool" where
  "has_prefix p s \<longleftrightarrow> take (length p) s = p"

definition pathMatch :: "string \<Rightarrow> string \<Rightarrow> bool" where
  "pathMatch pattern path =
     (if pattern = [] then False
      else if last pattern \<noteq> CHR ''/'' then pattern = path else has_prefix pattern path)"

fun longest_match :: "(string \<times> 'h) list \<Rightarrow> string \<Rightarrow> (string \<times> 'h) option" where
  "longest_match [] path = None"
| "longest_match ((k, h) # ms) path =
     (case longest_match ms path of
        None \<Rightarrow> if pathMatch k path then Some (k, h) else None
      | Some (k', h') \<Rightarrow> if pathMatch k path \<and> length k' < length k then Some (k, h) else Some (k', h'))"

definition mux_Handler :: "(string \<times> 'h) list \<Rightarrow> string \<Rightarrow> 'h mux_result" where
  "mux_Handler ms path =
     (if cleanPath path \<noteq> path then MuxRedirect (cleanPath path)
      else if path \<notin> fst ` set ms \<and> path @ ''/'' \<in> fst ` set ms then MuxRedirect (path @ ''/'')
      else case longest_match ms path of Some (k, h) \<Rightarrow> MuxHandler h | None \<Rightarrow> MuxNotFound)"

section \<open>Paths with one element at the end\<close>

text \<open>An element a client can name without the path being rewritten.\<close>

definition path_element :: "string \<Rightarrow> bool" where
  "path_element e \<longleftrightarrow> e \<noteq> [] \<and> e \<noteq> ''.'' \<and> e \<noteq> ''..'' \<and> CHR ''/'' \<notin> set e"

lemma path_Base_append: "path_element e \<Longrightarrow> path_Base (p @ CHR ''/'' # e) = e"
  by (cases e rule: rev_cases)
     (auto simp: path_element_def path_Base_def strip_slashes_def after_last_slash_def takeWhile_append)

lemma split_path_not_Nil [simp]: "split_path s \<noteq> []"
  by (cases s) (auto split: list.splits)

lemma split_path_element: "CHR ''/'' \<notin> set e \<Longrightarrow> split_path e = [e]"
  by (induction e) auto

lemma split_path_append: "split_path (p @ CHR ''/'' # s) = split_path p @ split_path s"
proof (induction p)
  case (Cons c p)
  then show ?case by (cases "split_path p") auto
qed simp

lemma cleanPath_subtree:
  assumes "path_element e" and "path_element d1" and "path_element d2"
  shows "cleanPath (CHR ''/'' # d1 @ CHR ''/'' # d2 @ CHR ''/'' # e) = CHR ''/'' # d1 @ CHR ''/'' # d2 @ CHR ''/'' # e"
proof -
  have e: "e \<noteq> []" "CHR ''/'' \<notin> set e" using assms(1) by (simp_all add: path_element_def)
  then have "last e \<noteq> CHR ''/''" using last_in_set by metis
  moreover have "split_path (CHR ''/'' # d1 @ CHR ''/'' # d2 @ CHR ''/'' # e) = [[], d1, d2, e]"
    using assms by (simp add: split_path_append split_path_element path_element_def)
  ultimately show ?thesis
    using assms e(1) by (simp add: cleanPath_def path_Clean_def clean_element_def path_element_def join_Cons2)
qed

end
