(* ===== verification/Routes_Server.thy ===== *)
theory Routes_Server
  imports Address_Table Configs Go_Http Metrics_Recorders
begin

text \<open>
  Model of \<open>service-discovery-controller/routes/server.go\<close>: the HTTP server of the controller, with the
  registration handler that answers lookups, the handler that lists all routes, the paths they are
  registered under, and the life of the server. The TLS libraries and the metrics middleware are not
  part of the repository and are arguments of the definitions that use them.
\<close>

section \<open>Slices\<close>

text \<open>A slice that is not nil has elements and a capacity that may be larger.\<close>

datatype 'a slice = NilSlice | Slice "'a list" nat

fun slice_elems :: "'a slice \<Rightarrow> 'a list" where
  "slice_elems NilSlice = []"
| "slice_elems (Slice xs c) = xs"

fun slice_cap :: "'a slice \<Rightarrow> nat" where
  "slice_cap NilSlice = 0"
| "slice_cap (Slice xs c) = c"

text \<open>\<open>make([]T, n)\<close>, filled with \<open>n\<close> elements: the capacity is the length.\<close>

definition make_slice :: "'a list \<Rightarrow> 'a slice" where
  "make_slice xs = Slice xs (length xs)"

lemma make_slice_simps [simp]: "slice_elems (make_slice xs) = xs" "slice_cap (make_slice xs) = length xs"
  by (simp_all add: make_slice_def)

section \<open>Data\<close>

record host =
  IPAddress :: string
  LastCheckIn :: string
  host_Port :: int
  Revision :: string
  host_Service :: string
  ServiceRepoName :: string
  Tags :: "(string \<times> json) list option"

record registration =
  Hosts :: "host list"
  Env :: string
  reg_Service :: string

record address =
  Hostname :: string
  Ips :: "string slice"

record routes =
  Addresses :: "address list"

definition zero_host :: host where
  "zero_host = \<lparr>IPAddress = [], LastCheckIn = [], host_Port = 0, Revision = [], host_Service = [],
     ServiceRepoName = [], Tags = None\<rparr>"

definition host_json :: "host \<Rightarrow> json" where
  "host_json h = JObj
     [(''ip_address'', JStr (IPAddress h)), (''last_check_in'', JStr (LastCheckIn h)),
      (''port'', JInt (host_Port h)), (''revision'', JStr (Revision h)), (''service'', JStr (host_Service h)),
      (''service_repo_name'', JStr (ServiceRepoName h)),
      (''tags'', case Tags h of None \<Rightarrow> JNull | Some ms \<Rightarrow> JObj ms)]"

definition registration_json :: "registration \<Rightarrow> json" where
  "registration_json r = JObj
     [(''hosts'', JArr (map host_json (Hosts r))), (''env'', JStr (Env r)), (''service'', JStr (reg_Service r))]"

definition address_json :: "address \<Rightarrow> json" where
  "address_json a = JObj
     [(''hostname'', JStr (Hostname a)),
      (''ips'', case Ips a of NilSlice \<Rightarrow> JNull | Slice xs _ \<Rightarrow> JArr (map JStr xs))]"

definition routes_json :: "routes \<Rightarrow> json" where
  "routes_json r = JObj [(''addresses'', JArr (map address_json (Addresses r)))]"

text \<open>
  The interface \<open>routes.AddressTable\<close>. The order in which \<open>GetAllAddresses\<close> visits the table is its
  first argument.
\<close>

record 't routes_AddressTable =
  rt_Lookup :: "'t \<Rightarrow> string \<Rightarrow> string slice"
  rt_GetAllAddresses :: "string list \<Rightarrow> 't \<Rightarrow> (string \<rightharpoonup> string slice)"
  rt_IsWarm :: "'t \<Rightarrow> bool"

record 't Server =
  srv_config :: sdc_Config
  srv_table :: 't
  srv_recorder :: routes_MetricsRecorder
  srv_durations :: "(string \<times> duration) list"
  srv_clock :: clock

definition NewServer :: "'t \<Rightarrow> sdc_Config \<Rightarrow> routes_MetricsRecorder \<Rightarrow> clock \<Rightarrow> 't Server" where
  "NewServer t conf rec c =
     \<lparr>srv_config = conf, srv_table = t, srv_recorder = rec, srv_durations = [], srv_clock = c\<rparr>"

section \<open>Handlers\<close>

text \<open>
  The loop that fills \<open>hosts\<close>, which has \<open>cap(ips)\<close> elements; the index stays below that because the
  length of a slice does not exceed its capacity.
\<close>

fun fill_hosts :: "nat \<Rightarrow> string list \<Rightarrow> host list \<Rightarrow> host list" where
  "fill_hosts index [] hosts = hosts"
| "fill_hosts index (ip # ips) hosts =
     fill_hosts (Suc index) ips (hosts[index := zero_host\<lparr>IPAddress := ip, Tags := Some []\<rparr>])"

definition handleRegistrationRequest ::
    "'t routes_AddressTable \<Rightarrow> string \<Rightarrow> ResponseWriter \<times> 't Server \<Rightarrow> ResponseWriter \<times> 't Server" where
  "handleRegistrationRequest T path = (\<lambda>(resp, s).
     let serviceKey = path_Base path;
         isWarm = rt_IsWarm T (srv_table s)
     in if \<not> isWarm then (http_Error ''address table is not warm'' 500 resp, s)
        else let (lookupStartTime, c1) = clock_Now (srv_clock s);
                 ips = rt_Lookup T (srv_table s) serviceKey;
                 (now, c2) = clock_Now c1;
                 lookupDuration = time_Sub now lookupStartTime;
                 s1 = s\<lparr>srv_clock := c2,
                        srv_durations := srv_durations s @ [(''addressTableLookupTime'', lookupDuration)]\<rparr>;
                 hosts = fill_hosts 0 (slice_elems ips) (replicate (slice_cap ips) zero_host)
             in case json_Marshal (registration_json \<lparr>Hosts = hosts, Env = [], reg_Service = []\<rparr>) of
                  Inl err \<Rightarrow> (http_Error err 500 resp, s1)
                | Inr json \<Rightarrow> (snd (Write json resp), s1\<lparr>srv_recorder := RecordRequest (srv_recorder s1)\<rparr>))"

text \<open>The loop of the routes handler over the returned map; \<open>ks\<close> is the order of its keys.\<close>

fun collect_addresses :: "string list \<Rightarrow> (string \<rightharpoonup> string slice) \<Rightarrow> address list \<Rightarrow> address list" where
  "collect_addresses [] m acc = acc"
| "collect_addresses (k # ks) m acc =
     (case m k of None \<Rightarrow> collect_addresses ks m acc
      | Some availableAddress \<Rightarrow> collect_addresses ks m (acc @ [\<lparr>Hostname = k, Ips = availableAddress\<rparr>]))"

definition handleRoutesRequest ::
    "'t routes_AddressTable \<Rightarrow> string list \<Rightarrow> string list \<Rightarrow> string \<Rightarrow>
     ResponseWriter \<times> 't Server \<Rightarrow> ResponseWriter \<times> 't Server" where
  "handleRoutesRequest T table_order ks path = (\<lambda>(resp, s).
     let availableAddresses = rt_GetAllAddresses T table_order (srv_table s);
         addresses = collect_addresses ks availableAddresses []
     in case json_Marshal (routes_json \<lparr>Addresses = addresses\<rparr>) of
          Inl err \<Rightarrow> (http_Error err 500 resp, s)
        | Inr json \<Rightarrow> (snd (Write json resp), s))"

section \<open>The server\<close>

datatype route = RegistrationRoute | RoutesRoute

definition server_mux :: "(string \<times> route) list" where
  "server_mux = [(''/v1/registration/'', RegistrationRoute), (''/routes'', RoutesRoute)]"

datatype 's served = Served 's | Redirected string | NotFound

text \<open>
  One request. The registration handler runs inside the metrics middleware \<open>wrap\<close>; the middleware is
  transparent when it leaves the response and the server as the handler does.
\<close>

type_synonym 't http_handler = "string \<Rightarrow> ResponseWriter \<times> 't Server \<Rightarrow> ResponseWriter \<times> 't Server"

definition transparent :: "(string \<Rightarrow> 't http_handler \<Rightarrow> 't http_handler) \<Rightarrow> bool" where
  "transparent wrap \<longleftrightarrow> (\<forall>name h. wrap name h = h)"

definition serve ::
    "(string \<Rightarrow> 't http_handler \<Rightarrow> 't http_handler) \<Rightarrow> 't routes_AddressTable \<Rightarrow> string list \<Rightarrow> string list \<Rightarrow>
     string \<Rightarrow> ResponseWriter \<times> 't Server \<Rightarrow> (ResponseWriter \<times> 't Server) served" where
  "serve wrap T table_order ks path st =
     (case mux_Handler server_mux path of
        MuxHandler RegistrationRoute \<Rightarrow> Served (wrap ''Registration'' (handleRegistrationRequest T) path st)
      | MuxHandler RoutesRoute \<Rightarrow> Served (handleRoutesRequest T table_order ks path st)
      | MuxRedirect p \<Rightarrow> Redirected p
      | MuxNotFound \<Rightarrow> NotFound)"

text \<open>
  The TLS configuration: what building it from a certificate and a CA pool returns is an argument
  too, besides the reading of the files. A CA file without a certificate gives an empty pool:
  \<open>AppendCertsFromPEM\<close> reports it but its result is not looked at.
\<close>

record ('cert, 'pool, 'tls) tls_env = "('cert, 'pool) cert_env" +
  server_tls :: "'cert \<Rightarrow> 'pool \<Rightarrow> 'tls"

definition buildTLSServerConfig :: "('cert, 'pool, 'tls) tls_env \<Rightarrow> sdc_Config \<Rightarrow> go_error + 'tls" where
  "buildTLSServerConfig env conf =
     (case ReadFile env (CACert conf) of
        Inl err \<Rightarrow> Inl err
      | Inr caCert \<Rightarrow>
          let caCertPool = snd (AppendCertsFromPEM env caCert)
          in case LoadX509KeyPair env (ServerCert conf) (ServerKey conf) of
               Inl err \<Rightarrow> Inl err
             | Inr cert \<Rightarrow> Inr (server_tls env cert caCertPool))"

text \<open>What ends the server: the listener returns an error, or a signal arrives.\<close>

datatype server_event = Exited go_error | Signalled

record 'tls server_run =
  run_error :: "go_error option"
  run_ready :: bool
  run_listening :: "(string \<times> 'tls) option"
  run_closed :: bool

definition Server_Run :: "('cert, 'pool, 'tls) tls_env \<Rightarrow> server_event \<Rightarrow> 't Server \<Rightarrow> 'tls server_run" where
  "Server_Run env ev s =
     (case buildTLSServerConfig env (srv_config s) of
        Inl err \<Rightarrow> \<lparr>run_error = Some err, run_ready = False, run_listening = None, run_closed = False\<rparr>
      | Inr tlsConfig \<Rightarrow>
          \<lparr>run_error = (case ev of Exited err \<Rightarrow> Some err | Signalled \<Rightarrow> None), run_ready = True,
           run_listening = Some (Address (srv_config s) @ '':'' @ Port (srv_config s), tlsConfig),
           run_closed = True\<rparr>)"

section \<open>The table behind the server\<close>

definition routes_interface :: "AddressTable routes_AddressTable" where
  "routes_interface =
     \<lparr>rt_Lookup = (\<lambda>t h. make_slice (Lookup t h)),
      rt_GetAllAddresses = (\<lambda>ks t h. map_option make_slice (GetAllAddresses ks t h)),
      rt_IsWarm = IsWarm\<rparr>"

lemma fill_hosts_eq:
  "length hosts = index + length ips + k \<Longrightarrow>
     fill_hosts index ips hosts =
       take index hosts @ map (\<lambda>ip. zero_host\<lparr>IPAddress := ip, Tags := Some []\<rparr>) ips @ drop (index + length ips) hosts"
proof (induction ips arbitrary: index hosts)
  case (Cons ip ips)
  let ?h = "zero_host\<lparr>IPAddress := ip, Tags := Some []\<rparr>"
  from Cons.prems have "length (hosts[index := ?h]) = Suc index + length ips + k" by simp
  from Cons.IH [OF this] Cons.prems show ?case
    by (simp add: take_Suc_conv_app_nth)
qed simp

lemma collect_addresses_eq:
  "set ks \<subseteq> dom m \<Longrightarrow>
     collect_addresses ks m acc = acc @ map (\<lambda>k. \<lparr>Hostname = k, Ips = the (m k)\<rparr>) ks"
  by (induction ks arbitrary: acc) auto

section \<open>Contract of the table\<close>

text \<open>
  What the server relies on: a lookup returns a slice without spare capacity, and the listing has
  exactly the keys of the table, each with what a lookup of it returns.
\<close>

locale routes_table =
  fixes T :: "'t routes_AddressTable"
    and lookup :: "'t \<Rightarrow> string \<Rightarrow> string list"
    and keys :: "'t \<Rightarrow> string set"
    and inv :: "'t \<Rightarrow> bool"
  assumes lookup_slice: "rt_Lookup T t h = make_slice (lookup t h)"
    and listing: "inv t \<Longrightarrow> distinct ks \<Longrightarrow> set ks = keys t \<Longrightarrow>
      rt_GetAllAddresses T ks t h = (if h \<in> keys t then Some (make_slice (lookup t h)) else None)"
begin

lemma registration_hosts:
  "fill_hosts 0 (slice_elems (rt_Lookup T t h)) (replicate (slice_cap (rt_Lookup T t h)) zero_host)
     = map (\<lambda>ip. zero_host\<lparr>IPAddress := ip, Tags := Some []\<rparr>) (lookup t h)"
  by (simp add: lookup_slice fill_hosts_eq [where k = 0])

lemma registration_answer:
  assumes "rt_IsWarm T (srv_table s)"
  shows "response (fst (handleRegistrationRequest T path (new_response None, s))) =
      (200, json_print (registration_json
         \<lparr>Hosts = map (\<lambda>ip. zero_host\<lparr>IPAddress := ip, Tags := Some []\<rparr>) (lookup (srv_table s) (path_Base path)),
          Env = [], reg_Service = []\<rparr>))"
    and "snd (handleRegistrationRequest T path (new_response None, s)) =
      s\<lparr>srv_clock := clock_drop 2 (srv_clock s),
        srv_durations := srv_durations s @
          [(''addressTableLookupTime'', time_Sub (srv_clock s 1) (srv_clock s 0))],
        srv_recorder := RecordRequest (srv_recorder s)\<rparr>"
  using assms
  by (simp_all add: handleRegistrationRequest_def registration_hosts json_Marshal_def response_Write
      clock_Now_def Let_def clock_rest_eq_drop numeral_2_eq_2)

lemma routes_answer:
  assumes "inv (srv_table s)" and "distinct order" and "set order = keys (srv_table s)"
    and "distinct ks" and "set ks = keys (srv_table s)"
  shows "handleRoutesRequest T order ks path (new_response None, s) =
     (snd (Write (json_print (JObj [(''addresses'', JArr (map (\<lambda>h. JObj [(''hostname'', JStr h),
        (''ips'', JArr (map JStr (lookup (srv_table s) h)))]) ks))])) (new_response None)), s)"
proof -
  let ?m = "rt_GetAllAddresses T order (srv_table s)"
  have m: "?m = (\<lambda>h. if h \<in> keys (srv_table s) then Some (make_slice (lookup (srv_table s) h)) else None)"
    using listing [OF assms(1-3)] by (rule ext)
  then have "set ks \<subseteq> dom ?m" using assms(5) by auto
  from collect_addresses_eq [OF this, of "[]"]
  have "collect_addresses ks ?m [] = map (\<lambda>k. \<lparr>Hostname = k, Ips = make_slice (lookup (srv_table s) k)\<rparr>) ks"
    unfolding m using assms(5) by auto
  then show ?thesis
    by (simp add: handleRoutesRequest_def json_Marshal_def routes_json_def address_json_def make_slice_def o_def)
qed

end

interpretation sdc_routes: routes_table routes_interface Lookup "\<lambda>t. dom (addresses t)" wf_table
proof
  show "rt_Lookup routes_interface t h = make_slice (Lookup t h)" for t h
    by (simp add: routes_interface_def)
  show "rt_GetAllAddresses routes_interface ks t h =
      (if h \<in> dom (addresses t) then Some (make_slice (Lookup t h)) else None)"
    if "wf_table t" "distinct ks" "set ks = dom (addresses t)" for t ks h
    using that
    by (auto simp: routes_interface_def GetAllAddresses_eq range_order_def Lookup_def entriesForHostname_def
        wf_table_def)
qed

lemma server_mux_registration:
  assumes "path_element name"
  shows "mux_Handler server_mux (''/v1/registration/'' @ name) = MuxHandler RegistrationRoute"
proof -
  have "cleanPath (''/v1/registration/'' @ name) = ''/v1/registration/'' @ name"
    using cleanPath_subtree [OF assms, of "''v1''" "''registration''"] by (simp add: path_element_def)
  then show ?thesis
    by (simp add: mux_Handler_def server_mux_def pathMatch_def has_prefix_def)
qed

lemma path_Base_registration: "path_element name \<Longrightarrow> path_Base (''/v1/registration/'' @ name) = name"
  using path_Base_append [of name "''/v1/registration''"] by simp

lemma serve_registration:
  assumes "path_element name" and "transparent wrap"
  shows "serve wrap T order ks (''/v1/registration/'' @ name) st
     = Served (handleRegistrationRequest T (''/v1/registration/'' @ name) st)"
  using assms(2) unfolding serve_def server_mux_registration [OF assms(1)] by (simp add: transparent_def)

text \<open>The registration handler on the table of the controller.\<close>

lemma handleRegistrationRequest_table:
  "response (fst (handleRegistrationRequest routes_interface path (new_response None, s))) =
     (if warm (srv_table s)
      then (200, json_print (JObj
             [(''hosts'', JArr (map (\<lambda>ip. JObj
                  [(''ip_address'', JStr ip), (''last_check_in'', JStr []), (''port'', JInt 0), (''revision'', JStr []),
                   (''service'', JStr []), (''service_repo_name'', JStr []), (''tags'', JObj [])])
                (Lookup (srv_table s) (path_Base path)))),
              (''env'', JStr []), (''service'', JStr [])]))
      else (500, ''address table is not warm'' @ [CHR 0x0A]))" (is ?answer)
  "snd (handleRegistrationRequest routes_interface path (new_response None, s)) =
     (if warm (srv_table s)
      then s\<lparr>srv_clock := clock_drop 2 (srv_clock s),
             srv_durations := srv_durations s @
               [(''addressTableLookupTime'', time_Sub (srv_clock s 1) (srv_clock s 0))],
             srv_recorder := RecordRequest (srv_recorder s)\<rparr>
      else s)" (is ?server)
proof -
  have warm: "rt_IsWarm routes_interface (srv_table s) \<longleftrightarrow> warm (srv_table s)"
    by (simp add: routes_interface_def IsWarm_def)
  show ?answer
    using sdc_routes.registration_answer(1) [of s path]
    by (simp add: warm registration_json_def host_json_def zero_host_def o_def)
       (simp add: handleRegistrationRequest_def warm response_Error)
  show ?server
    using sdc_routes.registration_answer(2) [of s path]
    by (simp add: warm) (simp add: handleRegistrationRequest_def warm)
qed

section \<open>Properties\<close>

text \<open>
  C13: a request for \<open>/v1/registration/<name>\<close>. While the table is not warm it is refused with status 500
  and nothing is counted. Once it is warm the answer is 200 with one host per IP that \<open>Lookup\<close> returns
  for the name, in that order and no more, each host with the IP, zero values and an empty tag map;
  the request is counted and the lookup time is sent. The table does not change.
\<close>

theorem registration_request_answers_lookup:
  assumes "path_element name" and "transparent wrap"
  shows "\<exists>rw s'. serve wrap routes_interface order ks (''/v1/registration/'' @ name) (new_response None, s)
            = Served (rw, s') \<and>
     (if warm (srv_table s)
      then response rw = (200, json_print (JObj
             [(''hosts'', JArr (map (\<lambda>ip. JObj
                  [(''ip_address'', JStr ip), (''last_check_in'', JStr []), (''port'', JInt 0), (''revision'', JStr []),
                   (''service'', JStr []), (''service_repo_name'', JStr []), (''tags'', JObj [])])
                (Lookup (srv_table s) name))),
              (''env'', JStr []), (''service'', JStr [])])) \<and>
           s' = s\<lparr>srv_clock := clock_drop 2 (srv_clock s),
                  srv_durations := srv_durations s @
                    [(''addressTableLookupTime'', time_Sub (srv_clock s 1) (srv_clock s 0))],
                  srv_recorder := RecordRequest (srv_recorder s)\<rparr>
      else response rw = (500, ''address table is not warm'' @ [CHR 0x0A]) \<and> s' = s)"
    (is "\<exists>rw s'. _ \<and> ?answer rw s'")
proof -
  let ?st = "handleRegistrationRequest routes_interface (''/v1/registration/'' @ name) (new_response None, s)"
  have "serve wrap routes_interface order ks (''/v1/registration/'' @ name) (new_response None, s)
      = Served (fst ?st, snd ?st)"
    unfolding serve_registration [OF assms] by (simp only: prod.collapse)
  then show ?thesis
    using handleRegistrationRequest_table [of "''/v1/registration/'' @ name" s]
    unfolding path_Base_registration [OF assms(1)] by (intro exI conjI) (assumption, cases "warm (srv_table s)", simp_all)
qed

theorem registration_request_answers_lookup_witness:
  "\<exists>rw s'. serve (\<lambda>_ h. h) routes_interface [] [] ''/v1/registration/app.apps.internal''
       (new_response None, NewServer (SetWarm (Add [''app.apps.internal''] ''10.0.0.1'' (new_table 120 30 int)))
          sample_Config \<lparr>requestCount = 0\<rparr> int) = Served (rw, s') \<and>
     response rw = (200, json_print (JObj
       [(''hosts'', JArr [JObj
            [(''ip_address'', JStr ''10.0.0.1''), (''last_check_in'', JStr []), (''port'', JInt 0), (''revision'', JStr []),
             (''service'', JStr []), (''service_repo_name'', JStr []), (''tags'', JObj [])]]),
        (''env'', JStr []), (''service'', JStr [])])) \<and> requestCount (srv_recorder s') = 1"
proof -
  let ?t = "SetWarm (Add [''app.apps.internal''] ''10.0.0.1'' (new_table 120 30 int))"
  let ?s = "NewServer ?t sample_Config \<lparr>requestCount = 0\<rparr> int"
  have e: "path_element ''app.apps.internal''" by (simp add: path_element_def)
  have tr: "transparent (\<lambda>_ h. h)" by (simp add: transparent_def)
  have "Lookup (Add [''app.apps.internal''] ''10.0.0.1'' (new_table 120 30 int)) ''app.apps.internal''
      = [''10.0.0.1'']"
    by (simp add: Lookup_Add wf_table_New)
  then have "Lookup ?t ''app.apps.internal'' = [''10.0.0.1'']"
    by (simp add: Lookup_def entriesForHostname_def table_simps)
  with registration_request_answers_lookup [OF e tr, of "[]" "[]" ?s] show ?thesis
    by (auto simp: NewServer_def table_simps RecordRequest_def is_int64_def minInt64_def maxInt64_def)
qed

text \<open>
  C18: a request for \<open>/routes\<close> is answered with status 200, warm table or not, and lists every hostname of
  the table once, each with the IPs that \<open>Lookup\<close> returns for it (none for a hostname whose entries were
  all pruned), in whatever order the two maps are visited; neither the table nor a counter changes.
\<close>

theorem routes_request_lists_table:
  assumes "wf_table (srv_table s)" and "range_order order (addresses (srv_table s))"
    and "range_order ks (rt_GetAllAddresses routes_interface order (srv_table s))"
  shows "\<exists>rw. serve wrap routes_interface order ks ''/routes'' (new_response None, s) = Served (rw, s) \<and>
     distinct ks \<and> set ks = dom (addresses (srv_table s)) \<and>
     response rw = (200, json_print (JObj [(''addresses'', JArr (map (\<lambda>h. JObj
        [(''hostname'', JStr h), (''ips'', JArr (map JStr (Lookup (srv_table s) h)))]) ks))]))"
proof -
  have order: "distinct order" "set order = dom (addresses (srv_table s))"
    using assms(2) by (simp_all add: range_order_def)
  have ks: "distinct ks" "set ks = dom (addresses (srv_table s))"
    using assms(3) sdc_routes.listing [OF assms(1) order]
    by (auto simp: range_order_def dom_def split: if_splits)
  have "mux_Handler server_mux ''/routes'' = MuxHandler RoutesRoute" by code_simp
  then show ?thesis
    using sdc_routes.routes_answer [OF assms(1) order ks, of "''/routes''"] ks
    by (simp add: serve_def response_Write)
qed

theorem routes_request_lists_table_witness:
  "\<exists>rw. serve (\<lambda>_ h. h) routes_interface [''a.b.''] [''a.b.'']  ''/routes''
       (new_response None, NewServer (Add [''a.b''] ''10.0.0.1'' (new_table 120 30 int))
          sample_Config \<lparr>requestCount = 0\<rparr> int)
     = Served (rw, NewServer (Add [''a.b''] ''10.0.0.1'' (new_table 120 30 int))
          sample_Config \<lparr>requestCount = 0\<rparr> int) \<and>
     response rw = (200, json_print (JObj [(''addresses'', JArr [JObj
        [(''hostname'', JStr ''a.b.''), (''ips'', JArr [JStr ''10.0.0.1''])]])]))"
proof -
  let ?t = "Add [''a.b''] ''10.0.0.1'' (new_table 120 30 int)"
  let ?s = "NewServer ?t sample_Config \<lparr>requestCount = 0\<rparr> int"
  have t: "srv_table ?s = ?t" by (simp add: NewServer_def)
  have wf: "wf_table ?t" by (simp add: wf_table_Add wf_table_New)
  have f: "fqdn ''a.b'' = ''a.b.''" "fqdn ''a.b.'' = ''a.b.''" by code_simp+
  have dom: "dom (addresses ?t) = {''a.b.''}"
    by (auto simp: Add_def Add_hostname_def new_table_def f table_Now_def Let_def entriesForHostname_def
        indexOf_def clock_Now_def)
  have l: "Lookup ?t ''a.b.'' = [''10.0.0.1'']" using wf_table_New by (simp add: Lookup_Add f)
  have r: "range_order [''a.b.''] (addresses ?t)" by (simp add: range_order_def dom)
  have "rt_GetAllAddresses routes_interface [''a.b.''] ?t
      = (\<lambda>h. if h \<in> {''a.b.''} then Some (make_slice (Lookup ?t h)) else None)"
    using sdc_routes.listing [OF wf, of "[''a.b.'']", unfolded dom] by (intro ext) simp
  then have r': "range_order [''a.b.''] (rt_GetAllAddresses routes_interface [''a.b.''] ?t)"
    by (auto simp: range_order_def split: if_splits)
  from routes_request_lists_table [of ?s "[''a.b.'']" "[''a.b.'']" "\<lambda>_ h. h", unfolded t, OF wf r r'] l
  show ?thesis by auto
qed

text \<open>
  The life of the server. If the CA file cannot be read or the key pair cannot be loaded, \<open>Run\<close>
  returns that error as it is and never becomes ready. Otherwise it listens on the configured address
  and port and becomes ready, and when it ends it has closed the HTTP server: without an error after a
  signal, with the listener's error otherwise. What \<open>AppendCertsFromPEM\<close> reports about the CA makes no difference.
\<close>

theorem Server_Run_outcomes:
  "(case (ReadFile env (CACert (srv_config s)), LoadX509KeyPair env (ServerCert (srv_config s)) (ServerKey (srv_config s))) of
     (Inr ca, Inr cert) \<Rightarrow>
        run_ready (Server_Run env ev s) \<and> run_closed (Server_Run env ev s) \<and>
        run_listening (Server_Run env ev s) =
          Some (Address (srv_config s) @ '':'' @ Port (srv_config s), server_tls env cert (snd (AppendCertsFromPEM env ca))) \<and>
        run_error (Server_Run env ev s) = (case ev of Exited e \<Rightarrow> Some e | Signalled \<Rightarrow> None)
   | (Inl e, _) \<Rightarrow> run_error (Server_Run env ev s) = Some e \<and> \<not> run_ready (Server_Run env ev s) \<and>
        run_listening (Server_Run env ev s) = None
   | (_, Inl e) \<Rightarrow> run_error (Server_Run env ev s) = Some e \<and> \<not> run_ready (Server_Run env ev s) \<and>
        run_listening (Server_Run env ev s) = None)"
  by (auto simp: Server_Run_def buildTLSServerConfig_def Let_def split: sum.splits server_event.splits)

end
