(* ===== verification/Controller_Main.thy ===== *)
theory Controller_Main
  imports Subscriber Routes_Server
begin

text \<open>
  Model of \<open>service-discovery-controller/main.go\<close> with \<open>localip/local_ip.go\<close> and
  \<open>mbus/nats_conn_provider.go\<close>: reading the configuration, building the table, the subscriber and the
  server, the members of the process group, and the shutdown. The file system, the network, the UUID
  generator, the validator and the metrics library are arguments.
\<close>

section \<open>The local IP\<close>

text \<open>
  \<open>net.SplitHostPort\<close>: the port follows the last colon; a host with colons must be in brackets.
\<close>

definition addr_error :: "string \<Rightarrow> string \<Rightarrow> go_error" where
  "addr_error addr why = ''address '' @ addr @ '': '' @ why"

definition before_last_colon :: "string \<Rightarrow> string" where
  "before_last_colon s = rev (tl (dropWhile (\<lambda>c. c \<noteq> CHR '':'') (rev s)))"

definition after_last_colon :: "string \<Rightarrow> string" where
  "after_last_colon s = rev (takeWhile (\<lambda>c. c \<noteq> CHR '':'') (rev s))"

definition SplitHostPort :: "string \<Rightarrow> go_error + string \<times> string" where
  "SplitHostPort hostport =
     (let host_part = before_last_colon hostport; port = after_last_colon hostport
      in if CHR '':'' \<notin> set hostport then Inl (addr_error hostport ''missing port in address'')
         else if hd hostport = CHR ''[''
         then let host = takeWhile (\<lambda>c. c \<noteq> CHR '']'') (tl hostport);
                  rest = dropWhile (\<lambda>c. c \<noteq> CHR '']'') (tl hostport)
              in if rest = [] then Inl (addr_error hostport ''missing ']' in address'')
                 else if tl rest = CHR '':'' # port
                 then if CHR ''['' \<in> set (tl hostport) then Inl (addr_error hostport ''unexpected '[' in address'')
                      else if CHR '']'' \<in> set port then Inl (addr_error hostport ''unexpected ']' in address'')
                      else Inr (host, port)
                 else if tl rest \<noteq> [] \<and> hd (tl rest) = CHR '':''
                 then Inl (addr_error hostport ''too many colons in address'')
                 else Inl (addr_error hostport ''missing port in address'')
         else if CHR '':'' \<in> set host_part then Inl (addr_error hostport ''too many colons in address'')
         else if CHR ''['' \<in> set hostport then Inl (addr_error hostport ''unexpected '[' in address'')
         else if CHR '']'' \<in> set hostport then Inl (addr_error hostport ''unexpected ']' in address'')
         else Inr (host_part, port))"

text \<open>
  \<open>LocalIP\<close>: \<open>resolve\<close> is the error of resolving the probe address, if any, \<open>dial\<close> the local address of
  the connected socket. The last component says whether the socket was opened and closed again.
\<close>

definition LocalIP :: "go_error option \<Rightarrow> go_error + string \<Rightarrow> (go_error + string) \<times> bool" where
  "LocalIP resolve dial =
     (case resolve of
        Some err \<Rightarrow> (Inl err, False)
      | None \<Rightarrow> (case dial of
           Inl err \<Rightarrow> (Inl err, False)
         | Inr local_addr \<Rightarrow> (case SplitHostPort local_addr of
              Inl err \<Rightarrow> (Inl err, True)
            | Inr (host, _) \<Rightarrow> (Inr host, True))))"

section \<open>Building the parts\<close>

record NatsConnWithUrlProvider =
  provider_Url :: string

record controller_env =
  ce_ReadFile :: "string \<Rightarrow> go_error + string"
  ce_validate :: validator
  ce_json_error :: "string \<Rightarrow> go_error"
  ce_dropsonde :: "string \<Rightarrow> string \<Rightarrow> go_error option"
  ce_GenerateUUID :: "go_error + string"
  ce_resolve :: "go_error option"
  ce_dial :: "go_error + string"
  ce_clock :: clock

definition readConfig :: "controller_env \<Rightarrow> string \<Rightarrow> go_error + sdc_Config" where
  "readConfig env configPath =
     (case ce_ReadFile env configPath of
        Inl err \<Rightarrow> Inl err
      | Inr bytes \<Rightarrow> (case sdc_NewConfig (ce_validate env) (ce_json_error env) bytes of
           Inl err \<Rightarrow> Inl err
         | Inr conf \<Rightarrow> Inr conf))"

definition buildAddressTable :: "sdc_Config \<Rightarrow> clock \<Rightarrow> AddressTable outcome" where
  "buildAddressTable conf c =
     NewAddressTable (seconds (StalenessThresholdSeconds conf)) (seconds (PruningIntervalSeconds conf))
       (seconds (ResumePruningDelaySeconds conf)) c"

definition buildSubscriber ::
    "controller_env \<Rightarrow> sdc_Config \<Rightarrow> 't \<Rightarrow> mbus_MetricsRecorder \<Rightarrow>
     go_error + 't Subscriber \<times> NatsConnWithUrlProvider" where
  "buildSubscriber env conf addressTable routeMessageRecorder =
     (case ce_GenerateUUID env of
        Inl err \<Rightarrow> Inl err
      | Inr uuid \<Rightarrow>
          (let subscriberID = Index conf @ ''-'' @ uuid;
               opts = \<lparr>opts_ID = subscriberID,
                  opts_MinimumRegisterIntervalInSeconds = ResumePruningDelaySeconds conf,
                  opts_PruneThresholdInSeconds = 120, opts_AcceptTLS = False\<rparr>;
               provider = \<lparr>provider_Url = join '','' (NatsServers conf)\<rparr>
           in case fst (LocalIP (ce_resolve env) (ce_dial env)) of
                Inl err \<Rightarrow> Inl err
              | Inr ip \<Rightarrow>
                  (let warmDuration = seconds (WarmDurationSeconds conf)
                   in Inr (NewSubscriber opts warmDuration addressTable ip routeMessageRecorder, provider))))"

text \<open>
  The process once it is built. The table is one object that the subscriber and the server share: the
  subscriber's field holds it, and the server is given it with each request (\<open>ctl_serve\<close> below).
\<close>

record controller =
  ctl_subscriber :: "AddressTable Subscriber"
  ctl_server :: "AddressTable Server"
  ctl_provider :: NatsConnWithUrlProvider
  ctl_members :: "string list"
  ctl_sources :: "(string \<times> string) list"
  ctl_emit_interval :: duration
  ctl_log_level :: "string \<times> int"

definition mainWithError :: "controller_env \<Rightarrow> string \<Rightarrow> (go_error + controller) outcome" where
  "mainWithError env configPath =
     (case readConfig env configPath of
        Inl err \<Rightarrow> Return (Inl err)
      | Inr conf \<Rightarrow>
          (case buildAddressTable conf (ce_clock env) of
             Panic p \<Rightarrow> Panic p
           | Return addressTable \<Rightarrow>
               (let metronAddress = ''127.0.0.1:'' @ show_int (MetronPort conf)
                in case ce_dropsonde env metronAddress ''service-discovery-controller'' of
                     Some err \<Rightarrow> Return (Inl err)
                   | None \<Rightarrow>
                       (let routeMessageRecorder = NewMetricsRecorder (ce_clock env)
                        in case buildSubscriber env conf addressTable routeMessageRecorder of
                             Inl err \<Rightarrow> Return (Inl err)
                           | Inr (subscriber, provider) \<Rightarrow>
                               (let dnsRequestRecorder = \<lparr>requestCount = 0\<rparr>;
                                    dnsRequestSource = (''dnsRequest'', ''request'');
                                    routeMessageSource = (''maxRouteMessageTimePerInterval'', ''ms'')
                                in Return (Inr \<lparr>ctl_subscriber = subscriber,
                                     ctl_server = NewServer addressTable conf dnsRequestRecorder (ce_clock env),
                                     ctl_provider = provider,
                                     ctl_members = [''subscriber'', ''metrics-emitter'', ''log-level-server'', ''routes-server''],
                                     ctl_sources = [dnsRequestSource, routeMessageSource],
                                     ctl_emit_interval = seconds (MetricsEmitSeconds conf),
                                     ctl_log_level = (LogLevelAddress conf, LogLevelPort conf)\<rparr>))))))"

text \<open>The process exits with status 2 when \<open>mainWithError\<close> returns an error, and when it panics.\<close>

definition exit_status :: "(go_error + controller) outcome \<Rightarrow> int" where
  "exit_status r = (case r of Panic _ \<Rightarrow> 2 | Return (Inl _) \<Rightarrow> 2 | Return (Inr _) \<Rightarrow> 0)"

text \<open>A request to the running controller: the server sees the shared table.\<close>

definition ctl_serve ::
    "(string \<Rightarrow> AddressTable http_handler \<Rightarrow> AddressTable http_handler) \<Rightarrow> string list \<Rightarrow> string list \<Rightarrow> string \<Rightarrow>
     controller \<Rightarrow> ResponseWriter served \<times> controller" where
  "ctl_serve wrap order ks path c =
     (case serve wrap routes_interface order ks path
             (new_response None, (ctl_server c)\<lparr>srv_table := sub_table (ctl_subscriber c)\<rparr>) of
        Served (rw, s) \<Rightarrow> (Served rw, c\<lparr>ctl_server := s\<rparr>)
      | Redirected p \<Rightarrow> (Redirected p, c)
      | NotFound \<Rightarrow> (NotFound, c))"

text \<open>
  A round of the metrics emitter reads the sources it was given: the getter of the request recorder,
  which the server shares, and that of the route message recorder, which the subscriber shares. (The
  uptime source, of the metrics library, is left out.)
\<close>

definition ctl_emit :: "controller \<Rightarrow> rat list \<times> controller" where
  "ctl_emit c =
     (let (requests, dnsRequestRecorder) = Getter (srv_recorder (ctl_server c));
          (transit, routeMessageRecorder) = GetMaxSinceLastInterval (sub_recorder (ctl_subscriber c))
      in ([requests, transit],
          c\<lparr>ctl_server := (ctl_server c)\<lparr>srv_recorder := dnsRequestRecorder\<rparr>,
            ctl_subscriber := (ctl_subscriber c)\<lparr>sub_recorder := routeMessageRecorder\<rparr>\<rparr>))"

text \<open>
  On a signal the subscriber is closed and the table's ticker stopped before the process group is
  signalled; the function then returns no error.
\<close>

definition ctl_shutdown :: "nats_env \<Rightarrow> controller \<Rightarrow> controller" where
  "ctl_shutdown nenv c =
     (let s = Close nenv (ctl_subscriber c)
      in c\<lparr>ctl_subscriber := s\<lparr>sub_table := Shutdown (sub_table s)\<rparr>\<rparr>)"

section \<open>Facts about addresses\<close>

lemma cut_at_first:
  "x \<notin> set p \<Longrightarrow> takeWhile (\<lambda>c. c \<noteq> x) (p @ x # q) = p"
  "x \<notin> set p \<Longrightarrow> dropWhile (\<lambda>c. c \<noteq> x) (p @ x # q) = x # q"
  by (induction p) auto

lemma last_colon:
  assumes "CHR '':'' \<notin> set port"
  shows "before_last_colon (h @ CHR '':'' # port) = h" "after_last_colon (h @ CHR '':'' # port) = port"
  using assms by (simp_all add: before_last_colon_def after_last_colon_def cut_at_first)

text \<open>\<open>net.JoinHostPort\<close>, the form in which an address prints itself.\<close>

definition JoinHostPort :: "string \<Rightarrow> string \<Rightarrow> string" where
  "JoinHostPort h port =
     (if CHR '':'' \<in> set h then ''['' @ h @ '']:'' @ port else h @ '':'' @ port)"

lemma SplitHostPort_JoinHostPort:
  assumes "set h \<inter> {CHR ''['', CHR '']''} = {}" and "set port \<inter> {CHR '':'', CHR ''['', CHR '']''} = {}"
  shows "SplitHostPort (JoinHostPort h port) = Inr (h, port)"
proof (cases "CHR '':'' \<in> set h")
  case True
  have "CHR '':'' \<notin> set port" using assms(2) by auto
  note last = last_colon [OF this, of "CHR ''['' # h @ '']''", simplified]
  have "takeWhile (\<lambda>c. c \<noteq> CHR '']'') (h @ CHR '']'' # CHR '':'' # port) = h"
    "dropWhile (\<lambda>c. c \<noteq> CHR '']'') (h @ CHR '']'' # CHR '':'' # port) = CHR '']'' # CHR '':'' # port"
    using assms(1) by (auto intro!: cut_at_first)
  then show ?thesis
    using assms True last by (auto simp: SplitHostPort_def JoinHostPort_def)
next
  case False
  have "CHR '':'' \<notin> set port" using assms(2) by auto
  note last = last_colon [OF this, of h]
  have "hd (h @ CHR '':'' # port) \<noteq> CHR ''[''" using assms(1) by (cases h) auto
  then show ?thesis
    using assms False last by (auto simp: SplitHostPort_def JoinHostPort_def)
qed

section \<open>Properties\<close>

text \<open>
  Building the controller. It succeeds exactly when the configuration is accepted, the ticker of the
  table can be made, the metrics
  library starts, a UUID is generated and the local IP is found. The table starts empty, cold and not
  paused, with the configured thresholds, and is the one the server looks up; the subscriber has not
  connected, is identified by index and UUID, announces the resume delay as minimum register interval
  and a prune threshold of 120 seconds, whatever staleness threshold is configured.
\<close>

theorem controller_built_from_config:
  "mainWithError env configPath = Return (Inr c) \<longleftrightarrow>
     (\<exists>conf table uuid ip. readConfig env configPath = Inr conf \<and> buildAddressTable conf (ce_clock env) = Return table \<and>
        ce_dropsonde env (''127.0.0.1:'' @ show_int (MetronPort conf)) ''service-discovery-controller'' = None \<and>
        ce_GenerateUUID env = Inr uuid \<and> fst (LocalIP (ce_resolve env) (ce_dial env)) = Inr ip \<and>
        ctl_subscriber c = NewSubscriber
          \<lparr>opts_ID = Index conf @ ''-'' @ uuid, opts_MinimumRegisterIntervalInSeconds = ResumePruningDelaySeconds conf,
           opts_PruneThresholdInSeconds = 120, opts_AcceptTLS = False\<rparr>
          (seconds (WarmDurationSeconds conf)) table ip (NewMetricsRecorder (ce_clock env)) \<and>
        ctl_server c = NewServer table conf \<lparr>requestCount = 0\<rparr> (ce_clock env) \<and>
        ctl_provider c = \<lparr>provider_Url = join '','' (NatsServers conf)\<rparr> \<and>
        ctl_members c = [''subscriber'', ''metrics-emitter'', ''log-level-server'', ''routes-server''] \<and>
        ctl_sources c = [(''dnsRequest'', ''request''), (''maxRouteMessageTimePerInterval'', ''ms'')] \<and>
        ctl_emit_interval c = seconds (MetricsEmitSeconds conf) \<and>
        ctl_log_level c = (LogLevelAddress conf, LogLevelPort conf))"
  by (cases c)
     (auto simp: mainWithError_def buildSubscriber_def Let_def split: sum.splits option.splits prod.splits outcome.splits)

lemma buildAddressTable_Return:
  "buildAddressTable conf c = Return t \<longleftrightarrow> 0 < seconds (PruningIntervalSeconds conf) \<and>
     t = new_table (seconds (StalenessThresholdSeconds conf)) (seconds (ResumePruningDelaySeconds conf)) c"
  by (simp add: buildAddressTable_def NewAddressTable_Return)

lemma seconds_exact_iff:
  assumes "0 \<le> n"
  shows "seconds n = n * second \<longleftrightarrow> n \<le> 9223372036"
proof
  assume "seconds n = n * second"
  with int64_in_range [of "n * second"] have "n * second \<le> maxInt64"
    by (simp add: seconds_def is_int64_def)
  then show "n \<le> 9223372036" by (simp add: second_def maxInt64_def)
next
  assume "n \<le> 9223372036"
  with assms have "is_int64 (n * second)" by (simp add: is_int64_def second_def maxInt64_def minInt64_def)
  then show "seconds n = n * second" by (simp add: seconds_def)
qed

lemma readConfig_valid:
  assumes "validator_checks (ce_validate env)" and "readConfig env configPath = Inr conf"
  shows "list_all rule_holds (config_rules conf)"
proof -
  from assms(2) have "ce_validate env (config_rules conf) = None"
    by (auto simp: readConfig_def sdc_NewConfig_def split: sum.splits option.splits)
  with assms(1) show ?thesis by (simp add: validator_checks_def)
qed


definition sample_env :: controller_env where
  "sample_env =
     \<lparr>ce_ReadFile = (\<lambda>_. Inr (json_print (config_json sample_Config))), ce_validate = sample_validator,
      ce_json_error = (\<lambda>_. []), ce_dropsonde = (\<lambda>_ _. None), ce_GenerateUUID = Inr ''a1b2'', ce_resolve = None,
      ce_dial = Inr ''10.0.0.9:4321'', ce_clock = int\<rparr>"

lemma sample_config_rules: "list_all rule_holds (config_rules sample_Config)"
  by (simp add: config_rules_def sample_Config_def)

lemma sample_readConfig: "readConfig sample_env ''config.json'' = Inr sample_Config"
proof -
  have "Option.bind (json_parse (json_print (config_json sample_Config)))
      (\<lambda>v. decode_struct config_fields assign_config v zero_Config) = Some sample_Config"
    by (simp add: json_parse_print [OF json_wf_config] decode_config_json [OF sample_Config_representable])
  then show ?thesis
    by (simp add: readConfig_def sample_env_def sdc_NewConfig_def sample_validator_def sample_config_rules)
qed


text \<open>
  \<open>LocalIP\<close> returns the host part of the local address of the probe socket, IPv4 or IPv6 (printed in
  brackets), and closes the socket it opened.
\<close>

theorem LocalIP_returns_host:
  assumes "set ip \<inter> {CHR ''['', CHR '']''} = {}" and "set port \<inter> {CHR '':'', CHR ''['', CHR '']''} = {}"
  shows "LocalIP None (Inr (JoinHostPort ip port)) = (Inr ip, True)"
  by (simp add: LocalIP_def SplitHostPort_JoinHostPort [OF assms])

theorem LocalIP_returns_host_witness:
  "LocalIP None (Inr ''[fe80::1]:4321'') = (Inr ''fe80::1'', True)"
  using LocalIP_returns_host [of "''fe80::1''" "''4321''"] by (simp add: JoinHostPort_def)

end
