(* ===== verification/Address_Table_Concurrency.thy ===== *)
theory Address_Table_Concurrency
  imports Address_Table
begin

text \<open>
  The address table with its pruning goroutine. Every operation of the table is one critical section
  of its mutex; a round of \<open>pruneStaleEntriesOnInterval\<close> is three of them (the guard, the search for
  candidates, the prune), and any operation of another goroutine may come between two of them.
\<close>

section \<open>The system\<close>

datatype pruner = Waiting | Searching | Pruning "string list"

record table_system =
  tab :: AddressTable
  pruner_pc :: pruner
  tick_pending :: bool

datatype table_action =
    DoAdd "string list" string
  | DoRemove "string list" string
  | DoPausePruning
  | DoResumePruning
  | DoSetWarm
  | DoShutdown
  | TickerFires
  | PrunerChecks
  | PrunerSearches
  | PrunerPrunes

text \<open>
  The ticker's channel buffers one tick; a stopped ticker sends no further one, but the buffered one
  can still be received. The order in which the search visits the map is any order.
\<close>

inductive table_step :: "table_system \<Rightarrow> table_action \<Rightarrow> table_system \<Rightarrow> bool" where
  add: "table_step s (DoAdd hs ip) (s\<lparr>tab := Add hs ip (tab s)\<rparr>)"
| remove: "table_step s (DoRemove hs ip) (s\<lparr>tab := Remove hs ip (tab s)\<rparr>)"
| pause: "table_step s DoPausePruning (s\<lparr>tab := PausePruning (tab s)\<rparr>)"
| resume: "table_step s DoResumePruning (s\<lparr>tab := ResumePruning (tab s)\<rparr>)"
| set_warm: "table_step s DoSetWarm (s\<lparr>tab := SetWarm (tab s)\<rparr>)"
| shutdown: "table_step s DoShutdown (s\<lparr>tab := Shutdown (tab s)\<rparr>)"
| fire: "\<not> ticker_stopped (tab s) \<Longrightarrow> table_step s TickerFires (s\<lparr>tick_pending := True\<rparr>)"
| check: "pruner_pc s = Waiting \<Longrightarrow> tick_pending s \<Longrightarrow>
    pruning_suspended (tab s) = (suspended, t') \<Longrightarrow>
    table_step s PrunerChecks
      (s\<lparr>tab := t', tick_pending := False,
         pruner_pc := (if suspended then Waiting else Searching)\<rparr>)"
| search: "pruner_pc s = Searching \<Longrightarrow> range_order ks (addresses (tab s)) \<Longrightarrow>
    addressesWithStaleEntriesWithReadLock ks (tab s) = (cs, t') \<Longrightarrow>
    table_step s PrunerSearches (s\<lparr>tab := t', pruner_pc := Pruning cs\<rparr>)"
| prune: "pruner_pc s = Pruning cs \<Longrightarrow>
    pruneStaleEntriesWithWriteLock cs (tab s) = (log, t') \<Longrightarrow>
    table_step s PrunerPrunes (s\<lparr>tab := t', pruner_pc := Waiting\<rparr>)"

inductive_cases table_stepE: "table_step s a s'"

definition table_init :: "duration \<Rightarrow> duration \<Rightarrow> duration \<Rightarrow> clock \<Rightarrow> table_system \<Rightarrow> bool" where
  "table_init staleness interval delay c s \<longleftrightarrow>
     NewAddressTable staleness interval delay c = Return (tab s) \<and> pruner_pc s = Waiting \<and> \<not> tick_pending s"

lemma table_init_iff:
  "table_init staleness interval delay c s \<longleftrightarrow>
     0 < interval \<and> s = \<lparr>tab = new_table staleness delay c, pruner_pc = Waiting, tick_pending = False\<rparr>"
  by (cases s) (auto simp: table_init_def NewAddressTable_Return)

section \<open>Invariants\<close>

lemma search_ticks:
  "addressesWithStaleEntriesWithReadLock ks t = (cs, t') \<Longrightarrow> \<exists>n. t' = ticked n t"
  using stale_addresses_loop_ticks [of ks t] by (auto simp: addressesWithStaleEntriesWithReadLock_def)

lemma check_ticks: "pruning_suspended t = (b, t') \<Longrightarrow> \<exists>n. t' = ticked n t"
  by (auto simp: pruning_suspended_eq split: if_splits) (metis ticked_simps(10))+

lemma table_step_wf:
  assumes "wf_table (tab s)" and "table_step s a s'"
  shows "wf_table (tab s')"
  using assms(2)
proof cases
  case (prune cs log t')
  with pruneStaleEntriesWithWriteLock_correct(1) [OF assms(1)] show ?thesis by simp
qed (use assms(1) in \<open>auto simp: wf_table_Add wf_table_Remove wf_table_flags wf_table_ticked
      dest!: search_ticks check_ticks\<close>)

interpretation table_wf: invariant_system "table_init staleness interval delay c" table_step
    "\<lambda>s. wf_table (tab s)"
  by unfold_locales (auto simp: table_init_iff wf_table_New intro: table_step_wf)

lemma table_step_frame:
  assumes "table_step s a s'" and "wf_table (tab s)"
  shows "\<exists>n. clock (tab s') = clock_drop n (clock (tab s))"
    and "stalenessThreshold (tab s') = stalenessThreshold (tab s)"
    and "resumePruningDelay (tab s') = resumePruningDelay (tab s)"
    and "warm (tab s) \<Longrightarrow> warm (tab s')"
    and "ticker_stopped (tab s) \<Longrightarrow> ticker_stopped (tab s')"
proof -
  have "(\<exists>n. clock (tab s') = clock_drop n (clock (tab s))) \<and>
    stalenessThreshold (tab s') = stalenessThreshold (tab s) \<and>
    resumePruningDelay (tab s') = resumePruningDelay (tab s) \<and>
    (warm (tab s) \<longrightarrow> warm (tab s')) \<and> (ticker_stopped (tab s) \<longrightarrow> ticker_stopped (tab s'))"
    using assms(1)
  proof cases
    case (prune cs log t')
    with pruneStaleEntriesWithWriteLock_correct(2) [OF assms(2)] obtain n where
      "prunes n (set cs) (tab s) t'" by blast
    from prunes_shift [OF this] show ?thesis by (auto simp: prune)
  qed (auto simp: table_simps intro: exI [of _ 0] dest!: search_ticks check_ticks)
  then show "\<exists>n. clock (tab s') = clock_drop n (clock (tab s))"
    and "stalenessThreshold (tab s') = stalenessThreshold (tab s)"
    and "resumePruningDelay (tab s') = resumePruningDelay (tab s)"
    and "warm (tab s) \<Longrightarrow> warm (tab s')"
    and "ticker_stopped (tab s) \<Longrightarrow> ticker_stopped (tab s')" by blast+
qed

section \<open>What a step does to a lease\<close>

lemma table_step_lease_cases:
  assumes "table_step s a s'" and "wf_table (tab s)" and "leases (tab s) h i = Some u"
  obtains (kept) "leases (tab s') h i = Some u"
  | (renewed) hs k n where "a = DoAdd hs i" and "h \<in> fqdn ` set hs" and "k < n"
      and "clock (tab s') = clock_drop n (clock (tab s))"
      and "leases (tab s') h i = Some (clock (tab s) k)"
  | (removed) hs where "a = DoRemove hs i" and "h \<in> fqdn ` set hs" and "leases (tab s') h i = None"
  | (expired) k n where "a = PrunerPrunes" and "k < n"
      and "clock (tab s') = clock_drop n (clock (tab s))" and "stale_at (tab s) k u"
      and "leases (tab s') h i = None"
  using assms(1)
proof cases
  case (add hs ip)
  show ?thesis
  proof (cases "i = ip \<and> h \<in> fqdn ` set hs")
    case True
    then have "last_mention hs h < length hs"
      using last_mention_less by blast
    with True add show ?thesis by (intro renewed) (auto simp: lease_simps table_simps)
  next
    case False
    with add assms(3) show ?thesis by (intro kept) (auto simp: lease_simps)
  qed
next
  case (remove hs ip)
  with assms(2,3) show ?thesis
    using removed kept by (cases "i = ip \<and> h \<in> fqdn ` set hs") (auto simp: lease_simps)
next
  case (prune cs log t')
  with pruneStaleEntriesWithWriteLock_correct(2) [OF assms(2)] obtain n where
    n: "prunes n (set cs) (tab s) t'" by blast
  from n assms(3) show ?thesis
  proof (cases rule: prunes_lease_cases)
    case (dropped k)
    with prune prunes_shift(2) [OF n] show ?thesis by (intro expired) auto
  qed (use kept prune in simp)
qed (use assms(3) kept in \<open>auto simp: lease_simps dest!: search_ticks check_ticks\<close>)

lemma table_step_new_lease:
  assumes "table_step s a s'" and "wf_table (tab s)" and "leases (tab s) h i = None"
    and "leases (tab s') h i = Some u"
  obtains hs k n where "a = DoAdd hs i" and "h \<in> fqdn ` set hs" and "k < n"
    and "clock (tab s') = clock_drop n (clock (tab s))" and "u = clock (tab s) k"
  using assms(1)
proof cases
  case (add hs ip)
  with assms(3,4) have "i = ip" "h \<in> fqdn ` set hs" "u = clock (tab s) (last_mention hs h)"
    by (auto simp: lease_simps split: if_splits)
  with add last_mention_less show ?thesis
    by (intro that [of hs "last_mention hs h" "length hs"]) (auto simp: table_simps)
next
  case (prune cs log t')
  with pruneStaleEntriesWithWriteLock_correct(2) [OF assms(2)] obtain n where
    "prunes n (set cs) (tab s) t'" by blast
  from prunes_lease_none [OF this assms(3)] assms(4) prune show ?thesis by simp
qed (use assms(2,3,4) in
    \<open>auto simp: lease_simps split: if_splits dest!: search_ticks check_ticks\<close>)

text \<open>With a clock that never goes back, every lease lies in the past of the next reading.\<close>

definition past_leases :: "AddressTable \<Rightarrow> bool" where
  "past_leases t \<longleftrightarrow> monotone_clock (clock t) \<and> (\<forall>h i u. leases t h i = Some u \<longrightarrow> u \<le> clock t 0)"

lemma table_step_past:
  assumes "table_step s a s'" and wf: "wf_table (tab s)" and past: "past_leases (tab s)"
  shows "past_leases (tab s')"
proof -
  from past have mono: "monotone_clock (clock (tab s))" by (simp add: past_leases_def)
  obtain m where m: "clock (tab s') = clock_drop m (clock (tab s))"
    using table_step_frame(1) [OF assms(1) wf] by blast
  have "u \<le> clock (tab s') 0" if l': "leases (tab s') h i = Some u" for h i u
  proof (cases "leases (tab s) h i")
    case None
    from assms(1) wf None l' show ?thesis
    proof (cases rule: table_step_new_lease)
      case (1 hs k n)
      then show ?thesis using monotone_clock_le [OF mono, of k n] by simp
    qed
  next
    case (Some v)
    then have "v \<le> clock (tab s) 0" using past by (simp add: past_leases_def)
    moreover have "clock (tab s) 0 \<le> clock (tab s') 0"
      using monotone_clock_le [OF mono, of 0 m] by (simp add: m)
    moreover have "u = v \<or> u \<le> clock (tab s') 0"
      using assms(1) wf Some
    proof (cases rule: table_step_lease_cases)
      case (renewed hs k n)
      with l' have "u = clock (tab s) k" by simp
      with renewed monotone_clock_le [OF mono, of k n] show ?thesis by simp
    qed (use l' in auto)
    ultimately show ?thesis by auto
  qed
  with m mono monotone_clock_drop show ?thesis by (simp add: past_leases_def)
qed

interpretation table_past: invariant_system
    "\<lambda>s. table_init staleness interval delay c s \<and> monotone_clock c" table_step
    "\<lambda>s. wf_table (tab s) \<and> past_leases (tab s)"
proof
  fix s
  assume "table_init staleness interval delay c s \<and> monotone_clock c"
  then show "wf_table (tab s) \<and> past_leases (tab s)"
    by (simp add: table_init_iff wf_table_New past_leases_def)
      (simp add: new_table_def leases_def entriesForHostname_def)
qed (blast intro: table_step_wf table_step_past)

section \<open>Runs\<close>

definition unregisters :: "string \<Rightarrow> string \<Rightarrow> table_action \<Rightarrow> bool" where
  "unregisters h i a = (case a of DoRemove hs ip \<Rightarrow> ip = i \<and> h \<in> fqdn ` set hs | _ \<Rightarrow> False)"

lemma run_keeps_fresh_lease:
  assumes "run table_step s ls s'" and "wf_table (tab s)" and "past_leases (tab s)"
    and "\<forall>a\<in>set ls. \<not> unregisters h i a" and "leases (tab s) h i = Some u"
    and "time_Sub (clock (tab s') 0) u \<le> stalenessThreshold (tab s)"
  shows "\<exists>v\<ge>u. leases (tab s') h i = Some v"
  using assms
proof (induction rule: run.induct)
  case (run_snoc s ls s1 a s2)
  from table_past.run_I [OF run_snoc.hyps(1)] run_snoc.prems(1,2)
  have s1: "wf_table (tab s1)" "past_leases (tab s1)" by auto
  then have mono: "monotone_clock (clock (tab s1))" by (simp add: past_leases_def)
  obtain m where m: "clock (tab s2) = clock_drop m (clock (tab s1))"
    using table_step_frame(1) [OF run_snoc.hyps(2) s1(1)] by blast
  have thr: "stalenessThreshold (tab s1) = stalenessThreshold (tab s)"
    using run_snoc.hyps(1) run_snoc.prems(1)
    by (induction rule: run.induct) (auto simp: table_step_frame(2) dest: table_wf.run_I)
  have "time_Sub (clock (tab s1) 0) u \<le> time_Sub (clock (tab s2) 0) u"
    using monotone_clock_le [OF mono, of 0 m] by (intro time_Sub_mono) (simp add: m)
  with run_snoc.IH run_snoc.prems obtain v where v: "v \<ge> u" "leases (tab s1) h i = Some v"
    by auto
  from run_snoc.hyps(2) s1(1) v(2) show ?case
  proof (cases rule: table_step_lease_cases)
    case kept
    with v show ?thesis by auto
  next
    case (renewed hs k n)
    have "v \<le> clock (tab s1) k"
      using s1(2) v(2) monotone_clock_le [OF mono, of 0 k] by (fastforce simp: past_leases_def)
    with renewed v show ?thesis by auto
  next
    case (removed hs)
    with run_snoc.prems(3) show ?thesis by (simp add: unregisters_def)
  next
    case (expired k n)
    have "time_Sub (clock (tab s1) k) v \<le> time_Sub (clock (tab s2) 0) u"
      using monotone_clock_le [OF mono, of k n] expired v(1)
      by (intro order.trans [OF time_Sub_mono time_Sub_antimono]) auto
    with expired run_snoc.prems(5) show ?thesis by (simp add: stale_at_def thr)
  qed
qed auto

lemma run_paused_keeps_lease:
  assumes "run table_step s ls s'" and "wf_table (tab s)" and "pausedPruning (tab s)"
    and "pruner_pc s = Waiting" and "DoResumePruning \<notin> set ls"
    and "\<forall>a\<in>set ls. \<not> unregisters h i a" and "leases (tab s) h i \<noteq> None"
  shows "leases (tab s') h i \<noteq> None \<and> pausedPruning (tab s') \<and> pruner_pc s' = Waiting"
  using assms
proof (induction rule: run.induct)
  case (run_snoc s ls s1 a s2)
  then have s1: "leases (tab s1) h i \<noteq> None" "pausedPruning (tab s1)" "pruner_pc s1 = Waiting"
    by auto
  have wf: "wf_table (tab s1)" using table_wf.run_I run_snoc.hyps(1) run_snoc.prems(1) by blast
  from run_snoc.hyps(2) s1 run_snoc.prems(4) have frame: "pausedPruning (tab s2)" "pruner_pc s2 = Waiting"
    by (auto elim!: table_stepE simp: table_simps pruning_suspended_eq)
  from s1(1) obtain u where "leases (tab s1) h i = Some u" by blast
  with run_snoc.hyps(2) wf show ?case
  proof (cases rule: table_step_lease_cases)
    case (removed hs)
    with run_snoc.prems(5) show ?thesis by (simp add: unregisters_def)
  next
    case (expired k n)
    with run_snoc.hyps(2) s1(3) show ?thesis by (auto elim!: table_stepE)
  qed (use frame in auto)
qed auto

section \<open>Properties\<close>

text \<open>
  C8: in every state the table and its pruner reach, however their critical sections interleave, the
  table is well formed: every hostname is fully qualified and no IP is listed twice under it.
\<close>

theorem reachable_table_wf:
  assumes "reachable (table_init staleness interval delay c) table_step s"
  shows "wf_table (tab s) \<and> distinct (Lookup (tab s) h)"
  using table_wf.reachable_I [OF assms] by (simp add: distinct_Lookup)

theorem reachable_table_wf_witness:
  "distinct (Lookup (Add [''app'', ''app.''] ''10.0.0.1'' (new_table 5 0 int)) ''app'')"
proof -
  let ?s0 = "\<lparr>tab = new_table 5 0 int, pruner_pc = Waiting, tick_pending = False\<rparr>"
  let ?s1 = "?s0\<lparr>tab := Add [''app'', ''app.''] ''10.0.0.1'' (tab ?s0)\<rparr>"
  have "reachable (table_init 5 1 0 int) table_step ?s0"
    by (rule reachable_init) (simp add: table_init_iff)
  then have "reachable (table_init 5 1 0 int) table_step ?s1"
    by (rule reachable_step) (rule table_step.add)
  from reachable_table_wf [OF this, of "''app''"] show ?thesis by simp
qed

text \<open>
  An IP stays in the table as long as its last registration is not older than the threshold. From
  any reachable state in which the IP holds a lease of instant \<open>u\<close>, after any run of the system in
  which the IP is not unregistered for the hostname, if the next reading of the clock shows \<open>u\<close> no
  older than \<open>stalenessThreshold\<close>, \<open>Lookup\<close> returns the IP.
\<close>

theorem fresh_ip_is_looked_up:
  assumes "reachable (\<lambda>s. table_init staleness interval delay c s \<and> monotone_clock c) table_step s"
    and "leases (tab s) (fqdn h) i = Some u" and "run table_step s ls s'"
    and "\<forall>a\<in>set ls. \<not> unregisters (fqdn h) i a"
    and "time_Sub (clock (tab s') 0) u \<le> stalenessThreshold (tab s)"
  shows "i \<in> set (Lookup (tab s') h)"
  using run_keeps_fresh_lease [OF assms(3) _ _ assms(4,2,5)] table_past.reachable_I [OF assms(1)]
  by (auto simp: set_Lookup)

text \<open>A round of the pruner, with no other operation in between, as three steps of the system.\<close>

definition after_check :: "AddressTable \<Rightarrow> AddressTable" where
  "after_check t = snd (pruning_suspended t)"

definition after_search :: "string list \<Rightarrow> AddressTable \<Rightarrow> AddressTable" where
  "after_search ks t = snd (addressesWithStaleEntriesWithReadLock ks (after_check t))"

definition found_candidates :: "string list \<Rightarrow> AddressTable \<Rightarrow> string list" where
  "found_candidates ks t = fst (addressesWithStaleEntriesWithReadLock ks (after_check t))"

lemma run_to_candidates:
  assumes "\<not> ticker_stopped t" and "\<not> fst (pruning_suspended t)" and "range_order ks (addresses t)"
  shows "run table_step \<lparr>tab = t, pruner_pc = Waiting, tick_pending = p\<rparr>
           [TickerFires, PrunerChecks, PrunerSearches]
           \<lparr>tab = after_search ks t, pruner_pc = Pruning (found_candidates ks t), tick_pending = False\<rparr>"
proof -
  let ?s1 = "\<lparr>tab = t, pruner_pc = Waiting, tick_pending = True\<rparr>"
  let ?s2 = "\<lparr>tab = after_check t, pruner_pc = Searching, tick_pending = False\<rparr>"
  have "table_step \<lparr>tab = t, pruner_pc = Waiting, tick_pending = p\<rparr> TickerFires ?s1"
    using table_step.fire [of "\<lparr>tab = t, pruner_pc = Waiting, tick_pending = p\<rparr>"] assms(1) by simp
  moreover have "table_step ?s1 PrunerChecks ?s2"
    using table_step.check [of ?s1 False "after_check t"] assms(2)
    by (simp add: after_check_def prod_eq_iff)
  moreover have "addresses (after_check t) = addresses t"
    by (simp add: after_check_def pruning_suspended_eq table_simps)
  then have "table_step ?s2 PrunerSearches \<lparr>tab = after_search ks t,
      pruner_pc = Pruning (found_candidates ks t), tick_pending = False\<rparr>"
    using table_step.search [of ?s2 ks "found_candidates ks t" "after_search ks t"] assms(3)
    by (simp add: after_search_def found_candidates_def)
  ultimately show ?thesis by (blast intro: run_Cons run_single)
qed

text \<open>A run to the point where the pruner has found a stale candidate and not yet pruned it.\<close>

lemma run_to_stale_candidate:
  "reachable (table_init 5 1 0 (\<lambda>i. 10 * int i)) table_step
     \<lparr>tab = after_search [''app.''] (Add [''app''] ''10.0.0.1'' (new_table 5 0 (\<lambda>i. 10 * int i))),
      pruner_pc = Pruning (found_candidates [''app.''] (Add [''app''] ''10.0.0.1'' (new_table 5 0 (\<lambda>i. 10 * int i)))),
      tick_pending = False\<rparr>"
proof -
  let ?new = "new_table 5 0 (\<lambda>i. 10 * int i)"
  let ?t = "Add [''app''] ''10.0.0.1'' ?new"
  let ?s0 = "\<lparr>tab = ?new, pruner_pc = Waiting, tick_pending = False\<rparr>"
  let ?s1 = "\<lparr>tab = ?t, pruner_pc = Waiting, tick_pending = False\<rparr>"
  let ?s2 = "\<lparr>tab = after_search [''app.''] ?t, pruner_pc = Pruning (found_candidates [''app.''] ?t), tick_pending = False\<rparr>"
  have "table_step ?s0 (DoAdd [''app''] ''10.0.0.1'') ?s1"
    using table_step.add [of ?s0 "[''app'']" "''10.0.0.1''"] by simp
  then have "run table_step ?s0 [DoAdd [''app''] ''10.0.0.1''] ?s1" by (rule run_single)
  moreover have "run table_step ?s1 [TickerFires, PrunerChecks, PrunerSearches] ?s2"
    by (rule run_to_candidates)
      (auto simp: table_simps new_table_def pruning_suspended_eq time_Sub_def minInt64_def
        maxInt64_def range_order_def Add_Cons Add_hostname_def Let_def entriesForHostname_def
        indexOf_def fqdn_def isFqdn_def)
  ultimately show ?thesis
    unfolding reachable_def using run_append by (fastforce simp: table_init_iff)
qed

theorem fresh_ip_is_looked_up_witness:
  "''10.0.0.1'' \<in> set (Lookup (snd (pruneStaleEntriesWithWriteLock
      (found_candidates [''app.''] (Add [''app''] ''10.0.0.1'' (new_table 5 0 int)))
      (after_search [''app.''] (Add [''app''] ''10.0.0.1'' (new_table 5 0 int))))) ''app'')"
proof -
  let ?t = "Add [''app''] ''10.0.0.1'' (new_table 5 0 int)"
  let ?s0 = "\<lparr>tab = new_table 5 0 int, pruner_pc = Waiting, tick_pending = False\<rparr>"
  let ?s1 = "\<lparr>tab = ?t, pruner_pc = Waiting, tick_pending = False\<rparr>"
  let ?s2 = "\<lparr>tab = after_search [''app.''] ?t, pruner_pc = Pruning (found_candidates [''app.''] ?t), tick_pending = False\<rparr>"
  let ?t3 = "snd (pruneStaleEntriesWithWriteLock (found_candidates [''app.''] ?t) (after_search [''app.''] ?t))"
  let ?s3 = "\<lparr>tab = ?t3, pruner_pc = Waiting, tick_pending = False\<rparr>"
  let ?init = "\<lambda>s. table_init 5 1 0 int s \<and> monotone_clock int"
  have "reachable ?init table_step ?s0"
    by (rule reachable_init) (simp add: table_init_iff monotone_clock_def)
  moreover have "table_step ?s0 (DoAdd [''app''] ''10.0.0.1'') ?s1"
    using table_step.add [of ?s0] by simp
  ultimately have r: "reachable ?init table_step ?s1" by (rule reachable_step)
  have "run table_step ?s1 [TickerFires, PrunerChecks, PrunerSearches] ?s2"
    by (rule run_to_candidates)
      (auto simp: table_simps new_table_def pruning_suspended_eq time_Sub_def minInt64_def
        maxInt64_def range_order_def Add_Cons Add_hostname_def Let_def entriesForHostname_def
        indexOf_def fqdn_def isFqdn_def)
  moreover have "table_step ?s2 PrunerPrunes ?s3"
    using table_step.prune [of ?s2 "found_candidates [''app.''] ?t" _ ?t3] by (metis prod.collapse select_convs(1,2) simps(1,2) update_convs(1,2))
  ultimately have run: "run table_step ?s1 ([TickerFires, PrunerChecks, PrunerSearches] @ [PrunerPrunes]) ?s3"
    by (rule run_snoc)
  have "leases (tab ?s1) (fqdn ''app'') ''10.0.0.1'' = Some 0" by code_simp
  moreover have "time_Sub (clock (tab ?s3) 0) 0 \<le> stalenessThreshold (tab ?s1)" by code_simp
  ultimately show ?thesis
    using fresh_ip_is_looked_up [OF r _ run, of "''app''" "''10.0.0.1''" 0] by (simp add: unregisters_def)
qed

text \<open>
  C9: a lease disappears in one step of the system for two reasons only: the step unregisters that IP
  for that hostname, or it is the prune and one of the readings of the clock that the prune takes in
  that very critical section shows the lease older than the threshold. An entry that was a candidate
  and was registered again before the prune is therefore not dropped.
\<close>

theorem lease_lost_only_if_unregistered_or_stale:
  assumes "reachable (table_init staleness interval delay c) table_step s" and "table_step s a s'"
    and "leases (tab s) h i = Some u" and "leases (tab s') h i = None"
  shows "unregisters h i a \<or>
    (a = PrunerPrunes \<and> (\<exists>n. clock (tab s') = clock_drop n (clock (tab s)) \<and> (\<exists>k<n. stale_at (tab s) k u)))"
  using assms(2) table_wf.reachable_I [OF assms(1)] assms(3)
proof (cases rule: table_step_lease_cases)
  case (removed hs)
  then show ?thesis by (auto simp: unregisters_def)
next
  case (expired k n)
  then show ?thesis by blast
qed (use assms(4) in simp_all)

theorem lease_lost_only_if_unregistered_or_stale_witness:
  "\<exists>s s' n k. reachable (table_init 5 1 0 (\<lambda>i. 10 * int i)) table_step s \<and> table_step s PrunerPrunes s' \<and>
     leases (tab s) ''app.'' ''10.0.0.1'' = Some 0 \<and> leases (tab s') ''app.'' ''10.0.0.1'' = None \<and>
     clock (tab s') = clock_drop n (clock (tab s)) \<and> k < n \<and> stale_at (tab s) k 0"
proof -
  let ?new = "new_table 5 0 (\<lambda>i. 10 * int i)"
  let ?t = "Add [''app''] ''10.0.0.1'' ?new"
  let ?cs = "found_candidates [''app.''] ?t"
  let ?s = "\<lparr>tab = after_search [''app.''] ?t, pruner_pc = Pruning ?cs, tick_pending = False\<rparr>"
  let ?s' = "\<lparr>tab = snd (pruneStaleEntriesWithWriteLock ?cs (tab ?s)), pruner_pc = Waiting, tick_pending = False\<rparr>"
  note r = run_to_stale_candidate
  have step: "table_step ?s PrunerPrunes ?s'"
    using table_step.prune [of ?s ?cs _ "tab ?s'"] by (metis prod.collapse select_convs(1,2) simps(1,2) update_convs(1,2))
  have leases: "leases (tab ?s) ''app.'' ''10.0.0.1'' = Some 0" "leases (tab ?s') ''app.'' ''10.0.0.1'' = None" by code_simp+
  have "\<not> unregisters ''app.'' ''10.0.0.1'' PrunerPrunes" by (simp add: unregisters_def)
  with lease_lost_only_if_unregistered_or_stale [OF r step leases] obtain n k where
    "clock (tab ?s') = clock_drop n (clock (tab ?s))" "k < n" "stale_at (tab ?s) k 0" by blast
  with r step leases show ?thesis by (intro exI [of _ ?s] exI [of _ ?s'] exI [of _ n] exI [of _ k]) blast
qed

text \<open>
  C10: while pruning is paused and no round is under way, a run without a resume never drops an IP that
  is not unregistered, whatever the clock says.
\<close>

theorem paused_pruning_keeps_ips:
  assumes "reachable (table_init staleness interval delay c) table_step s"
    and "pausedPruning (tab s)" and "pruner_pc s = Waiting" and "i \<in> set (Lookup (tab s) h)"
    and "run table_step s ls s'" and "DoResumePruning \<notin> set ls"
    and "\<forall>a\<in>set ls. \<not> unregisters (fqdn h) i a"
  shows "i \<in> set (Lookup (tab s') h)"
  using run_paused_keeps_lease [OF assms(5) table_wf.reachable_I [OF assms(1)] assms(2,3,6,7)] assms(4)
  by (auto simp: set_Lookup)

theorem paused_pruning_keeps_ips_witness:
  "''10.0.0.1'' \<in> set (Lookup (PausePruning (Add [''app''] ''10.0.0.1'' (new_table 5 0 int))) ''app.'')"
proof -
  let ?t = "Add [''app''] ''10.0.0.1'' (new_table 5 0 int)"
  let ?s0 = "\<lparr>tab = new_table 5 0 int, pruner_pc = Waiting, tick_pending = False\<rparr>"
  let ?s1 = "\<lparr>tab = ?t, pruner_pc = Waiting, tick_pending = False\<rparr>"
  let ?s2 = "\<lparr>tab = PausePruning ?t, pruner_pc = Waiting, tick_pending = False\<rparr>"
  let ?s3 = "\<lparr>tab = PausePruning ?t, pruner_pc = Waiting, tick_pending = True\<rparr>"
  let ?s4 = "\<lparr>tab = PausePruning ?t, pruner_pc = Waiting, tick_pending = False\<rparr>"
  have "reachable (table_init 5 1 0 int) table_step ?s0"
    by (rule reachable_init) (simp add: table_init_iff)
  moreover have "table_step ?s0 (DoAdd [''app''] ''10.0.0.1'') ?s1"
    using table_step.add [of ?s0] by simp
  ultimately have "reachable (table_init 5 1 0 int) table_step ?s1" by (rule reachable_step)
  moreover have "table_step ?s1 DoPausePruning ?s2" using table_step.pause [of ?s1] by simp
  ultimately have r: "reachable (table_init 5 1 0 int) table_step ?s2" by (rule reachable_step)
  have "table_step ?s2 TickerFires ?s3"
    using table_step.fire [of ?s2] by (simp add: table_simps new_table_def)
  moreover have "table_step ?s3 PrunerChecks ?s4"
    using table_step.check [of ?s3 True "PausePruning ?t"] by (simp add: pruning_suspended_def table_simps)
  ultimately have run: "run table_step ?s2 [TickerFires, PrunerChecks] ?s4"
    by (blast intro: run_Cons run_single)
  have "''10.0.0.1'' \<in> set (Lookup (tab ?s2) ''app.'')" by code_simp
  then show ?thesis
    using paused_pruning_keeps_ips [OF r _ _ _ run, of "''10.0.0.1''" "''app.''"]
    by (simp add: unregisters_def table_simps)
qed

text \<open>
  C35: \<open>PausePruning\<close> does not stop a round that has passed its guard: there is a run in which the table
  is paused between the search and the prune, and the prune then still drops an IP.
\<close>

theorem pause_misses_round_in_flight:
  "\<exists>s s' s''. reachable (table_init 5 1 0 (\<lambda>i. 10 * int i)) table_step s \<and>
     table_step s DoPausePruning s' \<and> table_step s' PrunerPrunes s'' \<and> pausedPruning (tab s'') \<and>
     Lookup (tab s') ''app'' = [''10.0.0.1''] \<and> Lookup (tab s'') ''app'' = []"
proof -
  let ?init = "table_init 5 1 0 (\<lambda>i. 10 * int i)"
  let ?new = "new_table 5 0 (\<lambda>i. 10 * int i)"
  let ?t = "Add [''app''] ''10.0.0.1'' ?new"
  let ?cs = "found_candidates [''app.''] ?t"
  let ?t2 = "after_search [''app.''] ?t"
  let ?s2 = "\<lparr>tab = ?t2, pruner_pc = Pruning ?cs, tick_pending = False\<rparr>"
  let ?s3 = "\<lparr>tab = PausePruning ?t2, pruner_pc = Pruning ?cs, tick_pending = False\<rparr>"
  let ?t4 = "snd (pruneStaleEntriesWithWriteLock ?cs (PausePruning ?t2))"
  let ?s4 = "\<lparr>tab = ?t4, pruner_pc = Waiting, tick_pending = False\<rparr>"
  have "reachable ?init table_step ?s2" by (rule run_to_stale_candidate)
  moreover have "table_step ?s2 DoPausePruning ?s3" using table_step.pause [of ?s2] by simp
  moreover have "table_step ?s3 PrunerPrunes ?s4"
    using table_step.prune [of ?s3 ?cs _ ?t4] by (metis prod.collapse select_convs(1,2) simps(1,2) update_convs(1,2))
  moreover have "pausedPruning (tab ?s4)" by code_simp
  moreover have "Lookup (tab ?s3) ''app'' = [''10.0.0.1'']" by code_simp
  moreover have "Lookup (tab ?s4) ''app'' = []" by code_simp
  ultimately show ?thesis by blast
qed

lemma stopped_run:
  assumes "run table_step s ls s'" and "wf_table (tab s)" and "ticker_stopped (tab s)"
  shows "wf_table (tab s') \<and> ticker_stopped (tab s') \<and> TickerFires \<notin> set ls \<and>
    count_list ls PrunerChecks + of_bool (tick_pending s') = (of_bool (tick_pending s) :: nat)"
  using assms
proof (induction rule: run.induct)
  case (run_snoc s ls s' l s'')
  then have s': "wf_table (tab s')" "ticker_stopped (tab s')" "TickerFires \<notin> set ls"
    "count_list ls PrunerChecks + of_bool (tick_pending s') = (of_bool (tick_pending s) :: nat)" by simp_all
  have "wf_table (tab s'')" by (rule table_step_wf [OF s'(1) run_snoc.hyps(2)])
  moreover have "ticker_stopped (tab s'')" by (rule table_step_frame(5) [OF run_snoc.hyps(2) s'(1,2)])
  moreover have "l \<noteq> TickerFires \<and>
      count_list [l] PrunerChecks + of_bool (tick_pending s'') = (of_bool (tick_pending s') :: nat)"
    using run_snoc.hyps(2) s'(2) by cases auto
  ultimately show ?case using s'(3,4) by (auto simp: count_list_append)
qed simp

text \<open>
  After \<open>Shutdown\<close> the pruner starts at most one more round, and only if a tick was already waiting:
  the ticker never fires again.
\<close>

theorem shutdown_stops_pruner:
  assumes "reachable (table_init staleness interval delay c) table_step s" and "table_step s DoShutdown s'"
    and "run table_step s' ls s''"
  shows "TickerFires \<notin> set ls \<and> count_list ls PrunerChecks \<le> of_bool (tick_pending s)"
proof -
  from assms(2) have s': "s' = s\<lparr>tab := Shutdown (tab s)\<rparr>" by cases simp
  have "wf_table (tab s')" "ticker_stopped (tab s')"
    using table_step_wf [OF table_wf.reachable_I [OF assms(1)] assms(2)] by (simp_all add: s' table_simps)
  from stopped_run [OF assms(3) this] show ?thesis by (simp add: s')
qed

theorem shutdown_stops_pruner_witness:
  "TickerFires \<notin> set [DoSetWarm] \<and> count_list [DoSetWarm] PrunerChecks = 0"
proof -
  let ?s0 = "\<lparr>tab = new_table 5 0 int, pruner_pc = Waiting, tick_pending = False\<rparr>"
  let ?s1 = "?s0\<lparr>tab := Shutdown (tab ?s0)\<rparr>"
  have r: "reachable (table_init 5 1 0 int) table_step ?s0"
    by (rule reachable_init) (simp add: table_init_iff)
  have s: "table_step ?s0 DoShutdown ?s1" by (rule table_step.shutdown)
  have "run table_step ?s1 [DoSetWarm] (?s1\<lparr>tab := SetWarm (tab ?s1)\<rparr>)"
    by (rule run_single) (rule table_step.set_warm)
  from shutdown_stops_pruner [OF r s this] show ?thesis by simp
qed

end
