(* ===== verification/Controller_System.thy ===== *)
theory Controller_System
  imports Controller_Main Address_Table_Concurrency
begin

text \<open>
  The controller as a system of concurrent parts: the callbacks of the NATS client, the warm-up
  timer, the HTTP handlers, the signal and the pruning goroutine act on one address table, in any
  order. The system is shown to be a refinement of the table with its pruner, so that the guarantees
  of \<open>Address_Table_Concurrency\<close> hold for what the controller answers.
\<close>

section \<open>The system\<close>

record ctl_system =
  ctl :: controller
  ctl_pc :: pruner
  ctl_tick :: bool

datatype ctl_action =
    CtlStart
  | CtlMessage nats_Msg
  | CtlDisconnect
  | CtlReconnect
  | CtlWarmTimer
  | CtlRequest string
  | CtlEmit
  | CtlPruner table_action
  | CtlShutdown
  | CtlSignalled

abbreviation ctl_sub :: "ctl_system \<Rightarrow> AddressTable Subscriber" where
  "ctl_sub s \<equiv> ctl_subscriber (ctl s)"

definition set_sub :: "AddressTable Subscriber \<Rightarrow> ctl_system \<Rightarrow> ctl_system" where
  "set_sub u s = s\<lparr>ctl := (ctl s)\<lparr>ctl_subscriber := u\<rparr>\<rparr>"

text \<open>The table and its pruner, as the table theory sees them.\<close>

definition table_view :: "ctl_system \<Rightarrow> table_system" where
  "table_view s = \<lparr>tab = sub_table (ctl_sub s), pruner_pc = ctl_pc s, tick_pending = ctl_tick s\<rparr>"

definition pruner_action :: "table_action \<Rightarrow> bool" where
  "pruner_action a \<longleftrightarrow> a \<in> {TickerFires, PrunerChecks, PrunerSearches, PrunerPrunes}"

text \<open>
  After the shutdown the process group passes the signal on: \<open>CtlSignalled\<close> is its arrival in \<open>Run\<close> of the
  subscriber, which closes the connection once more.
\<close>

inductive ctl_step ::
    "nats_env \<Rightarrow> (string \<Rightarrow> AddressTable http_handler \<Rightarrow> AddressTable http_handler) \<Rightarrow>
     ctl_system \<Rightarrow> ctl_action \<Rightarrow> ctl_system \<Rightarrow> bool" for nenv wrap where
  start: "RunOnce nenv (ctl_sub s) = Return (err, u) \<Longrightarrow> ctl_step nenv wrap s CtlStart (set_sub u s)"
| message: "deliver nenv table_interface msg (ctl_sub s) = Return u \<Longrightarrow>
    ctl_step nenv wrap s (CtlMessage msg) (set_sub u s)"
| disconnect: "ctl_step nenv wrap s CtlDisconnect (set_sub (handle_disconnect table_interface (ctl_sub s)) s)"
| reconnect: "handle_reconnect nenv table_interface (ctl_sub s) = Return u \<Longrightarrow>
    ctl_step nenv wrap s CtlReconnect (set_sub u s)"
| warm_timer: "warm_timers (ctl_sub s) \<noteq> [] \<Longrightarrow>
    ctl_step nenv wrap s CtlWarmTimer (set_sub (warm_timer_fires table_interface (ctl_sub s)) s)"
| request: "ctl_serve wrap order ks path (ctl s) = (r, c) \<Longrightarrow>
    ctl_step nenv wrap s (CtlRequest path) (s\<lparr>ctl := c\<rparr>)"
| emit: "ctl_emit (ctl s) = (values, c) \<Longrightarrow> ctl_step nenv wrap s CtlEmit (s\<lparr>ctl := c\<rparr>)"
| pruner: "pruner_action a \<Longrightarrow> table_step (table_view s) a v \<Longrightarrow>
    ctl_step nenv wrap s (CtlPruner a)
      ((set_sub ((ctl_sub s)\<lparr>sub_table := tab v\<rparr>) s)\<lparr>ctl_pc := pruner_pc v, ctl_tick := tick_pending v\<rparr>)"
| shutdown: "ctl_step nenv wrap s CtlShutdown (s\<lparr>ctl := ctl_shutdown nenv (ctl s)\<rparr>)"
| signalled: "ctl_step nenv wrap s CtlSignalled (set_sub (Close nenv (ctl_sub s)) s)"

inductive_cases ctl_stepE: "ctl_step nenv wrap s a s'"

definition ctl_init :: "controller_env \<Rightarrow> string \<Rightarrow> ctl_system \<Rightarrow> bool" where
  "ctl_init env configPath s \<longleftrightarrow>
     mainWithError env configPath = Return (Inr (ctl s)) \<and> ctl_pc s = Waiting \<and> \<not> ctl_tick s"

section \<open>Refinement of the table\<close>

text \<open>Which operations of the table an action of the controller may perform.\<close>

fun performs :: "ctl_action \<Rightarrow> table_action \<Rightarrow> bool" where
  "performs (CtlMessage msg) (DoAdd hs ip) =
     (msg_Subject msg = ''service-discovery.register'' \<and>
      (\<exists>m. unmarshal_RegistryMessage (msg_Data msg) = Some m \<and> rm_InfraNames m = hs \<and> rm_IP m = ip \<and> hs \<noteq> [] \<and> ip \<noteq> []))"
| "performs (CtlMessage msg) (DoRemove hs ip) =
     (msg_Subject msg = ''service-discovery.unregister'' \<and>
      (\<exists>m. unmarshal_RegistryMessage (msg_Data msg) = Some m \<and> rm_InfraNames m = hs \<and> rm_IP m = ip \<and> hs \<noteq> []))"
| "performs CtlDisconnect DoPausePruning = True"
| "performs CtlReconnect DoResumePruning = True"
| "performs CtlWarmTimer DoSetWarm = True"
| "performs CtlShutdown DoShutdown = True"
| "performs (CtlPruner a) b = (a = b \<and> pruner_action a)"
| "performs _ _ = False"

lemma view_set_sub [simp]:
  "tab (table_view (set_sub u s)) = sub_table u" "ctl_sub (set_sub u s) = u"
  "table_view (set_sub u s) = (table_view s)\<lparr>tab := sub_table u\<rparr>"
  by (simp_all add: table_view_def set_sub_def)

lemma view_simps [simp]:
  "tab (table_view s) = sub_table (ctl_sub s)" "pruner_pc (table_view s) = ctl_pc s"
  "tick_pending (table_view s) = ctl_tick s"
  by (simp_all add: table_view_def)

lemma nats_do_snd_table [simp]: "sub_table (snd (nats_do nenv c s)) = sub_table s"
  by (simp add: nats_do_def)

lemma nats_do_table: "nats_do nenv c s = (r, s') \<Longrightarrow> sub_table s' = sub_table s"
  by (auto simp: nats_do_def)

lemma nats_subscribe_table: "nats_subscribe nenv subject h s = (r, s') \<Longrightarrow> sub_table s' = sub_table s"
  by (auto simp: nats_subscribe_def nats_do_def split: option.splits)

lemma sendStartMessage_table: "sendStartMessage nenv s = Return (r, s') \<Longrightarrow> sub_table s' = sub_table s"
  by (auto simp: sendStartMessage_def subscriptionOptionsJSON_eq split: if_splits prod.splits option.splits
      dest!: nats_do_table)

lemma RunOnce_table: "RunOnce nenv s = Return (r, s') \<Longrightarrow> sub_table s' = sub_table s"
  unfolding RunOnce_def connect_and_subscribe_def setupGreetMsgHandler_def setupAddressMessageHandler_def
    subscriptionOptionsJSON_eq Close_def
  by (auto split: outcome.splits option.splits prod.splits if_splits
      dest!: nats_do_table nats_subscribe_table sendStartMessage_table)

text \<open>The subscriptions are those of the program: each handler is under its own subject.\<close>

fun handler_subject :: "handler \<Rightarrow> string" where
  "handler_subject (GreetMsgHandler _) = ''service-discovery.greet''"
| "handler_subject RegisterHandler = ''service-discovery.register''"
| "handler_subject UnregisterHandler = ''service-discovery.unregister''"

definition subs_ok :: "'t Subscriber \<Rightarrow> bool" where
  "subs_ok u \<longleftrightarrow> (\<forall>(subject, h)\<in>set (subscriptions u). subject = handler_subject h)"

lemma nats_do_subs: "nats_do nenv c s = (r, s') \<Longrightarrow> subscriptions s' = subscriptions s"
  by (auto simp: nats_do_def)

lemma nats_subscribe_subs:
  "nats_subscribe nenv (handler_subject h) h s = (r, s') \<Longrightarrow> subs_ok s \<Longrightarrow> subs_ok s'"
  by (auto simp: nats_subscribe_def subs_ok_def nats_do_def split: option.splits)

lemma sendStartMessage_subs: "sendStartMessage nenv s = Return (r, s') \<Longrightarrow> subscriptions s' = subscriptions s"
  by (auto simp: sendStartMessage_def subscriptionOptionsJSON_eq split: if_splits prod.splits option.splits
      dest!: nats_do_subs)

lemma subs_ok_cong: "subscriptions s' = subscriptions s \<Longrightarrow> subs_ok s' = subs_ok s"
  by (simp add: subs_ok_def)

lemma setup_subs:
  "setupGreetMsgHandler nenv s = Return (r, s') \<Longrightarrow> subs_ok s \<Longrightarrow> subs_ok s'"
  "setupAddressMessageHandler nenv s = (r, s') \<Longrightarrow> subs_ok s \<Longrightarrow> subs_ok s'"
  using nats_subscribe_subs [of nenv "GreetMsgHandler (start_data s)"] nats_subscribe_subs [of nenv RegisterHandler]
    nats_subscribe_subs [of nenv UnregisterHandler]
  by (fastforce simp: setupGreetMsgHandler_def setupAddressMessageHandler_def subscriptionOptionsJSON_eq
      split: prod.splits option.splits dest: nats_do_subs subs_ok_cong)+

lemma connect_subs:
  assumes "connect_and_subscribe nenv s = Return (r, s')" and "subs_ok s"
  shows "subs_ok s'"
proof -
  have timer: "subs_ok (u\<lparr>warm_timers := ts\<rparr>) = subs_ok u" for u :: "'a Subscriber" and ts by (simp add: subs_ok_def)
  obtain e s1 where 1: "nats_do nenv CallConnection s = (e, s1)" by fastforce
  let ?s2 = "snd (nats_do nenv CallConnectedUrl (s1\<lparr>natsClient := True\<rparr>))"
  have s1: "subs_ok ?s2" "subs_ok s1" using nats_do_subs [OF 1] assms(2) by (simp_all add: subs_ok_def nats_do_def)
  have send: "subs_ok s2" if "sendStartMessage nenv ?s2 = Return (e2, s2)" for e2 s2
    using sendStartMessage_subs [OF that] s1(1) by (simp add: subs_ok_def)
  show ?thesis
    using assms(1) s1(2) send
    by (auto simp: connect_and_subscribe_def 1 timer split: option.splits outcome.splits prod.splits dest: setup_subs)
qed

lemma RunOnce_subs: "RunOnce nenv s = Return (r, s') \<Longrightarrow> subs_ok s \<Longrightarrow> subs_ok s'"
proof -
  have once: "subs_ok (s\<lparr>once_done := True\<rparr>) = subs_ok s" by (simp add: subs_ok_def)
  have close: "subs_ok (Close nenv u) = subs_ok u" for u :: "'a Subscriber"
    by (simp add: Close_def nats_do_def subs_ok_def)
  assume "RunOnce nenv s = Return (r, s')" "subs_ok s"
  then show ?thesis
    by (auto simp: RunOnce_def close once split: if_splits outcome.splits option.splits dest!: connect_subs)
qed

text \<open>A handler performs at most one operation.\<close>

lemma run_handler_simulated:
  assumes "run_handler nenv table_interface msg h u = Return u'" and "tab v = sub_table u"
    and "msg_Subject msg = handler_subject h"
  shows "\<exists>as. run table_step v as (v\<lparr>tab := sub_table u'\<rparr>) \<and> (\<forall>a\<in>set as. performs (CtlMessage msg) a)"
proof (cases h)
  case (GreetMsgHandler data)
  with assms have "v\<lparr>tab := sub_table u'\<rparr> = v"
    by (auto simp: run_handler_def handle_greet_def split: if_splits)
  then show ?thesis by (rule run_stutter)
next
  case RegisterHandler
  with assms(1) have u': "u' = handle_register table_interface msg u" by (simp add: run_handler_def)
  show ?thesis
  proof (cases "sub_table u' = sub_table u")
    case True
    with assms(2) have "v\<lparr>tab := sub_table u'\<rparr> = v" by simp
    then show ?thesis by (rule run_stutter)
  next
    case False
    then obtain m where m: "unmarshal_RegistryMessage (msg_Data msg) = Some m" "rm_IP m \<noteq> []" "rm_InfraNames m \<noteq> []"
      "sub_table u' = Add (rm_InfraNames m) (rm_IP m) (sub_table u)"
      by (auto simp: u' handle_register_def table_interface_def Let_def split: option.splits if_splits)
    from m(4) assms(2) table_step.add [of v "rm_InfraNames m" "rm_IP m"] m(1-3) assms(3) RegisterHandler show ?thesis
      by (intro run_performs [of table_step _ "DoAdd (rm_InfraNames m) (rm_IP m)"]) auto
  qed
next
  case UnregisterHandler
  with assms(1) have u': "u' = handle_unregister table_interface msg u" by (simp add: run_handler_def)
  show ?thesis
  proof (cases "sub_table u' = sub_table u")
    case True
    with assms(2) have "v\<lparr>tab := sub_table u'\<rparr> = v" by simp
    then show ?thesis by (rule run_stutter)
  next
    case False
    then obtain m where m: "unmarshal_RegistryMessage (msg_Data msg) = Some m" "rm_InfraNames m \<noteq> []"
      "sub_table u' = Remove (rm_InfraNames m) (rm_IP m) (sub_table u)"
      by (auto simp: u' handle_unregister_def table_interface_def Let_def split: option.splits if_splits)
    from m(3) assms(2) table_step.remove [of v "rm_InfraNames m" "rm_IP m"] m(1-2) assms(3) UnregisterHandler show ?thesis
      by (intro run_performs [of table_step _ "DoRemove (rm_InfraNames m) (rm_IP m)"]) auto
  qed
qed

lemma run_handlers_simulated:
  assumes "run_handlers nenv table_interface msg hs u = Return u'" and "tab v = sub_table u"
    and "\<forall>h\<in>set hs. msg_Subject msg = handler_subject h"
  shows "\<exists>as. run table_step v as (v\<lparr>tab := sub_table u'\<rparr>) \<and> (\<forall>a\<in>set as. performs (CtlMessage msg) a)"
  using assms
proof (induction hs arbitrary: u v)
  case Nil
  then have "v\<lparr>tab := sub_table u'\<rparr> = v" by simp
  then show ?case by (rule run_stutter)
next
  case (Cons h hs)
  then obtain u1 where u1: "run_handler nenv table_interface msg h u = Return u1"
    "run_handlers nenv table_interface msg hs u1 = Return u'" by (auto split: outcome.splits)
  from run_handler_simulated [OF this(1) Cons.prems(2)] Cons.prems(3) obtain as where
    as: "run table_step v as (v\<lparr>tab := sub_table u1\<rparr>)" "\<forall>a\<in>set as. performs (CtlMessage msg) a" by auto
  from Cons.IH [OF u1(2), of "v\<lparr>tab := sub_table u1\<rparr>"] obtain bs where
    "run table_step (v\<lparr>tab := sub_table u1\<rparr>) bs (v\<lparr>tab := sub_table u'\<rparr>)" "\<forall>a\<in>set bs. performs (CtlMessage msg) a"
    using Cons.prems(3) by auto
  with as show ?case by (intro exI [of _ "as @ bs"]) (auto intro: run_append)
qed

lemma ctl_serve_subscriber: "ctl_serve wrap order ks path c = (r, c') \<Longrightarrow> ctl_subscriber c' = ctl_subscriber c"
  by (auto simp: ctl_serve_def split: served.splits prod.splits)

lemma ctl_emit_subscriber:
  "ctl_emit c = (vs, c') \<Longrightarrow> sub_table (ctl_subscriber c') = sub_table (ctl_subscriber c) \<and>
     subscriptions (ctl_subscriber c') = subscriptions (ctl_subscriber c)"
  by (auto simp: ctl_emit_def split: prod.splits)

lemma ctl_step_simulated:
  assumes "ctl_step nenv wrap s l s'" and "subs_ok (ctl_sub s)"
  shows "\<exists>as. run table_step (table_view s) as (table_view s') \<and> (\<forall>a\<in>set as. performs l a)"
  using assms(1)
proof cases
  case (start err u)
  then have "table_view s' = table_view s" using RunOnce_table [OF start(3)] by (simp add: table_view_def set_sub_def)
  then show ?thesis by (rule run_stutter)
next
  case (message msg u)
  with run_handlers_simulated [of nenv msg _ "ctl_sub s" u "table_view s"] assms(2) show ?thesis
    by (fastforce simp: deliver_def subs_ok_def)
next
  case disconnect
  with table_step.pause [of "table_view s"] show ?thesis
    by (intro run_performs [of table_step _ DoPausePruning]) (simp_all add: handle_disconnect_def table_interface_def)
next
  case (reconnect u)
  then have "sub_table u = ResumePruning (sub_table (ctl_sub s))"
    by (auto simp: handle_reconnect_def table_interface_def split: outcome.splits prod.splits dest!: sendStartMessage_table)
  with reconnect table_step.resume [of "table_view s"] show ?thesis
    by (intro run_performs [of table_step _ DoResumePruning]) simp_all
next
  case warm_timer
  with table_step.set_warm [of "table_view s"] show ?thesis
    by (intro run_performs [of table_step _ DoSetWarm])
       (auto simp: warm_timer_fires_def table_interface_def split: list.splits)
next
  case (request order ks path r c)
  then show ?thesis using ctl_serve_subscriber [OF request(3)] by (intro run_stutter) (simp add: table_view_def)
next
  case (emit vs c)
  then show ?thesis using ctl_emit_subscriber [OF emit(3)] by (intro run_stutter) (simp add: table_view_def)
next
  case (pruner a v)
  then have "table_view s' = v" by (simp add: table_view_def set_sub_def)
  with pruner(1,3,4) show ?thesis by (intro run_performs [of table_step _ a]) simp_all
next
  case shutdown
  then have "table_view s' = (table_view s)\<lparr>tab := Shutdown (tab (table_view s))\<rparr>"
    by (simp add: table_view_def ctl_shutdown_def Let_def Close_def)
  with shutdown table_step.shutdown [of "table_view s"] show ?thesis
    by (intro run_performs [of table_step _ DoShutdown]) simp_all
next
  case signalled
  then show ?thesis by (intro run_stutter) (simp add: table_view_def set_sub_def Close_def)
qed

lemma run_handler_subs: "run_handler nenv table_interface msg h u = Return u' \<Longrightarrow> subscriptions u' = subscriptions u"
  by (cases h)
     (auto simp: run_handler_def handle_greet_def handle_register_def handle_unregister_def nats_do_def Let_def
       split: if_splits option.splits)

lemma run_handlers_subs: "run_handlers nenv table_interface msg hs u = Return u' \<Longrightarrow> subscriptions u' = subscriptions u"
proof (induction hs arbitrary: u)
  case (Cons h hs)
  then show ?case by (auto split: outcome.splits dest!: run_handler_subs)
qed simp

lemma ctl_step_subs:
  assumes "ctl_step nenv wrap s l s'" and "subs_ok (ctl_sub s)"
  shows "subs_ok (ctl_sub s')"
  using assms(1)
proof cases
  case (start err u)
  with RunOnce_subs [OF start(3) assms(2)] show ?thesis by simp
next
  case (message msg u)
  then show ?thesis using assms(2) run_handlers_subs [of nenv msg _ "ctl_sub s" u]
    by (auto simp: deliver_def subs_ok_def)
next
  case (reconnect u)
  then show ?thesis using assms(2)
    by (auto simp: handle_reconnect_def subs_ok_def split: outcome.splits prod.splits dest!: sendStartMessage_subs)
next
  case (request order ks path r c)
  then show ?thesis using ctl_serve_subscriber [OF request(3)] assms(2) by simp
next
  case (emit vs c)
  then show ?thesis using ctl_emit_subscriber [OF emit(3)] assms(2) by (simp add: subs_ok_def)
qed (use assms(2) in \<open>auto simp: subs_ok_def handle_disconnect_def warm_timer_fires_def set_sub_def ctl_shutdown_def
      Let_def Close_def nats_do_def split: list.splits\<close>)

section \<open>Invariants\<close>

lemma table_step_warm:
  assumes "table_step s a s'" and "wf_table (tab s)"
  shows "warm (tab s') \<longleftrightarrow> warm (tab s) \<or> a = DoSetWarm"
  using assms(1)
proof cases
  case (prune cs log t')
  with pruneStaleEntriesWithWriteLock_correct(2) [OF assms(2)] obtain n where
    "prunes n (set cs) (tab s) t'" by blast
  from prunes_shift(5) [OF this] prune show ?thesis by simp
qed (auto simp: table_simps dest!: search_ticks check_ticks)

lemma table_run_warm:
  assumes "run table_step s as s'" and "wf_table (tab s)"
  shows "warm (tab s') \<longleftrightarrow> warm (tab s) \<or> DoSetWarm \<in> set as"
  using assms
proof (induction rule: run.induct)
  case (run_snoc s as s' a s'')
  have "wf_table (tab s')" by (rule table_wf.run_I [OF run_snoc.hyps(1) run_snoc.prems])
  from table_step_warm [OF run_snoc.hyps(2) this] run_snoc.IH [OF run_snoc.prems] show ?case by auto
qed simp

lemma mainWithError_subscriber:
  assumes "mainWithError env configPath = Return (Inr c)"
  shows "\<exists>conf table opts warming ip. readConfig env configPath = Inr conf \<and> buildAddressTable conf (ce_clock env) = Return table \<and>
    ctl_subscriber c = NewSubscriber opts warming table ip (NewMetricsRecorder (ce_clock env))"
  using assms
  by (auto simp: mainWithError_def buildSubscriber_def Let_def split: sum.splits option.splits prod.splits outcome.splits) blast

interpretation ctl_inv: invariant_system "ctl_init env configPath" "ctl_step nenv wrap"
    "\<lambda>s. subs_ok (ctl_sub s) \<and> wf_table (sub_table (ctl_sub s))"
proof
  fix s
  assume "ctl_init env configPath s"
  then show "subs_ok (ctl_sub s) \<and> wf_table (sub_table (ctl_sub s))"
    by (auto simp: ctl_init_def NewSubscriber_def subs_ok_def buildAddressTable_Return wf_table_New
        dest!: mainWithError_subscriber)
next
  fix s l s'
  assume inv: "subs_ok (ctl_sub s) \<and> wf_table (sub_table (ctl_sub s))" and step: "ctl_step nenv wrap s l s'"
  from ctl_step_simulated [OF step] inv obtain as where "run table_step (table_view s) as (table_view s')" by blast
  from table_wf.run_I [OF this] inv ctl_step_subs [OF step]
  show "subs_ok (ctl_sub s') \<and> wf_table (sub_table (ctl_sub s'))" by simp
qed

interpretation ctl_sim: simulation "ctl_init env configPath" "ctl_step nenv wrap"
    "\<lambda>s. subs_ok (ctl_sub s) \<and> wf_table (sub_table (ctl_sub s))" table_step table_view performs
  by unfold_locales (blast intro: ctl_step_simulated)

lemma ctl_run_simulated:
  assumes "run (ctl_step nenv wrap) s ls s'" and "subs_ok (ctl_sub s)" and "wf_table (sub_table (ctl_sub s))"
  shows "\<exists>as. run table_step (table_view s) as (table_view s') \<and> (\<forall>a\<in>set as. \<exists>l\<in>set ls. performs l a)"
  using ctl_sim.run_simulated [OF assms(1)] assms(2,3) by blast

lemma ctl_init_view:
  assumes "ctl_init env configPath s"
  obtains conf where "readConfig env configPath = Inr conf"
    and "table_init (seconds (StalenessThresholdSeconds conf)) (seconds (PruningIntervalSeconds conf))
      (seconds (ResumePruningDelaySeconds conf)) (ce_clock env) (table_view s)"
    and "subs_ok (ctl_sub s)" and "wf_table (sub_table (ctl_sub s))" and "\<not> warm (sub_table (ctl_sub s))"
    and "warm_timers (ctl_sub s) = []"
proof -
  from assms obtain conf where "readConfig env configPath = Inr conf" "buildAddressTable conf (ce_clock env) = Return (sub_table (ctl_sub s))"
    "warm_timers (ctl_sub s) = []"
    by (auto simp: ctl_init_def NewSubscriber_def dest!: mainWithError_subscriber)
  with assms ctl_inv.init_I [OF assms] show ?thesis
    by (intro that) (simp_all add: table_init_def table_view_def flip: buildAddressTable_def, simp_all add: ctl_init_def buildAddressTable_Return new_table_def)
qed

lemma ctl_run_warm:
  assumes "run (ctl_step nenv wrap) s ls s'" and "subs_ok (ctl_sub s)" and "wf_table (sub_table (ctl_sub s))"
  shows "warm (sub_table (ctl_sub s')) \<longleftrightarrow> warm (sub_table (ctl_sub s)) \<or> CtlWarmTimer \<in> set ls"
  using assms
proof (induction rule: run.induct)
  case (run_snoc s ls s' l s'')
  have s': "subs_ok (ctl_sub s')" "wf_table (tab (table_view s'))"
    using ctl_inv.run_I [OF run_snoc.hyps(1)] run_snoc.prems by auto
  have "warm (sub_table (ctl_sub s'')) \<longleftrightarrow> warm (sub_table (ctl_sub s')) \<or> CtlWarmTimer = l"
  proof (cases "l = CtlWarmTimer")
    case True
    with run_snoc.hyps(2) show ?thesis
      by (auto elim!: ctl_stepE simp: warm_timer_fires_def table_interface_def table_simps split: list.splits)
  next
    case False
    from ctl_step_simulated [OF run_snoc.hyps(2) s'(1)] obtain as where
      as: "run table_step (table_view s') as (table_view s'')" "\<forall>a\<in>set as. performs l a" by blast
    then have "DoSetWarm \<notin> set as"
      using False by (cases l) (auto simp: pruner_action_def dest!: bspec)
    with table_run_warm [OF as(1) s'(2)] False show ?thesis by simp
  qed
  with run_snoc show ?case by auto
qed simp

text \<open>An example run: start, warm up, and one registration.\<close>

definition sample_message :: nats_Msg where
  "sample_message = \<lparr>msg_Subject = ''service-discovery.register'', msg_Reply = [],
     msg_Data = json_print (registry_json
       \<lparr>rm_IP = ''10.0.0.1'', rm_InfraNames = [''app.apps.internal''], rm_EndpointUpdatedAt = 17\<rparr>)\<rparr>"

definition sample_table :: AddressTable where
  "sample_table = new_table (seconds (StalenessThresholdSeconds sample_Config)) (seconds (ResumePruningDelaySeconds sample_Config)) int"

lemma sample_buildAddressTable: "buildAddressTable sample_Config int = Return sample_table"
  unfolding buildAddressTable_Return sample_table_def
  by (simp add: sample_Config_def seconds_def second_def is_int64_def minInt64_def maxInt64_def)

lemma sample_run:
  fixes wrap
  obtains s0 s where "ctl_init sample_env ''config.json'' s0"
    and "run (ctl_step (\<lambda>_ _. None) wrap) s0 [CtlStart, CtlWarmTimer, CtlMessage sample_message] s"
    and "sub_table (ctl_sub s) = Add [''app.apps.internal''] ''10.0.0.1'' (SetWarm sample_table)"
proof -
  let ?m = "\<lparr>rm_IP = ''10.0.0.1'', rm_InfraNames = [''app.apps.internal''], rm_EndpointUpdatedAt = 17\<rparr>"
  have "SplitHostPort ''10.0.0.9:4321'' = Inr (''10.0.0.9'', ''4321'')" by code_simp
  moreover have "ce_dropsonde sample_env x y = None" "ce_GenerateUUID sample_env = Inr ''a1b2''" "ce_resolve sample_env = None"
    "ce_dial sample_env = Inr ''10.0.0.9:4321''" "ce_clock sample_env = int" for x y by (simp_all add: sample_env_def)
  ultimately have "\<exists>c opts warming ip. mainWithError sample_env ''config.json'' = Return (Inr c) \<and>
      ctl_subscriber c = NewSubscriber opts warming sample_table ip (NewMetricsRecorder int)"
    by (simp add: mainWithError_def sample_readConfig sample_buildAddressTable buildSubscriber_def Let_def LocalIP_def) blast
  then obtain c opts warming ip where c: "mainWithError sample_env ''config.json'' = Return (Inr c)"
    "ctl_subscriber c = NewSubscriber opts warming sample_table ip (NewMetricsRecorder int)" by blast
  let ?s0 = "\<lparr>ctl = c, ctl_pc = Waiting, ctl_tick = False\<rparr>"
  let ?u0 = "NewSubscriber opts warming sample_table ip (NewMetricsRecorder int)"
  obtain u1 where u1: "RunOnce (\<lambda>_ _. None) ?u0 = Return (None, u1)" "sub_table u1 = sample_table"
    "warm_timers u1 \<noteq> []" "subscriptions u1 = [(''service-discovery.greet'', GreetMsgHandler (start_data ?u0)),
      (''service-discovery.register'', RegisterHandler), (''service-discovery.unregister'', UnregisterHandler)]"
    using RunOnce_script [of ?u0 "\<lambda>_ _. None"] by (auto simp: no_failure NewSubscriber_def)
  let ?u2 = "warm_timer_fires table_interface u1"
  have u2: "sub_table ?u2 = SetWarm (sub_table u1)" "subscriptions ?u2 = subscriptions u1"
    using u1(3) by (auto simp: warm_timer_fires_def table_interface_def split: list.splits)
  let ?u3 = "handle_register table_interface sample_message ?u2"
  have "utf8_message ?m = ?m" by (simp add: utf8_message_def valid_utf8_ascii_string)
  then have m: "unmarshal_RegistryMessage (msg_Data sample_message) = Some ?m"
    using unmarshal_registry_json [of ?m]
    by (simp add: sample_message_def is_int64_def minInt64_def maxInt64_def del: json_print.simps)
  have u3: "deliver (\<lambda>_ _. None) table_interface sample_message ?u2 = Return ?u3"
    by (simp add: deliver_def u2 u1(4) run_handler_def sample_message_def)
  let ?s1 = "set_sub u1 ?s0" and ?s2 = "set_sub ?u2 (set_sub u1 ?s0)"
  have "ctl_step (\<lambda>_ _. None) wrap ?s0 CtlStart ?s1"
    by (rule ctl_step.start) (simp add: c(2) u1(1))
  moreover have "ctl_step (\<lambda>_ _. None) wrap ?s1 CtlWarmTimer ?s2"
    using ctl_step.warm_timer [of ?s1] u1(3) by simp
  moreover have "ctl_step (\<lambda>_ _. None) wrap ?s2 (CtlMessage sample_message) (set_sub ?u3 ?s2)"
    by (rule ctl_step.message) (simp add: u3)
  ultimately have "run (ctl_step (\<lambda>_ _. None) wrap) ?s0 [CtlStart, CtlWarmTimer, CtlMessage sample_message] (set_sub ?u3 ?s2)"
    by (blast intro: run_Cons run_single)
  moreover have "ctl_init sample_env ''config.json'' ?s0" by (simp add: ctl_init_def c(1))
  moreover have "sub_table ?u3 = Add [''app.apps.internal''] ''10.0.0.1'' (SetWarm sample_table)"
  proof -
    have "if_Add table_interface = Add" by (simp add: table_interface_def)
    then show ?thesis by (simp add: handle_register_def m Let_def u2(1) u1(2))
  qed
  ultimately show ?thesis using that [of ?s0 "set_sub ?u3 ?s2"] by simp
qed

lemma sample_run_lease:
  fixes wrap
  obtains s0 s where "ctl_init sample_env ''config.json'' s0"
    and "run (ctl_step (\<lambda>_ _. None) wrap) s0 [CtlStart, CtlWarmTimer, CtlMessage sample_message] s"
    and "leases (sub_table (ctl_sub s)) (fqdn ''app.apps.internal.'') ''10.0.0.1'' = Some 0"
    and "time_Sub (clock (sub_table (ctl_sub s)) 0) 0 \<le> stalenessThreshold (sub_table (ctl_sub s))"
proof -
  let ?t = "SetWarm sample_table"
  obtain s0 s where s: "ctl_init sample_env ''config.json'' s0"
    "run (ctl_step (\<lambda>_ _. None) wrap) s0 [CtlStart, CtlWarmTimer, CtlMessage sample_message] s"
    "sub_table (ctl_sub s) = Add [''app.apps.internal''] ''10.0.0.1'' ?t"
    by (rule sample_run)
  have f: "fqdn ''app.apps.internal'' = ''app.apps.internal.''" "fqdn ''app.apps.internal.'' = ''app.apps.internal.''"
    by code_simp+
  have t: "addresses ?t = Map.empty" "clock ?t = int"
    by (simp_all add: table_simps sample_table_def new_table_def)
  have "last_mention [''app.apps.internal''] ''app.apps.internal.'' = 0"
    using last_mention_less [of "''app.apps.internal.''" "[''app.apps.internal'']"] by (simp add: f)
  then have "leases (sub_table (ctl_sub s)) (fqdn ''app.apps.internal.'') ''10.0.0.1'' = Some 0"
    by (simp add: s(3) leases_Add f t)
  moreover have "clock (sub_table (ctl_sub s)) 0 = 1"
    and "stalenessThreshold (sub_table (ctl_sub s)) = 600 * second"
    by (simp_all add: s(3) table_simps sample_table_def new_table_def sample_Config_def seconds_def second_def
        int64_def)
  then have "time_Sub (clock (sub_table (ctl_sub s)) 0) 0 \<le> stalenessThreshold (sub_table (ctl_sub s))"
    by (simp only:) (simp add: time_Sub_def second_def minInt64_def maxInt64_def)
  ultimately show ?thesis using s(1,2) by (intro that)
qed

section \<open>Properties\<close>

text \<open>
  C4: the controller refines the table with its pruner. Whatever the messages, connection events,
  requests, timers and signals and their order, what happens to the table is a run of the table system
  from its initial state with the configured thresholds, in which every operation comes from an
  action that performs it: registrations only from register messages with that body, removals only
  from unregister messages, warming only from the timer.
\<close>

theorem controller_refines_table:
  assumes "ctl_init env configPath s0" and "run (ctl_step nenv wrap) s0 ls s"
  shows "\<exists>conf as. readConfig env configPath = Inr conf \<and>
    table_init (seconds (StalenessThresholdSeconds conf)) (seconds (PruningIntervalSeconds conf))
      (seconds (ResumePruningDelaySeconds conf)) (ce_clock env) (table_view s0) \<and>
    run table_step (table_view s0) as (table_view s) \<and> (\<forall>a\<in>set as. \<exists>l\<in>set ls. performs l a)"
  using assms(1)
proof (cases rule: ctl_init_view)
  case (1 conf)
  with ctl_run_simulated [OF assms(2)] show ?thesis by blast
qed

theorem controller_refines_table_witness:
  "\<exists>s0 s as. ctl_init sample_env ''config.json'' s0 \<and>
     run (ctl_step (\<lambda>_ _. None) (\<lambda>_ h. h)) s0 [CtlStart, CtlWarmTimer, CtlMessage sample_message] s \<and>
     run table_step (table_view s0) as (table_view s) \<and> TickerFires \<notin> set as"
proof -
  obtain s0 s where s: "ctl_init sample_env ''config.json'' s0"
    "run (ctl_step (\<lambda>_ _. None) (\<lambda>_ h. h)) s0 [CtlStart, CtlWarmTimer, CtlMessage sample_message] s"
    by (rule sample_run)
  from controller_refines_table [OF this] obtain as where as: "run table_step (table_view s0) as (table_view s)"
    "\<forall>a\<in>set as. \<exists>l\<in>set [CtlStart, CtlWarmTimer, CtlMessage sample_message]. performs l a" by blast
  then have "TickerFires \<notin> set as" by auto
  with s as(1) show ?thesis by blast
qed

text \<open>
  C17: a controller refuses registration requests with status 500 until its warm-up timer has fired, and
  from then on answers them all with status 200, whatever else happens in between.
\<close>

theorem controller_cold_until_timer:
  assumes "ctl_init env configPath s0" and "run (ctl_step nenv wrap) s0 ls s"
    and "path_element name" and "transparent wrap"
  shows "\<exists>rw c. ctl_serve wrap order ks (''/v1/registration/'' @ name) (ctl s) = (Served rw, c) \<and>
    fst (response rw) = (if CtlWarmTimer \<in> set ls then 200 else 500)"
  using assms(1)
proof (cases rule: ctl_init_view)
  case (1 conf)
  let ?s = "(ctl_server (ctl s))\<lparr>srv_table := sub_table (ctl_sub s)\<rparr>"
  have "warm (srv_table ?s) \<longleftrightarrow> CtlWarmTimer \<in> set ls"
    using ctl_run_warm [OF assms(2) 1(3,4)] 1(5) by simp
  with handleRegistrationRequest_table(1) [of "''/v1/registration/'' @ name" ?s] show ?thesis
    unfolding ctl_serve_def serve_registration [OF assms(3,4)]
    by (auto simp del: append_Cons append_Nil split: prod.splits)
qed

theorem controller_cold_until_timer_witness:
  "\<exists>s0 s rw c. ctl_init sample_env ''config.json'' s0 \<and>
     run (ctl_step (\<lambda>_ _. None) (\<lambda>_ h. h)) s0 [CtlStart, CtlWarmTimer, CtlMessage sample_message] s \<and>
     ctl_serve (\<lambda>_ h. h) [] [] ''/v1/registration/app.apps.internal'' (ctl s) = (Served rw, c) \<and>
     fst (response rw) = 200"
proof -
  obtain s0 s where s: "ctl_init sample_env ''config.json'' s0"
    "run (ctl_step (\<lambda>_ _. None) (\<lambda>_ h. h)) s0 [CtlStart, CtlWarmTimer, CtlMessage sample_message] s"
    by (rule sample_run)
  have "path_element ''app.apps.internal''" by (simp add: path_element_def)
  moreover have "transparent (\<lambda>_ h. h)" by (simp add: transparent_def)
  ultimately show ?thesis using controller_cold_until_timer [OF s, of "''app.apps.internal''" "[]" "[]"] s by auto
qed

text \<open>
  The guarantee for applications, across all components of the controller. Once an IP holds a lease
  for a hostname, then after any further messages, disconnections, reconnections, requests and pruning
  rounds, as long as no unregister message names the IP and the hostname, and the clock (which does not
  go back) shows the lease no older than the staleness threshold, the IP is among the answers.
\<close>

theorem registered_ip_stays_answered:
  assumes "ctl_init env configPath s0" and "monotone_clock (ce_clock env)"
    and "run (ctl_step nenv wrap) s0 ls1 s" and "leases (sub_table (ctl_sub s)) (fqdn h) i = Some u"
    and "run (ctl_step nenv wrap) s ls2 s'"
    and "\<forall>msg m. CtlMessage msg \<in> set ls2 \<and> msg_Subject msg = ''service-discovery.unregister'' \<and>
       unmarshal_RegistryMessage (msg_Data msg) = Some m \<longrightarrow> rm_IP m \<noteq> i \<or> fqdn h \<notin> fqdn ` set (rm_InfraNames m)"
    and "time_Sub (clock (sub_table (ctl_sub s')) 0) u \<le> stalenessThreshold (sub_table (ctl_sub s))"
  shows "i \<in> set (Lookup (sub_table (ctl_sub s')) h)"
  using assms(1)
proof (cases rule: ctl_init_view)
  case (1 conf)
  obtain as where as: "run table_step (table_view s0) as (table_view s)"
    using ctl_run_simulated [OF assms(3) 1(3,4)] by blast
  have past: "wf_table (tab (table_view s)) \<and> past_leases (tab (table_view s))"
    using table_past.run_I [OF as] table_past.init_I [of _ _ _ _ "table_view s0"] 1(2) assms(2) by blast
  have "subs_ok (ctl_sub s)" using ctl_inv.run_I [OF assms(3)] 1(3,4) by blast
  then obtain bs where bs: "run table_step (table_view s) bs (table_view s')"
    "\<forall>a\<in>set bs. \<exists>l\<in>set ls2. performs l a"
    using ctl_run_simulated [OF assms(5)] past by auto
  have "\<not> unregisters (fqdn h) i a" if "a \<in> set bs" for a
  proof -
    from bs(2) that obtain l where l: "l \<in> set ls2" "performs l a" by blast
    with assms(6) show ?thesis
      by (cases a; cases l) (auto simp: unregisters_def pruner_action_def)
  qed
  with run_keeps_fresh_lease [OF bs(1), of "fqdn h" i u] past assms(4,7)
  show ?thesis by (auto simp: set_Lookup)
qed

section \<open>The request metric\<close>

text \<open>The requests that the mux hands to the registration handler.\<close>

fun registration_request :: "ctl_action \<Rightarrow> bool" where
  "registration_request (CtlRequest path) = (mux_Handler server_mux path = MuxHandler RegistrationRoute)"
| "registration_request _ = False"

lemma serve_recorder:
  assumes "transparent wrap" and "ctl_serve wrap order ks path c = (r, c')"
  shows "srv_recorder (ctl_server c') =
    (if registration_request (CtlRequest path) \<and> warm (sub_table (ctl_subscriber c))
     then RecordRequest (srv_recorder (ctl_server c)) else srv_recorder (ctl_server c))"
proof -
  let ?s = "(ctl_server c)\<lparr>srv_table := sub_table (ctl_subscriber c)\<rparr>"
  have reg: "srv_recorder (snd (handleRegistrationRequest routes_interface path (new_response None, ?s))) =
      (if warm (sub_table (ctl_subscriber c)) then RecordRequest (srv_recorder (ctl_server c)) else srv_recorder (ctl_server c))"
    by (simp add: handleRegistrationRequest_table(2))
  have lst: "snd (handleRoutesRequest routes_interface order ks path (new_response None, ?s)) = ?s"
    by (simp add: handleRoutesRequest_def json_Marshal_def Let_def)
  show ?thesis
  proof (cases "mux_Handler server_mux path")
    case (MuxHandler h)
    with assms reg lst show ?thesis
      by (cases h) (auto simp: ctl_serve_def serve_def transparent_def split: prod.splits)
  qed (use assms in \<open>auto simp: ctl_serve_def serve_def\<close>)
qed

lemma ctl_step_recorder:
  assumes "ctl_step nenv wrap s l s'" and "transparent wrap" and "l \<noteq> CtlEmit"
  shows "srv_recorder (ctl_server (ctl s')) =
    (if registration_request l \<and> warm (sub_table (ctl_sub s)) then RecordRequest (srv_recorder (ctl_server (ctl s)))
     else srv_recorder (ctl_server (ctl s)))"
  using assms(1)
proof cases
  case (request order ks path r c)
  with serve_recorder [OF assms(2) request(3)] show ?thesis by simp
qed (use assms(3) in \<open>auto simp: set_sub_def ctl_shutdown_def Let_def\<close>)

lemma ctl_run_recorder:
  assumes "run (ctl_step nenv wrap) s ls s'" and "transparent wrap" and "CtlEmit \<notin> set ls"
    and "subs_ok (ctl_sub s)" and "wf_table (sub_table (ctl_sub s))" and "warm (sub_table (ctl_sub s))"
  shows "srv_recorder (ctl_server (ctl s')) =
    (RecordRequest ^^ length (filter registration_request ls)) (srv_recorder (ctl_server (ctl s)))"
  using assms
proof (induction rule: run.induct)
  case (run_snoc s ls s' l s'')
  have "warm (sub_table (ctl_sub s'))" using ctl_run_warm [OF run_snoc.hyps(1)] run_snoc.prems by simp
  with ctl_step_recorder [OF run_snoc.hyps(2)] run_snoc show ?case by auto
qed simp

text \<open>
  C29: the metric \<open>dnsRequest\<close> counts answered lookups. From one round of the metrics emitter to the next,
  whatever happens in between, the value it reads is the number of requests that reached the
  registration handler of the warm controller, and reading it starts the count again.
\<close>

theorem emitted_requests_count_answers:
  assumes "ctl_init env configPath s0" and "run (ctl_step nenv wrap) s0 ls0 s" and "CtlWarmTimer \<in> set ls0"
    and "transparent wrap" and "ctl_step nenv wrap s CtlEmit s1" and "run (ctl_step nenv wrap) s1 ls s2"
    and "CtlEmit \<notin> set ls" and "int (length ls) \<le> maxInt64"
  shows "hd (fst (ctl_emit (ctl s2))) = of_nat (length (filter registration_request ls)) \<and>
    requestCount (srv_recorder (ctl_server (snd (ctl_emit (ctl s2))))) = 0"
proof -
  let ?n = "length (filter registration_request ls)"
  let ?inv = "\<lambda>s. subs_ok (ctl_sub s) \<and> wf_table (sub_table (ctl_sub s))"
  have run1: "run (ctl_step nenv wrap) s0 (ls0 @ [CtlEmit]) s1" using assms(2,5) by (rule run_snoc)
  have "?inv s0" using assms(1) by (rule ctl_inv.init_I)
  with ctl_run_warm [OF run1] assms(3) ctl_inv.run_I [OF run1]
  have s1: "?inv s1" "warm (sub_table (ctl_sub s1))" by simp_all
  have zero: "requestCount (srv_recorder (ctl_server (ctl s1))) = 0"
    using assms(5) by cases (auto simp: ctl_emit_def Getter_def Let_def split: prod.splits)
  have "int ?n \<le> maxInt64" using assms(8) length_filter_le [of registration_request ls] by linarith
  then have "is_int64 (int ?n)" by (simp add: is_int64_def minInt64_def)
  then have "requestCount (srv_recorder (ctl_server (ctl s2))) = int ?n"
    using ctl_run_recorder [OF assms(6,4,7)] s1 zero
      requestCount_records [of "srv_recorder (ctl_server (ctl s1))" ?n] by (simp add: is_int64_def minInt64_def maxInt64_def)
  then show ?thesis
    by (simp add: ctl_emit_def Getter_def Let_def split: prod.splits)
qed

theorem emitted_requests_count_answers_witness:
  "\<exists>s0 s s1 s2. ctl_init sample_env ''config.json'' s0 \<and>
     run (ctl_step (\<lambda>_ _. None) (\<lambda>_ h. h)) s0 [CtlStart, CtlWarmTimer, CtlMessage sample_message] s \<and>
     ctl_step (\<lambda>_ _. None) (\<lambda>_ h. h) s CtlEmit s1 \<and>
     run (ctl_step (\<lambda>_ _. None) (\<lambda>_ h. h)) s1 [CtlRequest ''/routes'', CtlRequest ''/v1/registration/app.apps.internal''] s2 \<and>
     hd (fst (ctl_emit (ctl s2))) = 1"
proof -
  let ?step = "ctl_step (\<lambda>_ _. None) (\<lambda>_ h. h)"
  obtain s0 s where s: "ctl_init sample_env ''config.json'' s0"
    "run ?step s0 [CtlStart, CtlWarmTimer, CtlMessage sample_message] s"
    by (rule sample_run)
  let ?s1 = "s\<lparr>ctl := snd (ctl_emit (ctl s))\<rparr>"
  have emit: "?step s CtlEmit ?s1" by (rule ctl_step.emit [OF prod.collapse [symmetric]])
  have request: "\<exists>s'. ?step s (CtlRequest path) s'" for s path
    using ctl_step.request [of _ _ _ path s] by (metis surj_pair)
  obtain s2 s3 where "?step ?s1 (CtlRequest ''/routes'') s2"
    "?step s2 (CtlRequest ''/v1/registration/app.apps.internal'') s3" using request by meson
  then have run: "run ?step ?s1 [CtlRequest ''/routes'', CtlRequest ''/v1/registration/app.apps.internal''] s3"
    by (blast intro: run_Cons run_Nil)
  have mux: "mux_Handler server_mux ''/routes'' = MuxHandler RoutesRoute"
    "mux_Handler server_mux ''/v1/registration/app.apps.internal'' = MuxHandler RegistrationRoute" by code_simp+
  have tr: "transparent (\<lambda>_ h. h)" by (simp add: transparent_def)
  have "hd (fst (ctl_emit (ctl s3))) = 1"
    using emitted_requests_count_answers [OF s _ tr emit run] by (simp add: mux maxInt64_def)
  with s emit run show ?thesis by blast
qed

end
