(* ===== verification/Sdc_Client.thy ===== *)
theory Sdc_Client
  imports Go_Http
begin

text \<open>
  Model of \<open>bosh-dns-adapter/sdcclient/service_discovery_client.go\<close>: the client of the controller's HTTP
  server. The answers of the network are an argument, one per try; so are the file system and the
  certificate libraries, and the random numbers of \<open>shuffle\<close>.
\<close>

section \<open>The client\<close>

record ('cert, 'pool) tls_Config =
  MinVersion :: int
  ClientCAs :: 'pool
  RootCAs :: 'pool
  Certificates :: "'cert list"

record ('cert, 'pool) http_Transport =
  TLSClientConfig :: "('cert, 'pool) tls_Config"
  Dial_Timeout :: duration
  Dial_KeepAlive :: duration
  IdleConnTimeout :: duration
  MaxIdleConns :: int
  TLSHandshakeTimeout :: duration
  ExpectContinueTimeout :: duration

record ('cert, 'pool) http_Client =
  Transport :: "('cert, 'pool) http_Transport"
  Timeout :: duration

record ('cert, 'pool) ServiceDiscoveryClient =
  serverURL :: string
  client :: "('cert, 'pool) http_Client"

text \<open>\<open>tls.VersionTLS12\<close>.\<close>

definition VersionTLS12 :: int where
  "VersionTLS12 = 0x0303"

definition NewServiceDiscoveryClient ::
    "('cert, 'pool) cert_env \<Rightarrow> string \<Rightarrow> string \<Rightarrow> string \<Rightarrow> string \<Rightarrow>
     go_error + ('cert, 'pool) ServiceDiscoveryClient" where
  "NewServiceDiscoveryClient env url caPath clientCertPath clientKeyPath =
     (case ReadFile env caPath of
        Inl err \<Rightarrow> Inl (''read CA file: '' @ err)
      | Inr caPemBytes \<Rightarrow>
          (let (ok, caCertPool) = AppendCertsFromPEM env caPemBytes
           in if \<not> ok then Inl ''load CA file into cert pool''
              else case LoadX509KeyPair env clientCertPath clientKeyPath of
                     Inl err \<Rightarrow> Inl (''load client key pair: '' @ err)
                   | Inr cert \<Rightarrow>
                       Inr \<lparr>serverURL = url,
                            client = \<lparr>Transport =
                              \<lparr>TLSClientConfig = \<lparr>MinVersion = VersionTLS12, ClientCAs = caCertPool,
                                 RootCAs = caCertPool, Certificates = [cert]\<rparr>,
                               Dial_Timeout = 30 * second, Dial_KeepAlive = 30 * second,
                               IdleConnTimeout = 90 * second, MaxIdleConns = 100,
                               TLSHandshakeTimeout = 5 * second, ExpectContinueTimeout = 1 * second\<rparr>,
                              Timeout = second * 10\<rparr>\<rparr>))"

section \<open>Shuffling\<close>

text \<open>
  The loop shrinks the window \<open>vals\<close> by one element per round; \<open>intn n\<close> is the random number of the
  round in which the window has \<open>n\<close> elements. \<open>Intn\<close> returns a number below its argument.
\<close>

definition Intn_bounded :: "(nat \<Rightarrow> nat) \<Rightarrow> bool" where
  "Intn_bounded intn \<longleftrightarrow> (\<forall>n>0. intn n < n)"

fun shuffle_loop :: "(nat \<Rightarrow> nat) \<Rightarrow> nat \<Rightarrow> 'a list \<Rightarrow> 'a list" where
  "shuffle_loop intn 0 vals = vals"
| "shuffle_loop intn (Suc m) vals =
     (let randIndex = intn (Suc m)
      in shuffle_loop intn m (vals[m := vals ! randIndex, randIndex := vals ! m]))"

definition shuffle_ips :: "(nat \<Rightarrow> nat) \<Rightarrow> 'a list \<Rightarrow> 'a list" where
  "shuffle_ips intn vals = shuffle_loop intn (length vals) vals"

section \<open>Asking the controller\<close>

record client_host =
  ch_IPAddress :: string

record serverResponse =
  sr_Hosts :: "client_host list"

definition assign_client_host :: "string \<Rightarrow> json \<Rightarrow> client_host \<Rightarrow> client_host option" where
  "assign_client_host f v h =
     (if f = ''ip_address'' then map_option (\<lambda>x. h\<lparr>ch_IPAddress := x\<rparr>) (decode_string v (ch_IPAddress h))
      else Some h)"

definition assign_serverResponse :: "string \<Rightarrow> json \<Rightarrow> serverResponse \<Rightarrow> serverResponse option" where
  "assign_serverResponse f v r =
     (if f = ''Hosts'' then map_option (\<lambda>x. r\<lparr>sr_Hosts := x\<rparr>)
        (decode_slice \<lparr>ch_IPAddress = []\<rparr> (decode_struct [''ip_address''] assign_client_host) v (sr_Hosts r))
      else Some r)"

text \<open>
  The target of \<open>Unmarshal\<close> is a pointer: the document \<open>null\<close> makes it nil (\<open>Some None\<close>), any other one
  decodes into a new struct.
\<close>

definition unmarshal_serverResponse :: "string \<Rightarrow> serverResponse option option" where
  "unmarshal_serverResponse data =
     (case json_parse data of
        None \<Rightarrow> None
      | Some JNull \<Rightarrow> Some None
      | Some v \<Rightarrow> map_option Some (decode_struct [''Hosts''] assign_serverResponse v \<lparr>sr_Hosts = []\<rparr>))"

type_synonym http_Get = "string \<Rightarrow> nat \<Rightarrow> go_error + http_Response"

text \<open>
  The loop of four tries. A response is kept with the number of its try; the tries whose body is to be
  closed by a deferred call are pushed on a stack.
\<close>

function get_loop ::
    "http_Get \<Rightarrow> string \<Rightarrow> nat \<Rightarrow> (nat \<times> http_Response) option \<Rightarrow> nat list \<Rightarrow>
     (go_error + (nat \<times> http_Response) option) \<times> nat list" where
  "get_loop get requestUrl i httpResp deferred =
     (if i < 4
      then (case get requestUrl i of
              Inl err \<Rightarrow> (Inl err, deferred)
            | Inr r \<Rightarrow> if StatusCode r = 200 then (Inr (Some (i, r)), deferred)
                       else get_loop get requestUrl (Suc i) (Some (i, r)) (i # deferred))
      else (Inr httpResp, deferred))"
  by pat_completeness auto
termination by (relation "measure (\<lambda>(_, _, i, _). 4 - i)") auto

declare get_loop.simps [simp del]

text \<open>
  The result of \<open>IPs\<close> and the tries whose bodies were closed, in the order of closing: first the one that
  was read, then the deferred ones, last in first out.
\<close>

definition IPs ::
    "http_Get \<Rightarrow> (http_Response \<Rightarrow> string) \<Rightarrow> (string \<Rightarrow> go_error) \<Rightarrow> (nat \<Rightarrow> nat) \<Rightarrow>
     ('cert, 'pool) ServiceDiscoveryClient \<Rightarrow> string \<Rightarrow> (go_error + string list) outcome \<times> nat list" where
  "IPs get show_response json_error intn s infrastructureName =
     (let requestUrl = serverURL s @ ''/v1/registration/'' @ infrastructureName
      in case get_loop get requestUrl 0 None [] of
           (Inl err, deferred) \<Rightarrow> (Return (Inl err), deferred)
         | (Inr None, deferred) \<Rightarrow> (Panic NilDereference, deferred)
         | (Inr (Some (k, httpResp)), deferred) \<Rightarrow>
             if StatusCode httpResp \<noteq> 200
             then (Return (Inl (''Received non successful response from server: '' @ show_response httpResp)), deferred)
             else case Body httpResp of
                    Inl err \<Rightarrow> (Return (Inl err), k # deferred)
                  | Inr bytes \<Rightarrow>
                      (case unmarshal_serverResponse bytes of
                         None \<Rightarrow> (Return (Inl (json_error bytes)), k # deferred)
                       | Some None \<Rightarrow> (Panic NilDereference, k # deferred)
                       | Some (Some r) \<Rightarrow>
                           (Return (Inr (shuffle_ips intn (map ch_IPAddress (sr_Hosts r)))), k # deferred)))"

section \<open>Facts about shuffling\<close>

lemma length_shuffle_loop [simp]: "length (shuffle_loop intn n vals) = length vals"
  by (induction n arbitrary: vals) (simp_all add: Let_def)

lemma mset_shuffle_loop:
  assumes "Intn_bounded intn" and "n \<le> length vals"
  shows "mset (shuffle_loop intn n vals) = mset vals"
  using assms(2)
proof (induction n arbitrary: vals)
  case (Suc m)
  have "intn (Suc m) < Suc m" using assms(1) by (simp add: Intn_bounded_def)
  then have "intn (Suc m) < length vals" "m < length vals" using Suc.prems by simp_all
  then have "mset (vals[m := vals ! intn (Suc m), intn (Suc m) := vals ! m]) = mset vals"
    by (rule mset_swap)
  with Suc show ?case by (simp add: Let_def)
qed simp

lemma shuffle_loop_cong:
  "(\<And>k. k \<le> n \<Longrightarrow> f k = g k) \<Longrightarrow> shuffle_loop f n vals = shuffle_loop g n vals"
  by (induction n arbitrary: vals) (simp_all add: Let_def)

text \<open>Every order of the window can come out.\<close>

lemma shuffle_loop_reaches:
  assumes "n \<le> length vals" and "length ys = length vals"
    and "mset (take n ys) = mset (take n vals)" and "drop n ys = drop n vals"
  shows "\<exists>intn. Intn_bounded intn \<and> shuffle_loop intn n vals = ys"
  using assms
proof (induction n arbitrary: vals)
  case 0
  then have "ys = vals" by simp
  then show ?case by (intro exI [of _ "\<lambda>_. 0"]) (simp add: Intn_bounded_def)
next
  case (Suc m)
  then have m: "m < length vals" "m < length ys" by simp_all
  have "ys ! m \<in># mset (take (Suc m) vals)"
    using m(2) by (simp flip: Suc.prems(3) add: take_Suc_conv_app_nth)
  then obtain j where j: "j < Suc m" "vals ! j = ys ! m"
    using m(1) by (auto simp: in_set_conv_nth)
  let ?vals = "vals[m := vals ! j, j := vals ! m]"
  have nth: "?vals ! m = ys ! m" using j m by (cases "j = m") auto
  have "drop m ys = drop m ?vals"
    using Suc.prems(4) j m nth by (simp add: Cons_nth_drop_Suc [symmetric])
  moreover have take: "mset (take (Suc m) ?vals) = mset (take (Suc m) vals)"
    using mset_swap [of j "take (Suc m) vals" m] j m by (simp add: take_update_swap)
  have "mset (take m ys) = mset (take m ?vals)"
    using Suc.prems(3) nth m take
    by (simp add: take_Suc_conv_app_nth) (metis add_mset_remove_trivial)
  ultimately obtain intn where intn: "Intn_bounded intn" "shuffle_loop intn m ?vals = ys"
    using Suc.IH [of ?vals] m Suc.prems(2) by auto
  have "shuffle_loop (intn(Suc m := j)) m ?vals = shuffle_loop intn m ?vals"
    by (rule shuffle_loop_cong) simp
  then have "shuffle_loop (intn(Suc m := j)) (Suc m) vals = ys"
    using intn(2) by (simp only: shuffle_loop.simps Let_def fun_upd_same)
  moreover have "Intn_bounded (intn(Suc m := j))" using intn(1) j(1) by (simp add: Intn_bounded_def)
  ultimately show ?case by blast
qed

section \<open>Facts about the tries\<close>

text \<open>The tries that failed with a response other than 200 before anything else happened.\<close>

definition refused :: "http_Get \<Rightarrow> string \<Rightarrow> nat \<Rightarrow> bool" where
  "refused get url i = (case get url i of Inl _ \<Rightarrow> False | Inr r \<Rightarrow> StatusCode r \<noteq> 200)"

lemma get_loop_refused:
  assumes "\<forall>i<k. refused get url i" and "k \<le> 4"
  shows "get_loop get url 0 None [] = get_loop get url k
     (if k = 0 then None else Some (k - 1, projr (get url (k - 1)))) (rev [0..<k])"
  using assms
proof (induction k)
  case (Suc k)
  then have "refused get url k" by simp
  then obtain r where r: "get url k = Inr r" "StatusCode r \<noteq> 200"
    by (auto simp: refused_def split: sum.splits)
  with Suc have "get_loop get url 0 None [] = get_loop get url k
      (if k = 0 then None else Some (k - 1, projr (get url (k - 1)))) (rev [0..<k])" by simp
  also have "\<dots> = get_loop get url (Suc k) (Some (k, r)) (k # rev [0..<k])"
    using Suc.prems(2) r by (subst get_loop.simps) simp
  finally show ?case using r by simp
qed simp

lemma get_loop_cases:
  obtains (error) k e where "k < 4" "\<forall>i<k. refused get url i" "get url k = Inl e"
      "get_loop get url 0 None [] = (Inl e, rev [0..<k])"
  | (ok) k r where "k < 4" "\<forall>i<k. refused get url i" "get url k = Inr r" "StatusCode r = 200"
      "get_loop get url 0 None [] = (Inr (Some (k, r)), rev [0..<k])"
  | (refused) r where "\<forall>i<4. refused get url i" "get url 3 = Inr r" "StatusCode r \<noteq> 200"
      "get_loop get url 0 None [] = (Inr (Some (3, r)), rev [0..<4])"
proof (cases "\<forall>i<4. refused get url i")
  case True
  then have "refused get url 3" by simp
  then obtain r where r: "get url 3 = Inr r" "StatusCode r \<noteq> 200"
    by (auto simp: refused_def split: sum.splits)
  have "get_loop get url 0 None [] = (Inr (Some (3, r)), rev [0..<4])"
    using get_loop_refused [OF True] r by (simp add: get_loop.simps)
  with True r show ?thesis by (rule that(3))
next
  case False
  define k where "k = (LEAST i. \<not> refused get url i)"
  obtain j where j: "j < 4" "\<not> refused get url j" using False by blast
  have k: "\<not> refused get url k" "k < 4"
    using LeastI [of "\<lambda>i. \<not> refused get url i", OF j(2)] Least_le [of "\<lambda>i. \<not> refused get url i", OF j(2)] j(1)
    by (simp_all add: k_def)
  have before: "\<forall>i<k. refused get url i" unfolding k_def using not_less_Least by blast
  note loop = get_loop_refused [OF before] get_loop.simps [of get url k]
  show ?thesis
  proof (cases "get url k")
    case (Inl e)
    with k loop before show ?thesis by (intro that(1) [of k e]) simp_all
  next
    case (Inr r)
    with k have "StatusCode r = 200" by (simp add: refused_def)
    with Inr k loop before show ?thesis by (intro that(2) [of k r]) simp_all
  qed
qed

section \<open>Properties\<close>

text \<open>
  C15: \<open>shuffle\<close> returns a permutation of its argument, whatever random numbers it draws, and every
  permutation is possible: for each one there are random numbers that produce it.
\<close>

theorem shuffle_gives_exactly_permutations:
  "{ys. \<exists>intn. Intn_bounded intn \<and> shuffle_ips intn vals = ys} = {ys. mset ys = mset vals}"
proof (intro equalityI subsetI; clarsimp)
  fix ys
  assume "mset ys = mset vals"
  moreover from this have "length ys = length vals" by (rule mset_eq_length)
  ultimately show "\<exists>intn. Intn_bounded intn \<and> shuffle_ips intn vals = ys"
    using shuffle_loop_reaches [of "length vals" vals ys] by (simp add: shuffle_ips_def)
qed (simp add: shuffle_ips_def mset_shuffle_loop)

text \<open>
  C14: \<open>IPs\<close> makes at most four tries. The first failed request ends it with that request's error; the first
  response with status 200 ends the tries and is decoded; four responses with another status give an
  error. It never returns with a nil response, and every response it was given is closed exactly once,
  whatever the outcome.
\<close>

theorem IPs_tries_and_closes:
  fixes get :: http_Get and s :: "('cert, 'pool) ServiceDiscoveryClient" and name :: string
  defines "url \<equiv> serverURL s @ ''/v1/registration/'' @ name"
  shows "(\<exists>k<4. (\<forall>i<k. refused get url i) \<and>
            (case get url k of
               Inl e \<Rightarrow> IPs get show_response json_error intn s name = (Return (Inl e), rev [0..<k])
             | Inr r \<Rightarrow> StatusCode r = 200 \<and> snd (IPs get show_response json_error intn s name) = k # rev [0..<k] \<and>
                 fst (IPs get show_response json_error intn s name) =
                   (case Body r of Inl e \<Rightarrow> Return (Inl e)
                    | Inr bytes \<Rightarrow> (case unmarshal_serverResponse bytes of
                         None \<Rightarrow> Return (Inl (json_error bytes))
                       | Some None \<Rightarrow> Panic NilDereference
                       | Some (Some hs) \<Rightarrow> Return (Inr (shuffle_ips intn (map ch_IPAddress (sr_Hosts hs))))))))
       \<or> ((\<forall>i<4. refused get url i) \<and>
            IPs get show_response json_error intn s name =
              (Return (Inl (''Received non successful response from server: '' @ show_response (projr (get url 3)))),
               [3, 2, 1, 0]))"
proof -
  have upt: "rev [0..<4] = [3, 2, 1, 0::nat]" by (simp add: upt_rec)
  note ips = IPs_def [of get show_response json_error intn s name, folded url_def, unfolded Let_def]
  show ?thesis
  proof (cases rule: get_loop_cases [of get url])
    case (error k e)
    then show ?thesis by (intro disjI1 exI [of _ k]) (simp add: ips)
  next
    case (ok k r)
    then show ?thesis
      by (intro disjI1 exI [of _ k]) (simp add: ips split: sum.splits option.splits)
  next
    case (refused r)
    then show ?thesis by (intro disjI2) (simp add: ips upt)
  qed
qed

text \<open>A concrete client, for the examples.\<close>

definition sample_client :: "(unit, unit) ServiceDiscoveryClient" where
  "sample_client =
     \<lparr>serverURL = ''https://sdc:8054'', client = \<lparr>Transport =
        \<lparr>TLSClientConfig = \<lparr>MinVersion = VersionTLS12, ClientCAs = (), RootCAs = (), Certificates = [()]\<rparr>,
         Dial_Timeout = 30 * second, Dial_KeepAlive = 30 * second, IdleConnTimeout = 90 * second,
         MaxIdleConns = 100, TLSHandshakeTimeout = 5 * second, ExpectContinueTimeout = second\<rparr>,
        Timeout = 10 * second\<rparr>\<rparr>"

theorem IPs_tries_and_closes_witness:
  "IPs (\<lambda>_ i. if i = 0 then Inr \<lparr>StatusCode = 500, Body = Inr []\<rparr> else Inl ''connection refused'')
     (\<lambda>_. []) (\<lambda>_. []) (\<lambda>_. 0) sample_client ''a.apps.internal''
   = (Return (Inl ''connection refused''), [0])"
proof -
  let ?get = "\<lambda>(_::string) i::nat. if i = 0 then Inr \<lparr>StatusCode = 500, Body = Inr []\<rparr> else Inl ''connection refused''"
  have refused: "refused ?get url i \<longleftrightarrow> i = 0" for url i by (simp add: refused_def)
  have four: "(\<exists>k<4. P k) \<longleftrightarrow> P 0 \<or> P 1 \<or> P 2 \<or> P 3" for P :: "nat \<Rightarrow> bool"
    by (auto simp: less_Suc_eq numeral_eq_Suc)
  have no: "(\<forall>i<2. i = (0::nat)) = False" "(\<forall>i<3. i = (0::nat)) = False" "(\<forall>i<4. i = (0::nat)) = False"
    by (auto intro!: exI [of _ 1])
  show ?thesis
    using IPs_tries_and_closes [of ?get sample_client "''a.apps.internal''" "\<lambda>_. []" "\<lambda>_. []" "\<lambda>_. 0"]
    unfolding refused four no by simp
qed

text \<open>
  C39: a server that answers \<open>null\<close> with status 200 crashes the client: the decoded pointer is nil and
  \<open>IPs\<close> panics when it reads the hosts.
\<close>

theorem null_answer_panics:
  assumes "get (serverURL s @ ''/v1/registration/'' @ name) 0 = Inr \<lparr>StatusCode = 200, Body = Inr ''null''\<rparr>"
  shows "fst (IPs get show_response json_error intn s name) = Panic NilDereference"
proof -
  have "json_parse ''null'' = Some JNull" by code_simp
  then have "unmarshal_serverResponse ''null'' = Some None" by (simp add: unmarshal_serverResponse_def)
  then show ?thesis using assms by (simp add: IPs_def get_loop.simps [of _ _ 0])
qed

theorem null_answer_panics_witness:
  "fst (IPs (\<lambda>_ _. Inr \<lparr>StatusCode = 200, Body = Inr ''null''\<rparr>) (\<lambda>_. []) (\<lambda>_. []) (\<lambda>_. 0)
     sample_client ''a.apps.internal'') = Panic NilDereference"
  by (rule null_answer_panics) simp

text \<open>
  Creating a client. It fails, naming the step, when the CA file cannot be read, has no usable
  certificate, or the key pair cannot be loaded; otherwise the client talks TLS 1.2 or later, trusts
  only the given CA, presents the loaded certificate, and bounds a request by ten seconds.
\<close>

theorem NewServiceDiscoveryClient_outcomes:
  "NewServiceDiscoveryClient env url ca crt key = Inr c \<longleftrightarrow>
     (\<exists>pem pool cert. ReadFile env ca = Inr pem \<and> AppendCertsFromPEM env pem = (True, pool) \<and>
        LoadX509KeyPair env crt key = Inr cert \<and> serverURL c = url \<and>
        TLSClientConfig (Transport (client c)) =
          \<lparr>MinVersion = VersionTLS12, ClientCAs = pool, RootCAs = pool, Certificates = [cert]\<rparr> \<and>
        Timeout (client c) = 10 * second \<and>
        Transport (client c) =
          \<lparr>TLSClientConfig = TLSClientConfig (Transport (client c)), Dial_Timeout = 30 * second,
           Dial_KeepAlive = 30 * second, IdleConnTimeout = 90 * second, MaxIdleConns = 100,
           TLSHandshakeTimeout = 5 * second, ExpectContinueTimeout = second\<rparr>)"
  by (cases c; cases "client c")
     (auto simp: NewServiceDiscoveryClient_def split: sum.splits prod.splits if_splits)

end
