(* ===== verification/Dns_Adapter.thy ===== *)
theory Dns_Adapter
  imports Sdc_Client Configs
begin

text \<open>
  Model of \<open>bosh-dns-adapter/main.go\<close>: the HTTP server that BOSH DNS asks, which asks the controller and
  answers in the JSON format of DNS over HTTPS, and the start of the process. The constants of the
  package \<open>dnsmessage\<close>, the network and the metrics library are arguments.
\<close>

section \<open>Responses\<close>

record dnsmessage =
  RCodeSuccess :: int
  RCodeServerFailure :: int
  TypeA :: int

record Answer =
  ans_Name :: string
  RRType :: int
  TTL :: int
  Data :: string

definition answer_json :: "Answer \<Rightarrow> json" where
  "answer_json a = JObj
     [(''name'', JStr (ans_Name a)), (''type'', JInt (RRType a)), (''TTL'', JInt (TTL a)), (''data'', JStr (Data a))]"

text \<open>A line of the template, with its indentation.\<close>

definition line :: "nat \<Rightarrow> string \<Rightarrow> string" where
  "line tabs s = CHR 0x0A # replicate tabs (CHR 0x09) @ s"

text \<open>A name in quotation marks followed by a colon.\<close>

definition json_key :: "string \<Rightarrow> string" where
  "json_key k = dquote # k @ [dquote, CHR '':'']"

definition response_template :: "int \<Rightarrow> string \<Rightarrow> string \<Rightarrow> string \<Rightarrow> string" where
  "response_template status name dnsType answers =
     ''{''
     @ line 2 (json_key ''Status'') @ '' '' @ show_int status @ '',''
     @ line 2 (json_key ''TC'') @ '' false,''
     @ line 2 (json_key ''RD'') @ '' false,''
     @ line 2 (json_key ''RA'') @ '' false,''
     @ line 2 (json_key ''AD'') @ '' false,''
     @ line 2 (json_key ''CD'') @ '' false,''
     @ line 2 (json_key ''Question'')
     @ line 2 ''[''
     @ line 3 ''{''
     @ line 4 (json_key ''name'') @ '' '' @ [dquote] @ name @ [dquote] @ '',''
     @ line 4 (json_key ''type'') @ '' '' @ dnsType
     @ line 3 ''}''
     @ line 2 ''],''
     @ line 2 (json_key ''Answer'') @ '' '' @ answers @ '',''
     @ line 2 (json_key ''Additional'') @ '' [ ],''
     @ line 2 (json_key ''edns_client_subnet'') @ '' '' @ [dquote] @ ''0.0.0.0/0'' @ [dquote]
     @ line 1 ''}''"

definition buildResponseBody ::
    "dnsmessage \<Rightarrow> int \<Rightarrow> string \<Rightarrow> string \<Rightarrow> string list \<Rightarrow> go_error + string" where
  "buildResponseBody D dnsResponseStatus requestedInfraName dnsType ips =
     (let answers = map (\<lambda>ip. \<lparr>ans_Name = requestedInfraName, RRType = TypeA D mod 65536, TTL = 0, Data = ip\<rparr>) ips
      in case json_Marshal (JArr (map answer_json answers)) of
           Inl err \<Rightarrow> Inl err
         | Inr bytes \<Rightarrow> Inr (response_template dnsResponseStatus requestedInfraName dnsType bytes))"

definition writeResponse ::
    "dnsmessage \<Rightarrow> ResponseWriter \<Rightarrow> int \<Rightarrow> string \<Rightarrow> string \<Rightarrow> string list \<Rightarrow> ResponseWriter" where
  "writeResponse D resp dnsResponseStatus requestedInfraName dnsType ips =
     (case buildResponseBody D dnsResponseStatus requestedInfraName dnsType ips of
        Inl err \<Rightarrow> resp
      | Inr responseBody \<Rightarrow> snd (Write responseBody resp))"

definition writeErrorResponse :: "ResponseWriter \<Rightarrow> go_error \<Rightarrow> ResponseWriter" where
  "writeErrorResponse resp err = snd (Write err (WriteHeader 500 resp))"

text \<open>The parsed query: \<open>Get\<close> returns the first value of a key, or the empty string.\<close>

definition query_Get :: "(string \<times> string) list \<Rightarrow> string \<Rightarrow> string" where
  "query_Get query key = (case map_of query key of None \<Rightarrow> [] | Some v \<Rightarrow> v)"

definition getQueryParam :: "(string \<times> string) list \<Rightarrow> string \<Rightarrow> string \<Rightarrow> string" where
  "getQueryParam query key defaultValue =
     (let queryValue = query_Get query key in if queryValue = [] then defaultValue else queryValue)"

section \<open>The handler\<close>

text \<open>
  The handler of the adapter: \<open>ips_of\<close> is the call of the client; the second component of the state is
  the counters incremented so far. A panic of the client ends the request without a response.
\<close>

definition handle_dns_request ::
    "dnsmessage \<Rightarrow> (string \<Rightarrow> (go_error + string list) outcome) \<Rightarrow> (string \<times> string) list \<Rightarrow>
     ResponseWriter \<times> string list \<Rightarrow> (ResponseWriter \<times> string list) outcome" where
  "handle_dns_request D ips_of query = (\<lambda>(resp, counters).
     let dnsType = getQueryParam query ''type'' ''1'';
         name = getQueryParam query ''name'' []
     in if dnsType \<noteq> ''1'' then Return (writeResponse D resp (RCodeSuccess D) name dnsType [], counters)
        else if name = []
        then Return (writeResponse D (WriteHeader 400 resp) (RCodeServerFailure D) name dnsType [], counters)
        else case ips_of name of
               Panic p \<Rightarrow> Panic p
             | Return (Inl err) \<Rightarrow>
                 Return (writeErrorResponse resp (''Error querying Service Discover Controller: '' @ err),
                         counters @ [''DNSRequestFailures''])
             | Return (Inr ips) \<Rightarrow> Return (writeResponse D resp (RCodeSuccess D) name dnsType ips, counters))"

section \<open>The process\<close>

record ('cert, 'pool) adapter_env =
  ae_cert :: "('cert, 'pool) cert_env"
  ae_validate :: validator
  ae_json_error :: "string \<Rightarrow> go_error"
  ae_Listen :: "string \<Rightarrow> go_error option"
  ae_dropsonde :: "string \<Rightarrow> string \<Rightarrow> go_error option"

record ('cert, 'pool) serving =
  sv_address :: string
  sv_client :: "('cert, 'pool) ServiceDiscoveryClient"
  sv_metrics_interval :: duration
  sv_log_level :: "string \<times> int"

datatype 'a process = Exit int | Running 'a

text \<open>The start of the process: everything up to the goroutine that serves.\<close>

definition adapter_start :: "('cert, 'pool) adapter_env \<Rightarrow> string \<Rightarrow> ('cert, 'pool) serving process" where
  "adapter_start env configPath =
     (case ReadFile (ae_cert env) configPath of
        Inl err \<Rightarrow> Exit 2
      | Inr bytes \<Rightarrow>
          (case adapter_NewConfig (ae_validate env) (ae_json_error env) bytes of
             Inl err \<Rightarrow> Exit 2
           | Inr config \<Rightarrow>
               (let address = ac_Address config @ '':'' @ ac_Port config
                in case ae_Listen env address of
                     Some err \<Rightarrow> Exit 1
                   | None \<Rightarrow>
                       (case ae_dropsonde env (''127.0.0.1:'' @ show_int (ac_MetronPort config)) ''bosh-dns-adapter'' of
                          Some err \<Rightarrow> Exit 1
                        | None \<Rightarrow>
                            (case NewServiceDiscoveryClient (ae_cert env)
                                    (''https://'' @ ServiceDiscoveryControllerAddress config @ '':''
                                     @ ServiceDiscoveryControllerPort config)
                                    (ac_CACert config) (ClientCert config) (ClientKey config) of
                               Inl err \<Rightarrow> Exit 1
                             | Inr sdcClient \<Rightarrow>
                                 Running \<lparr>sv_address = address, sv_client = sdcClient,
                                   sv_metrics_interval = seconds (ac_MetricsEmitSeconds config),
                                   sv_log_level = (ac_LogLevelAddress config, ac_LogLevelPort config)\<rparr>)))))"

text \<open>What ends it: a signal, or the failure of the metrics emitter or the log-level server.\<close>

datatype adapter_event = SignalReceived | MonitorFailed go_error | MonitorDone

definition adapter_stop :: "'a \<Rightarrow> adapter_event \<Rightarrow> 'a process" where
  "adapter_stop sv ev =
     (case ev of SignalReceived \<Rightarrow> Exit 0 | MonitorFailed err \<Rightarrow> Exit 1 | MonitorDone \<Rightarrow> Running sv)"

section \<open>The response body as JSON\<close>

text \<open>The document that the template is meant to print.\<close>

definition dns_document :: "int \<Rightarrow> string \<Rightarrow> string \<Rightarrow> json list \<Rightarrow> json" where
  "dns_document status name dnsType answers = JObj
     [(''Status'', JInt status), (''TC'', JBool False), (''RD'', JBool False), (''RA'', JBool False),
      (''AD'', JBool False), (''CD'', JBool False),
      (''Question'', JArr [JObj [(''name'', JStr name), (''type'', JNum dnsType)]]),
      (''Answer'', JArr answers), (''Additional'', JArr []), (''edns_client_subnet'', JStr ''0.0.0.0/0'')]"

lemma lex_white: "white c \<Longrightarrow> json_lex (c # s) = json_lex s"
  by (simp add: json_lex.simps)

lemma white_simps [simp]: "white (CHR '' '')" "white (CHR 0x09)" "white (CHR 0x0A)"
  by (simp_all add: white_def)

lemma lex_tabs: "json_lex (replicate n (CHR 0x09) @ s) = json_lex s"
  by (induction n) (simp_all add: lex_white)

lemma lex_line: "json_lex (line n p @ s) = json_lex (p @ s)"
  by (simp add: line_def lex_white lex_tabs)

lemma no_num_line [simp]: "no_num (line n p @ s)"
  by (simp add: line_def no_num_def num_char_def is_digit_def in_range_def)

lemma escape_plain: "list_all html_safe k \<Longrightarrow> json_escape k = k"
  by (induction k) (simp_all add: json_escape.simps escape_ascii_def html_safe_def)

lemma lex_plain:
  assumes "list_all html_safe k"
  shows "json_lex (dquote # k @ dquote # s) = add_token (TStr k) (json_lex s)"
proof -
  have "list_all ascii k" using assms by (auto simp: list_all_iff html_safe_def)
  then have "valid_utf8 k = k" by (rule valid_utf8_ascii_string)
  with lex_quote [of k s] show ?thesis by (simp add: json_quote_def escape_plain [OF assms])
qed

lemma lex_key: "list_all html_safe k \<Longrightarrow> json_lex (json_key k @ s) = add_token (TStr k) (add_token TColon (json_lex s))"
  by (simp add: json_key_def lex_plain lex_punctuation)

lemma lex_flag:
  "json_lex ('' false,'' @ s) = add_token TFalse (add_token TComma (json_lex s))"
  using lex_literals(3) [of "CHR '','' # s"] by (simp add: lex_white lex_punctuation)

lemma add_token_Some [simp]: "add_token k (Some ts) = Some (k # ts)"
  by (simp add: add_token_def)

lemma no_num_key [simp]: "no_num (json_key k @ s)"
  by (simp add: json_key_def no_num_def num_char_def is_digit_def in_range_def)

lemma lex_json:
  assumes "json_wf v" and "no_num s"
  shows "json_lex (json_print v @ s) = map_option (\<lambda>ts. json_tokens (json_valid v) @ ts) (json_lex s)"
  using lexesD [OF lexes_print [OF assms(1)] assms(2)] .

lemma show_int_print: "show_int n = json_print (JInt n)"
  by (simp add: JInt_def)

lemma number_print: "n = json_print (JNum n)"
  by simp

lemma lex_template:
  assumes "list_all html_safe name" and "json_number n" and "list_all num_char n" and "json_wf (JArr vs)"
  shows "json_lex (response_template status name n (json_print (JArr vs)))
     = Some (json_tokens (dns_document status name n (map json_valid vs)))"
proof -
  have number: "json_lex (n @ s) = add_token (TNum n) (json_lex s)" if "no_num s" for s
    using lex_number [OF assms(2,3) that] .
  have status: "json_lex (show_int status @ s) = add_token (TNum (show_int status)) (json_lex s)" if "no_num s" for s
    using lex_number [OF json_number_show_int num_char_show_int that] .
  define printed where "printed = json_print (JArr vs)"
  have answers: "json_lex (printed @ s) = map_option (\<lambda>ts. json_tokens (json_valid (JArr vs)) @ ts) (json_lex s)"
    if "no_num s" for s
    unfolding printed_def by (rule lex_json [OF assms(4) that])
  have last: "json_lex (line 1 ''}'') = Some [TRBrace]"
    using lex_line [of 1 "''}''" "[]"] by (simp add: lex_punctuation json_lex.simps(1))
  note keys = lex_key [of "''Status''"] lex_key [of "''TC''"] lex_key [of "''RD''"] lex_key [of "''RA''"] lex_key [of "''AD''"]
    lex_key [of "''CD''"] lex_key [of "''Question''"] lex_key [of "''name''"] lex_key [of "''type''"] lex_key [of "''Answer''"]
    lex_key [of "''Additional''"] lex_key [of "''edns_client_subnet''"] lex_plain [of "''0.0.0.0/0''"]
  have "no_num (line m p)" for m p using no_num_line [of m p "[]"] by simp
  then show ?thesis
    unfolding response_template_def printed_def [symmetric]
    by (simp add: lex_punctuation lex_line last [simplified] keys [simplified] html_safe_def lex_flag [simplified]
        lex_white status number answers lex_plain [OF assms(1)] dns_document_def JInt_def o_def)
qed

lemma parse_template:
  assumes "list_all html_safe name" and "json_number n" and "list_all num_char n" and "json_wf (JArr vs)"
  shows "json_parse (response_template status name n (json_print (JArr vs)))
     = Some (dns_document status name n (map json_valid vs))"
  using run_value [of "[]" "dns_document status name n (map json_valid vs)" "[]"]
  by (simp add: json_parse_def lex_template [OF assms] del: json_print.simps)

section \<open>Properties\<close>

text \<open>
  The constants as RFC 1035 assigns them, which is what the package documents.
\<close>

definition rfc1035 :: "dnsmessage \<Rightarrow> bool" where
  "rfc1035 D \<longleftrightarrow> RCodeSuccess D = 0 \<and> RCodeServerFailure D = 2 \<and> TypeA D = 1"

definition a_records :: "string \<Rightarrow> string list \<Rightarrow> json list" where
  "a_records name ips =
     map (\<lambda>ip. JObj [(''name'', JStr name), (''type'', JInt 1), (''TTL'', JInt 0), (''data'', JStr (valid_utf8 ip))]) ips"

lemma parse_response_body:
  assumes "rfc1035 D" and "list_all html_safe name" and "json_number n" and "list_all num_char n"
  shows "\<exists>body. buildResponseBody D status name n ips = Inr body \<and>
     json_parse body = Some (dns_document status name n (a_records name ips))"
proof -
  let ?vs = "map (\<lambda>ip. answer_json \<lparr>ans_Name = name, RRType = TypeA D mod 65536, TTL = 0, Data = ip\<rparr>) ips"
  have "list_all ascii name" using assms(2) by (auto simp: list_all_iff html_safe_def)
  then have name: "valid_utf8 name = name" by (rule valid_utf8_ascii_string)
  have "json_wf (JArr ?vs)" by (simp add: answer_json_def list_all_iff)
  from parse_template [OF assms(2-4) this, of status] show ?thesis
    using assms(1) name
    by (simp add: buildResponseBody_def json_Marshal_def a_records_def answer_json_def rfc1035_def o_def
        del: json_print.simps)
qed

lemma query_name: "getQueryParam query k [] = query_Get query k"
  by (simp add: getQueryParam_def)

text \<open>
  C16: a query for the A records of a name. When the client returns IPs, the adapter answers 200 with a
  JSON document of status NOERROR whose answers are one A record with TTL 0 per IP, in the client's
  order; when the client fails, it answers 500 with the error text and counts one failed request. The
  name may be any that needs no JSON escaping.
\<close>

theorem dns_request_answers_ips:
  assumes "rfc1035 D" and "list_all html_safe (query_Get query ''name'')" and "query_Get query ''name'' \<noteq> []"
    and "query_Get query ''type'' \<in> {[], ''1''}"
  shows "case ips_of (query_Get query ''name'') of
      Return (Inr ips) \<Rightarrow> (\<exists>resp. handle_dns_request D ips_of query (new_response None, counters) = Return (resp, counters) \<and>
        fst (response resp) = 200 \<and>
        json_parse (snd (response resp)) = Some (dns_document 0 (query_Get query ''name'') ''1''
          (a_records (query_Get query ''name'') ips)))
    | Return (Inl err) \<Rightarrow> (\<exists>resp. handle_dns_request D ips_of query (new_response None, counters)
          = Return (resp, counters @ [''DNSRequestFailures'']) \<and>
        response resp = (500, ''Error querying Service Discover Controller: '' @ err))
    | Panic p \<Rightarrow> handle_dns_request D ips_of query (new_response None, counters) = Panic p"
proof -
  let ?name = "query_Get query ''name''"
  have type: "getQueryParam query ''type'' ''1'' = ''1''" using assms(4) by (auto simp: getQueryParam_def)
  have one: "json_number ''1''" "list_all num_char ''1''" by code_simp+
  show ?thesis
  proof (cases "ips_of ?name")
    case (Return r)
    show ?thesis
    proof (cases r)
      case (Inr ips)
      obtain body where "buildResponseBody D 0 ?name ''1'' ips = Inr body"
        "json_parse body = Some (dns_document 0 ?name ''1'' (a_records ?name ips))"
        using parse_response_body [OF assms(1,2) one] by blast
      with Return Inr type assms show ?thesis
        by (simp add: handle_dns_request_def query_name writeResponse_def rfc1035_def response_Write)
    qed (use Return type assms in \<open>simp add: handle_dns_request_def query_name writeErrorResponse_def response_Write\<close>)
  qed (use type assms in \<open>simp add: handle_dns_request_def query_name\<close>)
qed

theorem dns_request_answers_ips_witness:
  "\<exists>resp. handle_dns_request \<lparr>RCodeSuccess = 0, RCodeServerFailure = 2, TypeA = 1\<rparr>
      (\<lambda>_. Return (Inr [''10.0.0.1''])) [(''name'', ''app.apps.internal.'')] (new_response None, []) = Return (resp, []) \<and>
    fst (response resp) = 200 \<and>
    json_parse (snd (response resp)) = Some (dns_document 0 ''app.apps.internal.'' ''1''
      (a_records ''app.apps.internal.'' [''10.0.0.1'']))"
  using dns_request_answers_ips [of "\<lparr>RCodeSuccess = 0, RCodeServerFailure = 2, TypeA = 1\<rparr>"
      "[(''name'', ''app.apps.internal.'')]" "\<lambda>_. Return (Inr [''10.0.0.1''])" "[]"]
  by (simp add: rfc1035_def query_Get_def html_safe_def)

text \<open>
  The controller is asked only for A records of a name. Any other record type is answered at once,
  200 and no answers; a request without a name is answered 400 with status SERVFAIL. No counter changes.
\<close>

theorem dns_request_without_lookup:
  assumes "query_Get query ''type'' \<notin> {[], ''1''} \<or> query_Get query ''name'' = []"
  shows "\<exists>resp. handle_dns_request D ips_of query (new_response None, counters) = Return (resp, counters) \<and>
    (if query_Get query ''type'' \<in> {[], ''1''}
     then fst (response resp) = 400 \<and>
       buildResponseBody D (RCodeServerFailure D) [] ''1'' [] = Inr (snd (response resp))
     else fst (response resp) = 200 \<and>
       buildResponseBody D (RCodeSuccess D) (query_Get query ''name'') (query_Get query ''type'') [] = Inr (snd (response resp)))"
  using assms
  by (cases "query_Get query ''type'' \<in> {[], ''1''}")
     (auto simp: handle_dns_request_def getQueryParam_def writeResponse_def buildResponseBody_def json_Marshal_def
      response_Write)

theorem dns_request_without_lookup_witness:
  "\<exists>resp. handle_dns_request \<lparr>RCodeSuccess = 0, RCodeServerFailure = 2, TypeA = 1\<rparr>
      (\<lambda>_. Panic NilDereference) [(''name'', ''app.apps.internal.''), (''type'', ''28'')] (new_response None, []) = Return (resp, []) \<and>
    fst (response resp) = 200"
  using dns_request_without_lookup [of "[(''name'', ''app.apps.internal.''), (''type'', ''28'')]"
      "\<lparr>RCodeSuccess = 0, RCodeServerFailure = 2, TypeA = 1\<rparr>" "\<lambda>_. Panic NilDereference" "[]"]
  by (auto simp: query_Get_def)

text \<open>
  The record type of the query is copied into the document as it is: a query whose type is a name
  rather than a number (\<open>AAAA\<close>) is answered 200 with a body that is not JSON.
\<close>

theorem named_type_breaks_document:
  "\<exists>resp. handle_dns_request \<lparr>RCodeSuccess = 0, RCodeServerFailure = 2, TypeA = 1\<rparr> ips_of
      [(''name'', ''a.''), (''type'', ''AAAA'')] (new_response None, counters) = Return (resp, counters) \<and>
    fst (response resp) = 200 \<and> json_parse (snd (response resp)) = None"
proof -
  have "json_parse (response_template 0 ''a.'' ''AAAA'' ''[]'') = None" by code_simp
  then show ?thesis
    by (simp add: handle_dns_request_def getQueryParam_def query_Get_def writeResponse_def buildResponseBody_def
        json_Marshal_def response_Write)
qed

text \<open>
  C40: the queried name is copied into the document without JSON escaping, so a name with a quotation
  mark is answered with a document that says something else: here the question names \<open>b\<close>.
\<close>

theorem name_is_not_escaped:
  "\<exists>resp. handle_dns_request \<lparr>RCodeSuccess = 0, RCodeServerFailure = 2, TypeA = 1\<rparr> (\<lambda>_. Return (Inr []))
      [(''name'', ''a'' @ [dquote] @ '','' @ json_key ''name'' @ [dquote] @ ''b'')] (new_response None, counters)
      = Return (resp, counters) \<and>
    json_parse (snd (response resp)) = Some (JObj
     [(''Status'', JInt 0), (''TC'', JBool False), (''RD'', JBool False), (''RA'', JBool False),
      (''AD'', JBool False), (''CD'', JBool False),
      (''Question'', JArr [JObj [(''name'', JStr ''a''), (''name'', JStr ''b''), (''type'', JNum ''1'')]]),
      (''Answer'', JArr []), (''Additional'', JArr []), (''edns_client_subnet'', JStr ''0.0.0.0/0'')])"
proof -
  let ?name = "''a'' @ [dquote] @ '','' @ json_key ''name'' @ [dquote] @ ''b''"
  have "json_parse (response_template 0 ?name ''1'' ''[]'') = Some (JObj
     [(''Status'', JInt 0), (''TC'', JBool False), (''RD'', JBool False), (''RA'', JBool False),
      (''AD'', JBool False), (''CD'', JBool False),
      (''Question'', JArr [JObj [(''name'', JStr ''a''), (''name'', JStr ''b''), (''type'', JNum ''1'')]]),
      (''Answer'', JArr []), (''Additional'', JArr []), (''edns_client_subnet'', JStr ''0.0.0.0/0'')])"
    by code_simp
  then show ?thesis
    by (simp add: handle_dns_request_def getQueryParam_def query_Get_def writeResponse_def buildResponseBody_def
        json_Marshal_def response_Write)
qed

text \<open>
  Starting the adapter. The process runs exactly when the configuration file can be read and is
  valid, the address can be listened on, the metrics library starts and the client can be created; it
  exits with status 2 for a bad configuration and 1 for the rest. When it runs, it serves on the
  configured address and its client asks the configured controller over HTTPS.
\<close>

theorem adapter_start_outcomes:
  "(case adapter_start env configPath of
      Running sv \<Rightarrow> (\<exists>bytes c. ReadFile (ae_cert env) configPath = Inr bytes \<and>
          adapter_NewConfig (ae_validate env) (ae_json_error env) bytes = Inr c \<and>
          ae_Listen env (sv_address sv) = None \<and> sv_address sv = ac_Address c @ '':'' @ ac_Port c \<and>
          NewServiceDiscoveryClient (ae_cert env)
            (''https://'' @ ServiceDiscoveryControllerAddress c @ '':'' @ ServiceDiscoveryControllerPort c)
            (ac_CACert c) (ClientCert c) (ClientKey c) = Inr (sv_client sv))
    | Exit n \<Rightarrow> n = (case ReadFile (ae_cert env) configPath of
          Inl _ \<Rightarrow> 2
        | Inr bytes \<Rightarrow> (case adapter_NewConfig (ae_validate env) (ae_json_error env) bytes of Inl _ \<Rightarrow> 2 | Inr _ \<Rightarrow> 1)))"
  by (simp add: adapter_start_def Let_def split: sum.splits option.splits)

end
