(* ===== verification/Name_Resolution.thy ===== *)
theory Name_Resolution
  imports Controller_System Dns_Adapter
begin

text \<open>
  The path of a name through both processes: the adapter's handler asks through the client, the
  controller's server answers from its table, and the client's retries meet the warming of that
  table. The network between them is an argument; what is relied on is \<open>delivers\<close>.
\<close>

section \<open>The network\<close>

text \<open>
  Characters that a URL carries as they are. For names made of them the client's request for
  \<open>base/v1/registration/name\<close> reaches the server with that path, and its answer comes back as it is;
  \<open>c i\<close> is the controller at try \<open>i\<close>.
\<close>

definition plain_char :: "char \<Rightarrow> bool" where
  "plain_char c \<longleftrightarrow> alphanumeric c \<or> c \<in> set ''-_.~''"

definition delivers ::
    "http_Get \<Rightarrow> string \<Rightarrow> (string \<Rightarrow> AddressTable http_handler \<Rightarrow> AddressTable http_handler) \<Rightarrow>
     (nat \<Rightarrow> controller) \<Rightarrow> bool" where
  "delivers get base wrap c \<longleftrightarrow>
     (\<forall>name i order ks rw c'. list_all plain_char name \<and> path_element name \<and>
        ctl_serve wrap order ks (''/v1/registration/'' @ name) (c i) = (Served rw, c') \<longrightarrow>
        get (base @ ''/v1/registration/'' @ name) i = Inr \<lparr>StatusCode = fst (response rw), Body = Inr (snd (response rw))\<rparr>)"

text \<open>One query of BOSH DNS, through the adapter and its client.\<close>

definition resolve ::
    "dnsmessage \<Rightarrow> http_Get \<Rightarrow> (http_Response \<Rightarrow> string) \<Rightarrow> (string \<Rightarrow> go_error) \<Rightarrow> (nat \<Rightarrow> nat) \<Rightarrow>
     ('cert, 'pool) ServiceDiscoveryClient \<Rightarrow> string \<Rightarrow> string list \<Rightarrow> (ResponseWriter \<times> string list) outcome" where
  "resolve D get show_response json_error intn cl name counters =
     handle_dns_request D (\<lambda>n. fst (IPs get show_response json_error intn cl n)) [(''name'', name)] (new_response None, counters)"

abbreviation ctl_table :: "controller \<Rightarrow> AddressTable" where
  "ctl_table c \<equiv> sub_table (ctl_subscriber c)"

section \<open>The server's answer read by the client\<close>

definition server_json :: "string list \<Rightarrow> json" where
  "server_json ips = JObj
     [(''hosts'', JArr (map (\<lambda>ip. JObj
          [(''ip_address'', JStr ip), (''last_check_in'', JStr []), (''port'', JInt 0), (''revision'', JStr []),
           (''service'', JStr []), (''service_repo_name'', JStr []), (''tags'', JObj [])]) ips)),
      (''env'', JStr []), (''service'', JStr [])]"

lemma answer_names_ascii [simp]:
  "valid_utf8 ''hosts'' = ''hosts''" "valid_utf8 ''ip_address'' = ''ip_address''" "valid_utf8 ''last_check_in'' = ''last_check_in''"
  "valid_utf8 ''port'' = ''port''" "valid_utf8 ''revision'' = ''revision''" "valid_utf8 ''service'' = ''service''"
  "valid_utf8 ''service_repo_name'' = ''service_repo_name''" "valid_utf8 ''tags'' = ''tags''" "valid_utf8 ''env'' = ''env''"
  by (rule valid_utf8_ascii_string, simp)+

text \<open>The client's field \<open>Hosts\<close> is matched by the server's \<open>hosts\<close> only up to case.\<close>

lemma answer_fields:
  "field_match [''Hosts''] ''hosts'' = Some ''Hosts''" "field_match [''Hosts''] ''env'' = None"
  "field_match [''Hosts''] ''service'' = None" "field_match [''ip_address''] ''ip_address'' = Some ''ip_address''"
  "field_match [''ip_address''] ''last_check_in'' = None" "field_match [''ip_address''] ''port'' = None"
  "field_match [''ip_address''] ''revision'' = None" "field_match [''ip_address''] ''service'' = None"
  "field_match [''ip_address''] ''service_repo_name'' = None" "field_match [''ip_address''] ''tags'' = None"
  by code_simp+

lemma decode_hosts:
  "decode_elems \<lparr>ch_IPAddress = []\<rparr> (decode_struct [''ip_address''] assign_client_host)
     (map (\<lambda>ip. JObj
          [(''ip_address'', JStr (f ip)), (''last_check_in'', JStr []), (''port'', JInt 0), (''revision'', JStr []),
           (''service'', JStr []), (''service_repo_name'', JStr []), (''tags'', JObj [])]) ips) []
     = Some (map (\<lambda>ip. \<lparr>ch_IPAddress = f ip\<rparr>) ips)"
  by (induction ips) (simp_all add: decode_struct_def answer_fields assign_client_host_def)

lemma unmarshal_server_json:
  "unmarshal_serverResponse (json_print (server_json ips)) =
     Some (Some \<lparr>sr_Hosts = map (\<lambda>ip. \<lparr>ch_IPAddress = valid_utf8 ip\<rparr>) ips\<rparr>)"
proof -
  have "json_wf (server_json ips)" by (simp add: server_json_def list_all_iff)
  then have "json_parse (json_print (server_json ips)) = Some (json_valid (server_json ips))"
    by (rule json_parse_print)
  moreover have "json_valid (server_json ips) = JObj
     [(''hosts'', JArr (map (\<lambda>ip. JObj
          [(''ip_address'', JStr (valid_utf8 ip)), (''last_check_in'', JStr []), (''port'', JInt 0), (''revision'', JStr []),
           (''service'', JStr []), (''service_repo_name'', JStr []), (''tags'', JObj [])]) ips)),
      (''env'', JStr []), (''service'', JStr [])]"
    by (simp add: server_json_def o_def)
  ultimately show ?thesis
    by (simp add: unmarshal_serverResponse_def decode_struct_def answer_fields assign_serverResponse_def decode_slice_def
        decode_hosts del: json_print.simps)
qed

section \<open>A try\<close>

lemma ctl_answer:
  assumes "path_element name" and "transparent wrap"
  obtains rw c' where "ctl_serve wrap order ks (''/v1/registration/'' @ name) c = (Served rw, c')"
    and "response rw = (if warm (ctl_table c) then (200, json_print (server_json (Lookup (ctl_table c) name)))
      else (500, ''address table is not warm'' @ [CHR 0x0A]))"
proof -
  let ?s = "(ctl_server c)\<lparr>srv_table := ctl_table c\<rparr>"
  let ?st = "handleRegistrationRequest routes_interface (''/v1/registration/'' @ name) (new_response None, ?s)"
  have "ctl_serve wrap order ks (''/v1/registration/'' @ name) c = (Served (fst ?st), c\<lparr>ctl_server := snd ?st\<rparr>)"
    unfolding ctl_serve_def serve_registration [OF assms] by (simp split: prod.splits)
  then show ?thesis
    using handleRegistrationRequest_table(1) [of "''/v1/registration/'' @ name" ?s]
    unfolding path_Base_registration [OF assms(1)] by (intro that) (assumption, simp add: server_json_def)
qed

lemma try_answer:
  assumes "delivers get base wrap c" and "transparent wrap" and "path_element name" and "list_all plain_char name"
  shows "get (base @ ''/v1/registration/'' @ name) i =
    Inr (if warm (ctl_table (c i)) then \<lparr>StatusCode = 200, Body = Inr (json_print (server_json (Lookup (ctl_table (c i)) name)))\<rparr>
         else \<lparr>StatusCode = 500, Body = Inr (''address table is not warm'' @ [CHR 0x0A])\<rparr>)"
proof -
  obtain rw c' where "ctl_serve wrap [] [] (''/v1/registration/'' @ name) (c i) = (Served rw, c')"
    and rw: "response rw = (if warm (ctl_table (c i)) then (200, json_print (server_json (Lookup (ctl_table (c i)) name)))
      else (500, ''address table is not warm'' @ [CHR 0x0A]))"
    by (rule ctl_answer [OF assms(3,2)])
  with assms(1,3,4) have "get (base @ ''/v1/registration/'' @ name) i
      = Inr \<lparr>StatusCode = fst (response rw), Body = Inr (snd (response rw))\<rparr>"
    unfolding delivers_def by blast
  then show ?thesis by (simp add: rw)
qed

section \<open>The four tries\<close>

lemma IPs_first_warm:
  assumes "delivers get (serverURL cl) wrap c" and "transparent wrap" and "path_element name" and "list_all plain_char name"
    and "k < 4" and "\<forall>i<k. \<not> warm (ctl_table (c i))" and "warm (ctl_table (c k))"
  shows "fst (IPs get show_response json_error intn cl name) =
    Return (Inr (shuffle_ips intn (map valid_utf8 (Lookup (ctl_table (c k)) name))))"
proof -
  define url where "url = serverURL cl @ ''/v1/registration/'' @ name"
  note answer = try_answer [OF assms(1-4), folded url_def]
  have "\<forall>i<k. refused get url i" using assms(6) by (simp add: refused_def answer)
  from get_loop_refused [OF this] assms(5,7)
  have "get_loop get url 0 None [] =
      (Inr (Some (k, \<lparr>StatusCode = 200, Body = Inr (json_print (server_json (Lookup (ctl_table (c k)) name)))\<rparr>)), rev [0..<k])"
    by (simp add: get_loop.simps [of get url k] answer del: json_print.simps)
  then show ?thesis
    unfolding IPs_def Let_def url_def [symmetric]
    by (simp add: unmarshal_server_json o_def del: json_print.simps)
qed

lemma IPs_all_cold:
  assumes "delivers get (serverURL cl) wrap c" and "transparent wrap" and "path_element name" and "list_all plain_char name"
    and "\<forall>i<4. \<not> warm (ctl_table (c i))"
  shows "fst (IPs get show_response json_error intn cl name) =
    Return (Inl (''Received non successful response from server: '' @
      show_response \<lparr>StatusCode = 500, Body = Inr (''address table is not warm'' @ [CHR 0x0A])\<rparr>))"
proof -
  define url where "url = serverURL cl @ ''/v1/registration/'' @ name"
  note answer = try_answer [OF assms(1-4), folded url_def]
  have "\<forall>i<4. refused get url i" using assms(5) by (simp add: refused_def answer)
  from get_loop_refused [OF this] assms(5)
  have "get_loop get url 0 None [] =
      (Inr (Some (3, \<lparr>StatusCode = 500, Body = Inr (''address table is not warm'' @ [CHR 0x0A])\<rparr>)), rev [0..<4])"
    by (simp add: get_loop.simps [of get url 4] answer)
  then show ?thesis unfolding IPs_def Let_def url_def [symmetric] by simp
qed

section \<open>The answer to BOSH DNS\<close>

lemma plain_html_safe: "plain_char c \<Longrightarrow> html_safe c"
  by (auto simp: plain_char_def html_safe_def alphanumeric_def in_range_def)

lemma plain_name_safe: "list_all plain_char name \<Longrightarrow> list_all html_safe name"
  by (auto simp: list_all_iff plain_html_safe)

lemma resolve_ips:
  assumes "rfc1035 D" and "list_all plain_char name" and "path_element name"
    and "fst (IPs get show_response json_error intn cl name) = Return (Inr ips)"
  shows "\<exists>resp. resolve D get show_response json_error intn cl name counters = Return (resp, counters) \<and>
    fst (response resp) = 200 \<and>
    json_parse (snd (response resp)) = Some (dns_document 0 name ''1'' (a_records name ips))"
proof -
  have "json_number ''1''" "list_all num_char ''1''" by code_simp+
  from parse_response_body [OF assms(1) plain_name_safe [OF assms(2)] this] obtain body where
    "buildResponseBody D 0 name ''1'' ips = Inr body"
    "json_parse body = Some (dns_document 0 name ''1'' (a_records name ips))" by blast
  with assms show ?thesis
    by (simp add: resolve_def handle_dns_request_def getQueryParam_def query_Get_def writeResponse_def rfc1035_def
        response_Write path_element_def)
qed

lemma resolve_error:
  assumes "path_element name" and "fst (IPs get show_response json_error intn cl name) = Return (Inl err)"
  shows "\<exists>resp. resolve D get show_response json_error intn cl name counters
      = Return (resp, counters @ [''DNSRequestFailures'']) \<and>
    response resp = (500, ''Error querying Service Discover Controller: '' @ err)"
  using assms
  by (simp add: resolve_def handle_dns_request_def getQueryParam_def query_Get_def writeErrorResponse_def response_Write
      path_element_def)

lemma a_records_valid: "a_records name (map valid_utf8 ips) = a_records name ips"
  by (simp add: a_records_def valid_utf8_idem)

lemma shuffle_map: "shuffle_loop intn n (map f vals) = map f (shuffle_loop intn n vals)" if "n \<le> length vals" "Intn_bounded intn"
  using that
proof (induction n arbitrary: vals)
  case (Suc m)
  have "intn (Suc m) < Suc m" using Suc.prems(2) by (simp add: Intn_bounded_def)
  then show ?case using Suc.IH [of "vals[m := vals ! intn (Suc m), intn (Suc m) := vals ! m]"] Suc.prems
    by (simp add: Let_def map_update)
qed simp

lemma resolve_first_warm:
  assumes "rfc1035 D" and "delivers get (serverURL cl) wrap c" and "transparent wrap" and "Intn_bounded intn"
    and "path_element name" and "list_all plain_char name"
    and "k < 4" and "\<forall>i<k. \<not> warm (ctl_table (c i))" and "warm (ctl_table (c k))"
  shows "\<exists>resp ips. resolve D get show_response json_error intn cl name counters = Return (resp, counters) \<and>
    fst (response resp) = 200 \<and> mset ips = mset (Lookup (ctl_table (c k)) name) \<and>
    json_parse (snd (response resp)) = Some (dns_document 0 name ''1'' (a_records name ips))"
proof -
  let ?ips = "shuffle_ips intn (Lookup (ctl_table (c k)) name)"
  have "fst (IPs get show_response json_error intn cl name) = Return (Inr (map valid_utf8 ?ips))"
    using IPs_first_warm [OF assms(2,3,5-9)] assms(4) by (simp add: shuffle_ips_def shuffle_map)
  from resolve_ips [OF assms(1,6,5) this, of counters] show ?thesis
    using mset_shuffle_loop [OF assms(4) order.refl] by (auto simp: a_records_valid shuffle_ips_def)
qed

text \<open>The shortest network that delivers, for examples.\<close>

definition sample_get :: "string \<Rightarrow> (nat \<Rightarrow> controller) \<Rightarrow> http_Get" where
  "sample_get base c url i =
     (if has_prefix base url
      then (case ctl_serve (\<lambda>_ h. h) [] [] (drop (length base) url) (c i) of
              (Served rw, _) \<Rightarrow> Inr \<lparr>StatusCode = fst (response rw), Body = Inr (snd (response rw))\<rparr>
            | _ \<Rightarrow> Inl ''not served'')
      else Inl ''no such host'')"

lemma ctl_serve_registration_order:
  assumes "path_element name" and "transparent wrap"
  shows "ctl_serve wrap order ks (''/v1/registration/'' @ name) c = ctl_serve wrap [] [] (''/v1/registration/'' @ name) c"
  unfolding ctl_serve_def serve_registration [OF assms] ..

lemma sample_get_delivers: "delivers (sample_get base c) base (\<lambda>_ h. h) c"
  unfolding delivers_def
proof (intro allI impI, elim conjE)
  fix name i order ks rw c'
  assume "path_element name" and "ctl_serve (\<lambda>_ h. h) order ks (''/v1/registration/'' @ name) (c i) = (Served rw, c')"
  moreover have "transparent (\<lambda>_ h. h)" by (simp add: transparent_def)
  ultimately have "ctl_serve (\<lambda>_ h. h) [] [] (''/v1/registration/'' @ name) (c i) = (Served rw, c')"
    using ctl_serve_registration_order by metis
  moreover define path where "path = ''/v1/registration/'' @ name"
  ultimately have "ctl_serve (\<lambda>_ h. h) [] [] path (c i) = (Served rw, c')" by simp
  then have "sample_get base c (base @ path) i = Inr \<lparr>StatusCode = fst (response rw), Body = Inr (snd (response rw))\<rparr>"
    by (simp add: sample_get_def has_prefix_def)
  then show "sample_get base c (base @ ''/v1/registration/'' @ name) i
      = Inr \<lparr>StatusCode = fst (response rw), Body = Inr (snd (response rw))\<rparr>"
    by (simp only: path_def)
qed

end
