(* ===== verification/Publisher.thy ===== *)
theory Publisher
  imports Go_Json
begin

text \<open>
  Model of \<open>route_populator/publisher/publisher.go\<close>: a publisher that prepares the registration messages
  of a range of routes and publishes each of them for the router and for service discovery. The
  connection is an argument: whether a call fails is a function of the calls made so far.
\<close>

section \<open>Jobs\<close>

record Job =
  PublishingEndpoint :: string
  BackendHost :: string
  BackendPort :: int
  AppDomain :: string
  AppName :: string
  StartRange :: int
  EndRange :: int

definition validationError :: "string \<Rightarrow> go_error" where
  "validationError err = ''Invalid job properties: '' @ err"

definition missing :: "string \<Rightarrow> string" where
  "missing field = ''Missing '' @ [dquote] @ field @ [dquote]"

definition validate :: "Job \<Rightarrow> go_error option" where
  "validate j =
     (if PublishingEndpoint j = [] then Some (validationError (missing ''AppDomain''))
      else if BackendHost j = [] then Some (validationError (missing ''BackendHost''))
      else if BackendPort j = 0 then Some (validationError (missing ''BackendPort''))
      else if AppDomain j = [] then Some (validationError (missing ''AppDomain''))
      else if AppName j = [] then Some (validationError (missing ''AppName''))
      else if EndRange j \<le> StartRange j
      then Some (validationError (''Invalid route '' @ [dquote] @ ''StartRange'' @ [dquote] @ '' and ''
                   @ [dquote] @ ''EndRange'' @ [dquote]))
      else None)"

section \<open>Publishers\<close>

record RouteData =
  rd_Host :: string
  rd_Port :: int
  URIs :: "string list"

definition RouteData_json :: "RouteData \<Rightarrow> json" where
  "RouteData_json r = JObj
     [(''host'', JStr (rd_Host r)), (''port'', JInt (rd_Port r)), (''uris'', JArr (map JStr (URIs r)))]"

text \<open>The calls on the connection, and the pauses between messages.\<close>

datatype pub_call = Publish string string | CloseConn | Sleep duration

type_synonym pub_env = "pub_call list \<Rightarrow> pub_call \<Rightarrow> go_error option"

record Publisher =
  pub_job :: Job
  publishDelay :: duration
  pub_conn :: bool
  pub_data :: "string list"
  pub_calls :: "pub_call list"

definition NewPublisher :: "Job \<Rightarrow> duration \<Rightarrow> Publisher" where
  "NewPublisher job delay =
     \<lparr>pub_job = job, publishDelay = delay, pub_conn = False, pub_data = [], pub_calls = []\<rparr>"

definition route_name :: "Job \<Rightarrow> int \<Rightarrow> string" where
  "route_name job i = AppName job @ ''-'' @ show_int i @ ''.'' @ AppDomain job"

text \<open>The loop of \<open>Initialize\<close>; \<open>json.Marshal\<close> of the route data may return an error.\<close>

function init_loop :: "Job \<Rightarrow> int \<Rightarrow> string list \<Rightarrow> go_error option \<times> string list" where
  "init_loop job i data =
     (if i < EndRange job
      then (case json_Marshal (RouteData_json
                    \<lparr>rd_Host = BackendHost job, rd_Port = BackendPort job, URIs = [route_name job i]\<rparr>) of
              Inl err \<Rightarrow> (Some err, data)
            | Inr marshaledData \<Rightarrow> init_loop job (i + 1) (data @ [marshaledData]))
      else (None, data))"
  by pat_completeness auto
termination by (relation "measure (\<lambda>(job, i, _). nat (EndRange job - i))") auto

declare init_loop.simps [simp del]

text \<open>\<open>Initialize\<close>: the argument \<open>connect\<close> is the connection creator; it gives an error or a connection.\<close>

definition Initialize :: "(string \<Rightarrow> go_error option) \<Rightarrow> Publisher \<Rightarrow> go_error option \<times> Publisher" where
  "Initialize connect p =
     (case validate (pub_job p) of
        Some err \<Rightarrow> (Some err, p)
      | None \<Rightarrow>
          (case connect (PublishingEndpoint (pub_job p)) of
             Some err \<Rightarrow> (Some err, p\<lparr>pub_conn := False\<rparr>)
           | None \<Rightarrow>
               (let (err, data) = init_loop (pub_job p) (StartRange (pub_job p)) (pub_data p)
                in (err, p\<lparr>pub_conn := True, pub_data := data\<rparr>))))"

definition conn_do :: "pub_env \<Rightarrow> pub_call \<Rightarrow> Publisher \<Rightarrow> go_error option \<times> Publisher" where
  "conn_do env c p = (env (pub_calls p) c, p\<lparr>pub_calls := pub_calls p @ [c]\<rparr>)"

text \<open>
  The loop of \<open>PublishRouteRegistrations\<close>: the message is looked up in the prepared data, which panics
  out of range, and published under both subjects.
\<close>

function publish_loop :: "pub_env \<Rightarrow> int \<Rightarrow> int \<Rightarrow> Publisher \<Rightarrow> (go_error option \<times> Publisher) outcome" where
  "publish_loop env n i p =
     (if i < n
      then if nat i \<ge> length (pub_data p) \<or> i < 0 then Panic IndexOutOfRange
           else if \<not> pub_conn p then Panic NilDereference
           else (case conn_do env (Publish ''router.register'' (pub_data p ! nat i)) p of
                   (Some err, p1) \<Rightarrow> Return (Some err, p1)
                 | (None, p1) \<Rightarrow>
                     (case conn_do env (Publish ''service-discovery.register'' (pub_data p ! nat i)) p1 of
                        (Some err, p2) \<Rightarrow> Return (Some err, p2)
                      | (None, p2) \<Rightarrow>
                          publish_loop env n (i + 1) (p2\<lparr>pub_calls := pub_calls p2 @ [Sleep (publishDelay p2)]\<rparr>)))
      else Return (None, p))"
  by pat_completeness auto
termination by (relation "measure (\<lambda>(env, n, i, p). nat (n - i))") auto

declare publish_loop.simps [simp del]

text \<open>The final log line prints the first message, so it panics when there is none.\<close>

definition PublishRouteRegistrations :: "pub_env \<Rightarrow> Publisher \<Rightarrow> (go_error option \<times> Publisher) outcome" where
  "PublishRouteRegistrations env p =
     (case publish_loop env (int64 (EndRange (pub_job p) - StartRange (pub_job p))) 0 p of
        Panic e \<Rightarrow> Panic e
      | Return (Some err, p') \<Rightarrow> Return (Some err, p')
      | Return (None, p') \<Rightarrow> if pub_data p' = [] then Panic IndexOutOfRange else Return (None, p'))"

definition Finish :: "pub_env \<Rightarrow> Publisher \<Rightarrow> Publisher outcome" where
  "Finish env p = (if pub_conn p then Return (snd (conn_do env CloseConn p)) else Panic NilDereference)"

section \<open>Preparing messages\<close>

definition route_message :: "Job \<Rightarrow> int \<Rightarrow> string" where
  "route_message job i = json_print (RouteData_json
     \<lparr>rd_Host = BackendHost job, rd_Port = BackendPort job, URIs = [route_name job i]\<rparr>)"

lemma init_loop_eq:
  "init_loop job i data = (None, data @ map (route_message job) [i..EndRange job - 1])"
proof (induction job i data rule: init_loop.induct)
  case (1 job i data)
  show ?case
  proof (cases "i < EndRange job")
    case True
    have "[i..EndRange job - 1] = i # [i + 1..EndRange job - 1]" using True by (simp add: upto_rec1)
    with True 1 show ?thesis
      by (subst init_loop.simps) (simp add: json_Marshal_def route_message_def)
  qed (subst init_loop.simps, simp)
qed

text \<open>The calls of the messages in a list, in order.\<close>

definition message_calls :: "duration \<Rightarrow> string list \<Rightarrow> pub_call list" where
  "message_calls delay ds =
     concat (map (\<lambda>d. [Publish ''router.register'' d, Publish ''service-discovery.register'' d, Sleep delay]) ds)"

text \<open>No call on the connection fails.\<close>

definition reliable :: "pub_env \<Rightarrow> bool" where
  "reliable env \<longleftrightarrow> (\<forall>cs c. env cs c = None)"

text \<open>
  The reference for a round: the calls of a script are made one after the other, up to and including
  the first one that fails, whose error is the result. A pause does not fail.
\<close>

fun run_script :: "pub_env \<Rightarrow> pub_call list \<Rightarrow> pub_call list \<Rightarrow> go_error option \<times> pub_call list" where
  "run_script env made [] = (None, made)"
| "run_script env made (Sleep d # cs) = run_script env (made @ [Sleep d]) cs"
| "run_script env made (c # cs) =
     (case env made c of Some err \<Rightarrow> (Some err, made @ [c]) | None \<Rightarrow> run_script env (made @ [c]) cs)"

lemma run_script_reliable: "reliable env \<Longrightarrow> run_script env made cs = (None, made @ cs)"
  by (induction env made cs rule: run_script.induct) (simp_all add: reliable_def)

lemma publish_loop_script:
  assumes "pub_conn p" and "int (length (pub_data p)) = n" and "0 \<le> i" and "i \<le> n"
  shows "publish_loop env n i p =
    (case run_script env (pub_calls p) (message_calls (publishDelay p) (drop (nat i) (pub_data p))) of
       (err, calls) \<Rightarrow> Return (err, p\<lparr>pub_calls := calls\<rparr>))"
  using assms
proof (induction env n i p rule: publish_loop.induct)
  case (1 env n i p)
  show ?case
  proof (cases "i < n")
    case True
    let ?d = "pub_data p ! nat i"
    let ?r = "Publish ''router.register'' ?d" and ?s = "Publish ''service-discovery.register'' ?d"
    let ?p1 = "p\<lparr>pub_calls := pub_calls p @ [?r]\<rparr>" and ?p2 = "p\<lparr>pub_calls := pub_calls p @ [?r, ?s]\<rparr>"
    have bound: "\<not> length (pub_data p) \<le> nat i" using True "1.prems"(2,3) by linarith
    have script: "message_calls (publishDelay p) (drop (nat i) (pub_data p))
        = ?r # ?s # Sleep (publishDelay p) # message_calls (publishDelay p) (drop (nat (i + 1)) (pub_data p))"
      using True "1.prems" bound
      by (simp add: message_calls_def nat_add_distrib flip: Cons_nth_drop_Suc [of "nat i"])
    have "publish_loop env n (i + 1) (?p2\<lparr>pub_calls := pub_calls ?p2 @ [Sleep (publishDelay ?p2)]\<rparr>) =
      (case run_script env (pub_calls p @ [?r, ?s, Sleep (publishDelay p)])
          (message_calls (publishDelay p) (drop (nat (i + 1)) (pub_data p))) of
         (err, calls) \<Rightarrow> Return (err, p\<lparr>pub_calls := calls\<rparr>))"
      if "env (pub_calls p) ?r = None" "env (pub_calls p @ [?r]) ?s = None"
      using "1.IH" [of None ?p1 None ?p2] True "1.prems" bound that by (simp add: conn_do_def split: prod.splits)
    with True "1.prems" bound show ?thesis
      by (subst publish_loop.simps) (auto simp: script conn_do_def split: option.splits)
  next
    case False
    with "1.prems" show ?thesis by (subst publish_loop.simps) (simp add: message_calls_def)
  qed
qed

text \<open>A publisher that \<open>Initialize\<close> has prepared; every round leaves it prepared.\<close>

definition prepared :: "Publisher \<Rightarrow> bool" where
  "prepared p \<longleftrightarrow> pub_conn p \<and> StartRange (pub_job p) < EndRange (pub_job p) \<and>
     is_int64 (EndRange (pub_job p) - StartRange (pub_job p)) \<and>
     pub_data p = map (route_message (pub_job p)) [StartRange (pub_job p)..EndRange (pub_job p) - 1]"

lemma Initialize_valid:
  assumes "validate job = None" and "connect (PublishingEndpoint job) = None"
  shows "Initialize connect (NewPublisher job delay) = (None, (NewPublisher job delay)
    \<lparr>pub_conn := True, pub_data := map (route_message job) [StartRange job..EndRange job - 1]\<rparr>)"
  using assms by (simp add: Initialize_def NewPublisher_def init_loop_eq)

lemma Initialize_prepared:
  assumes "Initialize connect (NewPublisher job delay) = (None, p)" and "is_int64 (EndRange job - StartRange job)"
  shows "prepared p" and "pub_job p = job" and "publishDelay p = delay" and "pub_calls p = []"
proof -
  from assms(1) have ok: "validate job = None" "connect (PublishingEndpoint job) = None"
    by (auto simp: Initialize_def NewPublisher_def split: option.splits prod.splits)
  then have "StartRange job < EndRange job" by (auto simp: validate_def split: if_splits)
  with Initialize_valid [of job connect delay] ok assms
  show "prepared p" "pub_job p = job" "publishDelay p = delay" "pub_calls p = []"
    by (auto simp: prepared_def NewPublisher_def)
qed

lemma publish_round:
  assumes "prepared p"
  shows "PublishRouteRegistrations env p =
    (case run_script env (pub_calls p) (message_calls (publishDelay p) (pub_data p)) of
       (err, calls) \<Rightarrow> Return (err, p\<lparr>pub_calls := calls\<rparr>))"
proof -
  have "int (length (pub_data p)) = EndRange (pub_job p) - StartRange (pub_job p)" "pub_data p \<noteq> []"
    using assms by (simp_all add: prepared_def)
  with publish_loop_script [of p _ 0 env] assms show ?thesis
    by (simp add: PublishRouteRegistrations_def prepared_def split: prod.splits option.splits)
qed

section \<open>Properties\<close>

text \<open>
  C22: a round of a publisher that was initialised. Whatever calls on its connection fail, it makes the calls
  of a fixed script in order (for each route of its range, increasing: the message for the router, the
  same message for service discovery, a pause) up to and including the first one that fails, and
  returns that call's error, or no error if none fails. It never panics, and what it keeps between
  rounds does not change, so that every later round follows the same script.
\<close>

theorem publisher_follows_script:
  assumes "Initialize connect (NewPublisher job delay) = (None, p)" and "is_int64 (EndRange job - StartRange job)"
  shows "PublishRouteRegistrations env (p\<lparr>pub_calls := made\<rparr>) =
    (case run_script env made (message_calls delay (map (route_message job) [StartRange job..EndRange job - 1])) of
       (err, calls) \<Rightarrow> Return (err, p\<lparr>pub_calls := calls\<rparr>))"
proof -
  note p = Initialize_prepared [OF assms]
  then have "prepared (p\<lparr>pub_calls := made\<rparr>)" by (simp add: prepared_def)
  from publish_round [OF this] p show ?thesis by (simp add: prepared_def)
qed

definition sample_job :: Job where
  "sample_job = \<lparr>PublishingEndpoint = ''nats://nats:4222'', BackendHost = ''10.0.0.7'', BackendPort = 8080,
     AppDomain = ''apps.internal'', AppName = ''app'', StartRange = 0, EndRange = 2\<rparr>"

theorem publisher_follows_script_witness:
  "\<exists>p. Initialize (\<lambda>_. None) (NewPublisher sample_job 50000) = (None, p) \<and>
    PublishRouteRegistrations (\<lambda>made c. if length made = 3 then Some ''closed'' else None) p = Return (Some ''closed'', p\<lparr>pub_calls :=
      [Publish ''router.register'' (route_message sample_job 0), Publish ''service-discovery.register'' (route_message sample_job 0),
       Sleep 50000, Publish ''router.register'' (route_message sample_job 1)]\<rparr>)"
proof -
  have "validate sample_job = None" by (simp add: validate_def sample_job_def)
  then obtain p where p: "Initialize (\<lambda>_. None) (NewPublisher sample_job 50000) = (None, p)" "pub_calls p = []"
    by (simp add: Initialize_valid) (simp add: NewPublisher_def)
  have "is_int64 (EndRange sample_job - StartRange sample_job)"
    by (simp add: sample_job_def is_int64_def minInt64_def maxInt64_def)
  moreover have "[StartRange sample_job..EndRange sample_job - 1] = [0, 1]"
    by (simp add: sample_job_def upto_rec1)
  moreover have "p\<lparr>pub_calls := []\<rparr> = p" using p(2) by (cases p) simp
  ultimately show ?thesis
    using publisher_follows_script [OF p(1), of "\<lambda>made c. if length made = 3 then Some ''closed'' else None" "[]"] p(1)
    by (simp add: message_calls_def)
qed

end
