(* ===== verification/Runner.thy ===== *)
theory Runner
  imports Publisher
begin

text \<open>
  Model of \<open>route_populator/runner/runner.go\<close> and \<open>route_populator/main.go\<close>: the range of routes is cut
  into one part per goroutine, and each goroutine publishes its part again and again until the runner
  is stopped. The cutting is a function that may not terminate; the goroutines are the subject of
  \<open>Runner_Concurrency\<close>.
\<close>

section \<open>Cutting the range\<close>

text \<open>Go's integer division and remainder truncate towards zero.\<close>

definition go_div :: "int \<Rightarrow> int \<Rightarrow> int" where
  "go_div a b = sgn a * sgn b * (\<bar>a\<bar> div \<bar>b\<bar>)"

definition go_rem :: "int \<Rightarrow> int \<Rightarrow> int" where
  "go_rem a b = sgn a * (\<bar>a\<bar> mod \<bar>b\<bar>)"

text \<open>The loop that collects the cut points; \<open>None\<close> is a loop that does not end.\<close>

partial_function (option) partition_loop :: "int \<Rightarrow> int \<Rightarrow> int \<Rightarrow> int list \<Rightarrow> int list option" where
  "partition_loop i end partitionSize result =
     (if i \<le> end then partition_loop (int64 (i + partitionSize)) end partitionSize (result @ [i]) else Some result)"

definition PartitionRange :: "int \<Rightarrow> int \<Rightarrow> int \<Rightarrow> int list outcome option" where
  "PartitionRange start end partitionSize =
     (let rangeSize = int64 (end - start)
      in if partitionSize = rangeSize then Some (Return [start, end])
         else case partition_loop start end partitionSize [] of
                None \<Rightarrow> None
              | Some result \<Rightarrow>
                  if partitionSize = 0 then Some (Panic DivideByZero)
                  else if go_rem rangeSize partitionSize > 0
                  then if result = [] then Some (Panic IndexOutOfRange)
                       else Some (Return (result[length result - 1 := end]))
                  else Some (Return result))"

text \<open>A helper that nothing calls.\<close>

definition runner_min :: "int \<Rightarrow> int \<Rightarrow> int" where
  "runner_min a b = (if b \<ge> a then a else b)"

section \<open>The runner\<close>

record Runner =
  stopped :: bool
  run_job :: Job
  numGoRoutines :: int
  heartbeatInterval :: duration
  run_publishDelay :: duration

definition NewRunner :: "Job \<Rightarrow> int \<Rightarrow> duration \<Rightarrow> duration \<Rightarrow> Runner" where
  "NewRunner j n interval delay =
     \<lparr>stopped = False, run_job = j, numGoRoutines = n, heartbeatInterval = interval, run_publishDelay = delay\<rparr>"

text \<open>The job of goroutine \<open>gid\<close>: its cut points are read inside the goroutine.\<close>

definition goroutine_job :: "Job \<Rightarrow> int list \<Rightarrow> nat \<Rightarrow> Job outcome" where
  "goroutine_job job ranges gid =
     (if Suc gid < length ranges then Return (job\<lparr>StartRange := ranges ! gid, EndRange := ranges ! Suc gid\<rparr>)
      else Panic IndexOutOfRange)"

text \<open>\<open>Start\<close>: an error, a panic, no return, or the jobs of the goroutines that were started.\<close>

definition Start :: "Runner \<Rightarrow> (go_error + Job outcome list) outcome option" where
  "Start r =
     (if stopped r then Some (Return (Inl ''Cannot restart a runner.''))
      else let numRoutes = int64 (EndRange (run_job r) - StartRange (run_job r))
           in if numGoRoutines r = 0 then Some (Panic DivideByZero)
              else let rangeSize = int64 (go_div numRoutes (numGoRoutines r))
                   in case PartitionRange (StartRange (run_job r)) (EndRange (run_job r)) rangeSize of
                        None \<Rightarrow> None
                      | Some (Panic p) \<Rightarrow> Some (Panic p)
                      | Some (Return ranges) \<Rightarrow>
                          Some (Return (Inr (map (goroutine_job (run_job r) ranges) [0..<nat (numGoRoutines r)]))))"

section \<open>The program\<close>

record flags =
  natsEndpoint :: string
  backendHost :: string
  backendPort :: int
  appDomain :: string
  appName :: string
  numRoutes :: int
  heartbeatIntervalFlag :: int
  publishDelayString :: string

text \<open>
  \<open>checkRequiredFields\<close>: the messages printed for the flags, and the parsed delay; \<open>parse\<close> is
  \<open>time.ParseDuration\<close>. The process exits with status 1 when there is a message.
\<close>

definition checkRequiredFields :: "(string \<Rightarrow> go_error + duration) \<Rightarrow> flags \<Rightarrow> string list + duration" where
  "checkRequiredFields parse f =
     (let msgs = (if natsEndpoint f = [] then [''-nats must be provided''] else [])
            @ (if backendHost f = [] then [''-backendHost must be provided''] else [])
            @ (if backendPort f \<le> 0 then [''-backendPort must be provided''] else [])
            @ (if appDomain f = [] then [''-appDomain must be provided''] else [])
            @ (if appName f = [] then [''-appName must be provided''] else [])
            @ (if numRoutes f \<le> 0 then [''-numRoutes must be provided''] else [])
            @ (if heartbeatIntervalFlag f \<le> 0 then [''-heartbeatInterval must be greater than 0''] else [])
            @ (case parse (publishDelayString f) of
                 Inl err \<Rightarrow> [''-publishDelay is an invalid string: '' @ err] | Inr _ \<Rightarrow> [])
      in case parse (publishDelayString f) of
           Inl _ \<Rightarrow> Inl msgs
         | Inr delay \<Rightarrow> if msgs \<noteq> [] then Inl msgs else Inr delay)"

text \<open>The runner that \<open>startPopulatingRoutes\<close> starts on a machine with \<open>numCPU\<close> processors.\<close>

definition populator_runner :: "int \<Rightarrow> duration \<Rightarrow> flags \<Rightarrow> Runner" where
  "populator_runner numCPU delay f =
     NewRunner
       \<lparr>PublishingEndpoint = natsEndpoint f, BackendHost = backendHost f, BackendPort = backendPort f,
        AppDomain = appDomain f, AppName = appName f, StartRange = 0, EndRange = numRoutes f\<rparr>
       (if numRoutes f < 1000 then 1 else numCPU) (seconds (heartbeatIntervalFlag f)) delay"

section \<open>What the cut points are\<close>

lemma partition_loop_eq:
  assumes "0 < d" and "is_int64 i" and "is_int64 (end + d)" and "0 \<le> k" and "i + k * d \<le> end" and "end < i + (k + 1) * d"
  shows "partition_loop i end d acc = Some (acc @ map (\<lambda>j. i + int j * d) [0..<nat (k + 1)])"
  using assms
proof (induction "nat k" arbitrary: i k acc)
  case 0
  then have "k = 0" by simp
  with 0 have "is_int64 (i + d)" by (simp add: is_int64_def)
  with 0 \<open>k = 0\<close> have "partition_loop i end d acc = partition_loop (i + d) end d (acc @ [i])"
    by (subst partition_loop.simps) simp
  also have "\<dots> = Some (acc @ [i])" using 0 \<open>k = 0\<close> by (subst partition_loop.simps) simp
  finally show ?case using \<open>k = 0\<close> by simp
next
  case (Suc m)
  then have k: "0 < k" "i \<le> end"
    using mult_nonneg_nonneg [of k d] by (linarith, linarith)
  have "i + d \<le> end + d" using k(2) by simp
  with Suc.prems(1-3) have "is_int64 (i + d)" unfolding is_int64_def by linarith
  then have "partition_loop i end d acc = partition_loop (i + d) end d (acc @ [i])"
    using k(2) by (subst partition_loop.simps) simp
  also have "\<dots> = Some ((acc @ [i]) @ map (\<lambda>j. (i + d) + int j * d) [0..<nat ((k - 1) + 1)])"
    by (rule Suc.hyps(1)) (use Suc.hyps(2) Suc.prems \<open>is_int64 (i + d)\<close> k in \<open>auto simp: algebra_simps\<close>)
  also have "map (\<lambda>j. (i + d) + int j * d) [0..<nat ((k - 1) + 1)] = map (\<lambda>j. i + int j * d) [1..<nat (k + 1)]"
    using k(1) by (auto intro!: nth_equalityI simp: algebra_simps nat_diff_distrib)
  also have "(acc @ [i]) @ map (\<lambda>j. i + int j * d) [1..<nat (k + 1)] = acc @ map (\<lambda>j. i + int j * d) [0..<nat (k + 1)]"
    using k(1) by (simp add: upt_conv_Cons)
  finally show ?case .
qed

lemma PartitionRange_eq:
  assumes "0 < d" and "start \<le> end" and "is_int64 start" and "is_int64 (end + d)" and "is_int64 (end - start)"
    and "end \<noteq> start \<or> d \<noteq> 0"
  shows "PartitionRange start end d =
    Some (Return (map (\<lambda>j. start + int j * d) [0..<nat ((end - start) div d)] @ [end]))"
proof -
  define n where "n = end - start"
  define k where "k = n div d"
  define r where "r = n mod d"
  have n: "n = k * d + r" "0 \<le> r" "r < d" "0 \<le> k" "0 \<le> n"
    using assms(1,2) by (simp_all add: k_def r_def n_def pos_imp_zdiv_nonneg_iff)
  have loop: "partition_loop start end d [] = Some (map (\<lambda>j. start + int j * d) [0..<nat (k + 1)])"
    using partition_loop_eq [OF assms(1,3,4) n(4), of "[]"] n by (simp add: n_def algebra_simps)
  have upt: "[0..<nat (k + 1)] = [0..<nat k] @ [nat k]" using n(4) by (simp add: nat_add_distrib)
  have rem: "go_rem n d = r" using n assms(1) by (cases "n = 0") (auto simp: go_rem_def r_def sgn_if)
  have n64: "int64 (end - start) = n" using assms(5) by (simp add: n_def)
  show ?thesis
  proof (cases "d = n")
    case True
    then have "k = 1" using assms(1) by (simp add: k_def)
    with True n64 show ?thesis by (simp add: PartitionRange_def k_def n_def)
  next
    case False
    have result: "PartitionRange start end d =
        (if r > 0 then Some (Return ((map (\<lambda>j. start + int j * d) [0..<nat (k + 1)])[nat k := end]))
         else Some (Return (map (\<lambda>j. start + int j * d) [0..<nat (k + 1)])))"
      using False assms(1) n(4) by (simp add: PartitionRange_def n64 loop rem upt)
    show ?thesis
    proof (cases "r > 0")
      case True
      then show ?thesis unfolding result upt by (simp add: list_update_append flip: n_def k_def)
    next
      case False
      with n have "start + k * d = end" by (simp add: n_def)
      with False n(4) show ?thesis unfolding result upt by (simp flip: n_def k_def)
    qed
  qed
qed

text \<open>The jobs of the goroutines, for a runner with positive counts and no overflow.\<close>

definition sound_runner :: "Runner \<Rightarrow> bool" where
  "sound_runner r \<longleftrightarrow> \<not> stopped r \<and> 0 < numGoRoutines r \<and> is_int64 (StartRange (run_job r)) \<and>
     is_int64 (2 * (EndRange (run_job r) - StartRange (run_job r)) + StartRange (run_job r)) \<and>
     is_int64 (EndRange (run_job r) - StartRange (run_job r)) \<and>
     StartRange (run_job r) + numGoRoutines r \<le> EndRange (run_job r)"

lemma Start_jobs:
  assumes "sound_runner r"
  defines "a \<equiv> StartRange (run_job r)" and "b \<equiv> EndRange (run_job r)" and "g \<equiv> numGoRoutines r"
  defines "q \<equiv> (b - a) div g"
  shows "Start r = Some (Return (Inr (map (\<lambda>gid. Return ((run_job r)
      \<lparr>StartRange := a + int gid * q,
       EndRange := if int gid + 1 < (b - a) div q then a + (int gid + 1) * q else b\<rparr>)) [0..<nat g])))"
proof -
  have r: "\<not> stopped r" "0 < g" "is_int64 a" "is_int64 (2 * (b - a) + a)" "is_int64 (b - a)" "a + g \<le> b"
    using assms(1) by (simp_all add: sound_runner_def a_def b_def g_def)
  have q: "1 \<le> q" "q * g \<le> b - a"
    using r(2,6) by (simp_all add: q_def pos_imp_zdiv_pos_iff int_one_le_iff_zero_less)
      (metis div_mult_mod_eq le_add_same_cancel1 pos_mod_sign)
  have "q * 1 \<le> q * g" using q(1) r(2) by (intro mult_left_mono) auto
  with q(2) have qb: "q \<le> b - a" by simp
  have k: "g \<le> (b - a) div q"
    using zdiv_mono1 [OF q(2), of q] q(1) by simp
  have "is_int64 (b + q)" using r(3,4) qb q(1) r(6,2) by (simp add: is_int64_def)
  then have ranges: "PartitionRange a b q = Some (Return (map (\<lambda>j. a + int j * q) [0..<nat ((b - a) div q)] @ [b]))"
    using PartitionRange_eq [of q a b] q(1) r by simp
  have div: "go_div (b - a) g = q" using r(2,6) by (simp add: go_div_def q_def sgn_if)
  have "is_int64 q" using qb q(1) r(5) by (simp add: is_int64_def minInt64_def)
  then show ?thesis
    using r k ranges
    by (auto simp: Start_def div goroutine_job_def nth_append simp flip: a_def b_def g_def)
qed

text \<open>The routes of a list of jobs, in the order of the jobs.\<close>

definition job_routes :: "Job \<Rightarrow> int list" where
  "job_routes j = [StartRange j..EndRange j - 1]"

text \<open>A job for a part of the range of another.\<close>

definition job_part :: "Job \<Rightarrow> Job \<Rightarrow> bool" where
  "job_part job j \<longleftrightarrow> j = job\<lparr>StartRange := StartRange j, EndRange := EndRange j\<rparr> \<and>
     StartRange job \<le> StartRange j \<and> StartRange j < EndRange j \<and> EndRange j \<le> EndRange job"

lemma concat_equal_parts:
  "0 < q \<Longrightarrow> concat (map (\<lambda>i. [a + int i * q..a + (int i + 1) * q - 1]) [0..<m]) = [a..a + int m * q - 1]"
proof (induction m)
  case (Suc m)
  have "[a..a + int (Suc m) * q - 1] = [a..a + int m * q - 1] @ [a + int m * q..a + (int m + 1) * q - 1]"
    using upto_split1 [of a "a + int m * q" "a + (int m + 1) * q - 1"] Suc.prems by (simp add: algebra_simps)
  with Suc show ?case by simp
qed simp

text \<open>Where the part of goroutine \<open>i\<close> ends when the range from \<open>a\<close> to \<open>b\<close> is cut into parts of size \<open>q\<close>.\<close>

definition part_end :: "int \<Rightarrow> int \<Rightarrow> int \<Rightarrow> nat \<Rightarrow> int" where
  "part_end a b q i = (if int i + 1 < (b - a) div q then a + (int i + 1) * q else b)"

lemma part_end_bounds:
  assumes "0 < q" and "b - a = q * g + e" and "0 \<le> e" and "i < nat g"
  shows "a + int i * q < part_end a b q i" and "part_end a b q i \<le> b"
proof -
  have "int i + 1 \<le> g" using assms(4) by linarith
  then have "(int i + 1) * q \<le> g * q" using assms(1) by (intro mult_right_mono) auto
  then have "a + (int i + 1) * q \<le> b" using assms(2,3) by (simp add: mult.commute)
  then show "a + int i * q < part_end a b q i" "part_end a b q i \<le> b"
    using assms(1) by (simp_all add: part_end_def algebra_simps)
qed

lemma parts_concat:
  assumes "0 < q" and "b - a = q * g + e" and "0 \<le> e" and "0 < g"
  shows "concat (map (\<lambda>i. [a + int i * q..part_end a b q i - 1]) [0..<nat g])
     = (if e < q then [a..b - 1] else [a..a + g * q - 1])"
proof -
  define m where "m = nat g - 1"
  have K: "(b - a) div q = g + e div q" using assms(1) by (simp add: assms(2))
  have g: "nat g = Suc m" "g = int m + 1" using assms(4) by (simp_all add: m_def)
  have "0 \<le> e div q" using assms(1,3) by (simp add: pos_imp_zdiv_nonneg_iff)
  then have "map (\<lambda>i. [a + int i * q..part_end a b q i - 1]) [0..<m]
      = map (\<lambda>i. [a + int i * q..a + (int i + 1) * q - 1]) [0..<m]"
    by (intro map_cong [OF refl]) (simp add: part_end_def K g(2))
  then have "concat (map (\<lambda>i. [a + int i * q..part_end a b q i - 1]) [0..<nat g])
      = [a..a + int m * q - 1] @ [a + int m * q..part_end a b q m - 1]"
    using concat_equal_parts [of q a m] assms(1) by (simp add: g(1) del: map_eq_conv)
  also have "\<dots> = (if e < q then [a..b - 1] else [a..a + g * q - 1])"
  proof (cases "e < q")
    case True
    then have "part_end a b q m = b" using assms(3) by (simp add: part_end_def K g(2))
    moreover have "a \<le> a + int m * q" "a + int m * q < b" using assms(1-3) True by (auto simp: g(2) algebra_simps)
    ultimately show ?thesis using True upto_split1 [of a "a + int m * q" "b - 1"] by auto
  next
    case False
    then have "0 < e div q" using assms(1) by (simp add: pos_imp_zdiv_pos_iff)
    then have "part_end a b q m = a + g * q" by (simp add: part_end_def K g(2))
    moreover have "a \<le> a + int m * q" using assms(1) by simp
    ultimately show ?thesis
      using False upto_split1 [of a "a + int m * q" "a + g * q - 1"] assms(1) by (simp add: g(2) algebra_simps)
  qed
  finally show ?thesis .
qed

lemma Start_routes:
  assumes "sound_runner r"
  defines "a \<equiv> StartRange (run_job r)" and "b \<equiv> EndRange (run_job r)" and "g \<equiv> numGoRoutines r"
  shows "\<exists>jobs. Start r = Some (Return (Inr (map Return jobs))) \<and> int (length jobs) = g \<and>
    list_all (job_part (run_job r)) jobs \<and>
    concat (map job_routes jobs) = (if (b - a) mod g < (b - a) div g then [a..b - 1] else [a..a + g * ((b - a) div g) - 1])"
proof -
  define q where "q = (b - a) div g"
  define e where "e = (b - a) mod g"
  have r: "0 < g" "a + g \<le> b" using assms(1) by (simp_all add: sound_runner_def a_def b_def g_def)
  have n: "b - a = q * g + e" "0 \<le> e" using r(1) by (simp_all add: q_def e_def)
  have q: "0 < q" using r by (simp add: q_def pos_imp_zdiv_pos_iff)
  let ?jobs = "map (\<lambda>i. (run_job r)\<lparr>StartRange := a + int i * q, EndRange := part_end a b q i\<rparr>) [0..<nat g]"
  have "concat (map job_routes ?jobs) = (if e < q then [a..b - 1] else [a..a + g * q - 1])"
    using parts_concat [OF q n r(1)] by (simp add: job_routes_def o_def)
  moreover have "Start r = Some (Return (Inr (map Return ?jobs)))"
    using Start_jobs [OF assms(1)] by (simp add: a_def b_def g_def q_def o_def part_end_def)
  moreover have "int (length ?jobs) = g" using r(1) by simp
  moreover have "list_all (job_part (run_job r)) ?jobs"
    using part_end_bounds [OF q n] q by (auto simp: list_all_iff job_part_def simp flip: a_def b_def)
  ultimately show ?thesis unfolding q_def e_def by blast
qed

lemma partition_loop_zero:
  assumes "partition_loop i end d acc = Some result"
  shows "d = 0 \<longrightarrow> is_int64 i \<longrightarrow> end < i"
  by (rule partition_loop.raw_induct [OF _ assms, of "\<lambda>i end d acc result. d = 0 \<longrightarrow> is_int64 i \<longrightarrow> end < i"])
     (fastforce split: if_splits)

section \<open>Properties of the partition\<close>

text \<open>
  Cutting a range. For a positive part size, \<open>PartitionRange\<close> ends and returns the start, then every
  further multiple of the part size from it, and the end as last point, which closes a last part that
  may be longer than the others.
\<close>

theorem PartitionRange_points:
  assumes "0 < d" and "start \<le> end" and "is_int64 start" and "is_int64 (end + d)" and "is_int64 (end - start)"
  shows "PartitionRange start end d =
    Some (Return (map (\<lambda>j. start + int j * d) [0..<nat ((end - start) div d)] @ [end]))"
  by (rule PartitionRange_eq) (use assms in auto)

theorem PartitionRange_points_witness:
  "PartitionRange 0 7 3 = Some (Return [0, 3, 7])"
  using PartitionRange_points [of 3 0 7]
  by (simp add: is_int64_def minInt64_def maxInt64_def upt_rec)



text \<open>
  The route populator on a machine with at most 31 processors has goroutines for every route from 0
  up to the requested number, each route once: below a thousand routes it uses one goroutine, and from a
  thousand on the remainder is always small enough.
\<close>

lemma populator_jobs:
  assumes "0 < numRoutes f" and "numRoutes f \<le> 4611686018427387903" and "0 < numCPU" and "numCPU \<le> 31"
  shows "\<exists>jobs. Start (populator_runner numCPU delay f) = Some (Return (Inr (map Return jobs))) \<and>
    list_all (job_part (run_job (populator_runner numCPU delay f))) jobs \<and>
    concat (map job_routes jobs) = [0..numRoutes f - 1]"
proof -
  let ?r = "populator_runner numCPU delay f"
  let ?g = "if numRoutes f < 1000 then 1 else numCPU"
  have r: "numGoRoutines ?r = ?g" "StartRange (run_job ?r) = 0" "EndRange (run_job ?r) = numRoutes f" "\<not> stopped ?r"
    by (simp_all add: populator_runner_def NewRunner_def)
  have "sound_runner ?r"
    using assms by (auto simp: sound_runner_def r is_int64_def minInt64_def maxInt64_def)
  from Start_routes [OF this] obtain jobs where jobs: "Start ?r = Some (Return (Inr (map Return jobs)))"
    "list_all (job_part (run_job ?r)) jobs"
    "concat (map job_routes jobs) = (if numRoutes f mod ?g < numRoutes f div ?g then [0..numRoutes f - 1]
       else [0..?g * (numRoutes f div ?g) - 1])"
    unfolding r by auto
  have "numRoutes f mod ?g < numRoutes f div ?g"
  proof (cases "numRoutes f < 1000")
    case False
    have "numRoutes f mod numCPU < 31" using assms(3,4) pos_mod_bound [of numCPU "numRoutes f"] by linarith
    moreover have "1000 div numCPU \<le> numRoutes f div numCPU" using False assms(3) by (intro zdiv_mono1) auto
    moreover have "1000 div 31 \<le> 1000 div numCPU" using assms(3,4) by (intro zdiv_mono2) auto
    ultimately show ?thesis using False by simp
  qed (use assms in simp)
  with jobs show ?thesis by auto
qed

definition sample_flags :: flags where
  "sample_flags = \<lparr>natsEndpoint = ''nats://nats:4222'', backendHost = ''10.0.0.7'', backendPort = 8080,
     appDomain = ''apps.internal'', appName = ''app'', numRoutes = 5000, heartbeatIntervalFlag = 60,
     publishDelayString = ''50us''\<rparr>"

text \<open>
  On a machine with 64 processors the route populator, asked for 1000 routes, publishes the first 960
  only.
\<close>

theorem populator_loses_routes:
  "\<exists>jobs. Start (populator_runner 64 50000 (sample_flags\<lparr>numRoutes := 1000\<rparr>)) = Some (Return (Inr (map Return jobs))) \<and>
     concat (map job_routes jobs) = [0..959]"
proof -
  let ?r = "populator_runner 64 50000 (sample_flags\<lparr>numRoutes := 1000\<rparr>)"
  have r: "numGoRoutines ?r = 64" "StartRange (run_job ?r) = 0" "EndRange (run_job ?r) = 1000" "\<not> stopped ?r"
    by (simp_all add: populator_runner_def NewRunner_def)
  have "sound_runner ?r" by (simp add: sound_runner_def r is_int64_def minInt64_def maxInt64_def)
  from Start_routes [OF this] show ?thesis unfolding r by auto
qed

text \<open>
  C36: a runner with more goroutines than routes does not start: the part size is 0 and the loop that
  collects the cut points never ends.
\<close>

theorem too_many_goroutines_never_start:
  assumes "\<not> stopped r" and "StartRange (run_job r) < EndRange (run_job r)"
    and "EndRange (run_job r) - StartRange (run_job r) < numGoRoutines r"
    and "is_int64 (StartRange (run_job r))" and "is_int64 (EndRange (run_job r) - StartRange (run_job r))"
  shows "Start r = None"
proof -
  let ?a = "StartRange (run_job r)" and ?b = "EndRange (run_job r)" and ?g = "numGoRoutines r"
  have "go_div (?b - ?a) ?g = 0" using assms(2,3) by (simp add: go_div_def)
  moreover have "partition_loop ?a ?b 0 [] = None"
    using partition_loop_zero [of ?a ?b 0 "[]"] assms(2,4) by (cases "partition_loop ?a ?b 0 []") auto
  moreover have "int64 0 = 0" by (simp add: int64_def)
  ultimately show ?thesis
    using assms by (simp add: Start_def PartitionRange_def Let_def)
qed

theorem too_many_goroutines_never_start_witness:
  "Start (NewRunner sample_job 3 60 50) = None"
  using too_many_goroutines_never_start [of "NewRunner sample_job 3 60 50"]
  by (simp add: NewRunner_def sample_job_def is_int64_def minInt64_def maxInt64_def)

end
