(* ===== verification/Runner_Concurrency.thy ===== *)
theory Runner_Concurrency
  imports Runner
begin

text \<open>
  The goroutines of \<open>route_populator/runner/runner.go\<close> as a step relation: every goroutine initialises
  its publisher, publishes, and waits for the heartbeat or for the quit channel; one that fails sends
  its error and calls \<open>Stop\<close>, as does the goroutine that waits for a signal. \<open>Stop\<close> reads and writes the
  field \<open>stopped\<close> without a lock, so its three steps are separate.
\<close>

section \<open>The system\<close>

datatype gpc =
    Initializing
  | PublishingRoutes
  | Selecting
  | Failing go_error
  | SignalWait
  | StopCheck
  | StopSet
  | StopClose
  | Finished

text \<open>Participants below \<open>numGoRoutines\<close> are the goroutines; the one at that number waits for a signal.\<close>

record runner_system =
  rs_stopped :: bool
  rs_quit_closed :: bool
  rs_errs :: "go_error list"
  rs_pc :: "nat \<Rightarrow> gpc"
  rs_panic :: bool

definition runner_init :: "nat \<Rightarrow> runner_system \<Rightarrow> bool" where
  "runner_init g s \<longleftrightarrow>
     s = \<lparr>rs_stopped = False, rs_quit_closed = False, rs_errs = [],
          rs_pc = (\<lambda>i. if i < g then Initializing else if i = g then SignalWait else Finished), rs_panic = False\<rparr>"

abbreviation goto :: "nat \<Rightarrow> gpc \<Rightarrow> runner_system \<Rightarrow> runner_system" where
  "goto i pc s \<equiv> s\<lparr>rs_pc := (rs_pc s)(i := pc)\<rparr>"

inductive runner_step :: "nat \<Rightarrow> runner_system \<Rightarrow> nat \<Rightarrow> runner_system \<Rightarrow> bool" for g where
  init_ok: "\<not> rs_panic s \<Longrightarrow> rs_pc s i = Initializing \<Longrightarrow> runner_step g s i (goto i PublishingRoutes s)"
| init_err: "\<not> rs_panic s \<Longrightarrow> rs_pc s i = Initializing \<Longrightarrow>
    runner_step g s i (goto i (Failing (''initializing connection: '' @ err)) s)"
| publish_ok: "\<not> rs_panic s \<Longrightarrow> rs_pc s i = PublishingRoutes \<Longrightarrow> runner_step g s i (goto i Selecting s)"
| publish_err: "\<not> rs_panic s \<Longrightarrow> rs_pc s i = PublishingRoutes \<Longrightarrow>
    runner_step g s i (goto i (Failing (''publishing: '' @ err)) s)"
| heartbeat: "\<not> rs_panic s \<Longrightarrow> rs_pc s i = Selecting \<Longrightarrow> runner_step g s i (goto i PublishingRoutes s)"
| quit: "\<not> rs_panic s \<Longrightarrow> rs_pc s i = Selecting \<Longrightarrow> rs_quit_closed s \<Longrightarrow> runner_step g s i (goto i Finished s)"
| send: "\<not> rs_panic s \<Longrightarrow> rs_pc s i = Failing err \<Longrightarrow> length (rs_errs s) < g \<Longrightarrow>
    runner_step g s i ((goto i StopCheck s)\<lparr>rs_errs := rs_errs s @ [err]\<rparr>)"
| signal: "\<not> rs_panic s \<Longrightarrow> rs_pc s i = SignalWait \<Longrightarrow> runner_step g s i (goto i StopCheck s)"
| stop_again: "\<not> rs_panic s \<Longrightarrow> rs_pc s i = StopCheck \<Longrightarrow> rs_stopped s \<Longrightarrow> runner_step g s i (goto i Finished s)"
| stop_first: "\<not> rs_panic s \<Longrightarrow> rs_pc s i = StopCheck \<Longrightarrow> \<not> rs_stopped s \<Longrightarrow> runner_step g s i (goto i StopSet s)"
| stop_set: "\<not> rs_panic s \<Longrightarrow> rs_pc s i = StopSet \<Longrightarrow>
    runner_step g s i ((goto i StopClose s)\<lparr>rs_stopped := True\<rparr>)"
| close_open: "\<not> rs_panic s \<Longrightarrow> rs_pc s i = StopClose \<Longrightarrow> \<not> rs_quit_closed s \<Longrightarrow>
    runner_step g s i ((goto i Finished s)\<lparr>rs_quit_closed := True\<rparr>)"
| close_closed: "\<not> rs_panic s \<Longrightarrow> rs_pc s i = StopClose \<Longrightarrow> rs_quit_closed s \<Longrightarrow>
    runner_step g s i ((goto i Finished s)\<lparr>rs_panic := True\<rparr>)"

inductive_cases runner_stepE: "runner_step g s i s'"

text \<open>
  \<open>Wait\<close> returns once every goroutine has finished: the first error in the channel, if there is one.
\<close>

definition all_finished :: "nat \<Rightarrow> runner_system \<Rightarrow> bool" where
  "all_finished g s \<longleftrightarrow> list_all (\<lambda>i. rs_pc s i = Finished) [0..<g]"

definition Wait :: "nat \<Rightarrow> runner_system \<Rightarrow> go_error option option" where
  "Wait g s = (if all_finished g s then Some (case rs_errs s of [] \<Rightarrow> None | err # _ \<Rightarrow> Some err) else None)"

section \<open>Invariants\<close>

text \<open>A participant past the point where it sends its error, if it has one.\<close>

definition settled :: "gpc \<Rightarrow> bool" where
  "settled pc \<longleftrightarrow> pc \<in> {StopCheck, StopSet, StopClose, Finished}"

lemma settled_simps [simp]:
  "settled StopCheck" "settled StopSet" "settled StopClose" "settled Finished" "\<not> settled Initializing"
  "\<not> settled PublishingRoutes" "\<not> settled Selecting" "\<not> settled (Failing e)" "\<not> settled SignalWait"
  by (simp_all add: settled_def)

definition errs_inv :: "nat \<Rightarrow> runner_system \<Rightarrow> bool" where
  "errs_inv g s \<longleftrightarrow> length (rs_errs s) \<le> card {i \<in> {..<g}. settled (rs_pc s i)} \<and>
     (\<forall>i<g. rs_pc s i \<noteq> SignalWait) \<and> (\<forall>i\<ge>g. rs_pc s i = SignalWait \<or> settled (rs_pc s i))"

definition stop_inv :: "runner_system \<Rightarrow> bool" where
  "stop_inv s \<longleftrightarrow> (rs_quit_closed s \<longrightarrow> rs_stopped s) \<and>
     (rs_stopped s \<longrightarrow> rs_quit_closed s \<or> (\<exists>i. rs_pc s i = StopClose)) \<and>
     (\<forall>i. rs_pc s i = StopClose \<longrightarrow> rs_stopped s)"

lemma runner_step_shape:
  assumes "runner_step g s i s'"
  shows "rs_pc s' = (rs_pc s)(i := rs_pc s' i)" and "rs_pc s' i \<noteq> SignalWait"
    and "settled (rs_pc s i) \<or> rs_pc s i = SignalWait \<Longrightarrow> settled (rs_pc s' i)"
    and "rs_errs s' = rs_errs s \<or> (\<exists>e. rs_errs s' = rs_errs s @ [e]) \<and> rs_pc s i \<noteq> SignalWait \<and>
      \<not> settled (rs_pc s i) \<and> settled (rs_pc s' i)"
  using assms by (cases; simp)+

lemma card_settled_mono:
  fixes g i :: nat
  assumes "settled (pc i) \<Longrightarrow> settled x"
  shows "card {j \<in> {..<g}. settled (pc j)} \<le> card {j \<in> {..<g}. settled ((pc(i := x)) j)}"
proof (rule card_mono)
  show "finite {j \<in> {..<g}. settled ((pc(i := x)) j)}" by (rule finite_subset [of _ "{..<g}"]) auto
qed (use assms in auto)

lemma card_settled_Suc:
  fixes g i :: nat
  assumes "i < g" and "\<not> settled (pc i)" and "settled x"
  shows "card {j \<in> {..<g}. settled ((pc(i := x)) j)} = Suc (card {j \<in> {..<g}. settled (pc j)})"
proof -
  let ?S = "{j \<in> {..<g}. settled (pc j)}"
  have "{j \<in> {..<g}. settled ((pc(i := x)) j)} = insert i ?S"
    using assms by (auto simp: less_le)
  also have "card (insert i ?S) = Suc (card ?S)"
  proof (rule card_insert_disjoint)
    show "finite ?S" by (rule finite_subset [of _ "{..<g}"]) auto
    show "i \<notin> ?S" using assms(2) by blast
  qed
  finally show ?thesis .
qed

lemma runner_step_errs_inv:
  assumes "errs_inv g s" and "runner_step g s i s'"
  shows "errs_inv g s'"
proof -
  define x where "x = rs_pc s' i"
  note shape = runner_step_shape [OF assms(2), folded x_def]
  have outside: "settled (rs_pc s i) \<or> rs_pc s i = SignalWait" if "g \<le> i" using assms(1) that by (auto simp: errs_inv_def)
  have "length (rs_errs s') \<le> card {j \<in> {..<g}. settled (rs_pc s' j)}"
    using shape(4)
  proof (elim disjE conjE exE)
    assume "rs_errs s' = rs_errs s"
    then show ?thesis
      using assms(1) shape(3) card_settled_mono [of "rs_pc s" i x g] unfolding shape(1) errs_inv_def by simp
  next
    fix e
    assume e: "rs_pc s i \<noteq> SignalWait" "\<not> settled (rs_pc s i)" "settled x" "rs_errs s' = rs_errs s @ [e]"
    then have "i < g" using outside by (meson not_le)
    from card_settled_Suc [of i g "rs_pc s" x, OF this e(2,3)] show ?thesis
      using assms(1) e(4) unfolding shape(1) errs_inv_def by simp
  qed
  moreover have "\<forall>j<g. rs_pc s' j \<noteq> SignalWait" using assms(1) shape(2) unfolding shape(1) errs_inv_def by simp
  moreover have "\<forall>j\<ge>g. rs_pc s' j = SignalWait \<or> settled (rs_pc s' j)"
    using assms(1) shape(3) outside unfolding shape(1) errs_inv_def by simp
  ultimately show ?thesis unfolding errs_inv_def by blast
qed

interpretation runner_errs: invariant_system "runner_init g" "runner_step g" "errs_inv g"
  by (unfold_locales, simp add: runner_init_def errs_inv_def, erule (1) runner_step_errs_inv)

lemma runner_step_stop_inv:
  assumes "stop_inv s" and "runner_step g s i s'"
  shows "stop_inv s'"
proof -
  have keep: "\<exists>j. rs_pc s' j = StopClose" if "\<exists>j. rs_pc s j = StopClose" "rs_pc s i \<noteq> StopClose"
    using that runner_step_shape(1) [OF assms(2)] by (metis fun_upd_other)
  have "(rs_quit_closed s' \<longrightarrow> rs_stopped s') \<and> (\<forall>j. rs_pc s' j = StopClose \<longrightarrow> rs_stopped s') \<and>
      (rs_stopped s' = rs_stopped s \<and> rs_quit_closed s' = rs_quit_closed s \<and> rs_pc s i \<noteq> StopClose \<or>
       rs_pc s' i = StopClose \<or> rs_quit_closed s')"
    using assms(2,1) by cases (auto simp: stop_inv_def split: if_splits)
  with assms(1) keep show ?thesis unfolding stop_inv_def by blast
qed

interpretation runner_stop: invariant_system "runner_init g" "runner_step g" stop_inv
  by (unfold_locales, simp add: runner_init_def stop_inv_def, erule (1) runner_step_stop_inv)

lemma failing_has_room:
  assumes "errs_inv g s" and "rs_pc s i = Failing e"
  shows "length (rs_errs s) < g"
proof -
  have "i < g"
  proof (rule ccontr)
    assume "\<not> i < g"
    then have "rs_pc s i = SignalWait \<or> settled (rs_pc s i)" using assms(1) by (simp add: errs_inv_def)
    with assms(2) show False by simp
  qed
  have "\<not> settled (rs_pc s i)" using assms(2) by simp
  then have "{j \<in> {..<g}. settled (rs_pc s j)} \<subseteq> {..<g} - {i}" by blast
  then have "card {j \<in> {..<g}. settled (rs_pc s j)} \<le> card ({..<g} - {i})" by (intro card_mono) auto
  also have "\<dots> < g" using \<open>i < g\<close> by simp
  finally show ?thesis using assms(1) by (simp add: errs_inv_def)
qed

section \<open>Properties\<close>

text \<open>
  C20: no goroutine of the runner is ever blocked. The channel of errors has room for every error that is
  sent, and in every reachable state in which the process has not crashed, each goroutine that has not
  finished can take a step.
\<close>

theorem runner_never_blocks:
  assumes "reachable (runner_init g) (runner_step g) s" and "\<not> rs_panic s" and "rs_pc s i \<noteq> Finished"
  shows "\<exists>s'. runner_step g s i s'"
proof -
  note inv = runner_errs.reachable_I [OF assms(1)]
  show ?thesis
  proof (cases "rs_pc s i")
    case (Failing e)
    with failing_has_room [OF inv] assms(2) show ?thesis by (blast intro: runner_step.send)
  next
    case StopCheck
    with assms(2) show ?thesis by (cases "rs_stopped s") (blast intro: runner_step.intros)+
  next
    case StopClose
    with assms(2) show ?thesis by (cases "rs_quit_closed s") (blast intro: runner_step.intros)+
  qed (use assms(2,3) in \<open>blast intro: runner_step.intros\<close>)+
qed

theorem runner_never_blocks_witness:
  "\<exists>s'. runner_step 1 \<lparr>rs_stopped = False, rs_quit_closed = False, rs_errs = [],
     rs_pc = (\<lambda>i. if i < 1 then Initializing else if i = 1 then SignalWait else Finished), rs_panic = False\<rparr> 0 s'"
  by (rule runner_never_blocks) (simp_all add: reachable_init runner_init_def fun_eq_iff)

text \<open>
  \<open>Stop\<close> reaches everybody. In every reachable state, once \<open>stopped\<close> is set the quit channel is closed or
  a call of \<open>Stop\<close> is about to close it, and it is closed only if \<open>stopped\<close> is set; with the channel closed, a
  goroutine waiting for its heartbeat can finish.
\<close>

theorem stop_closes_quit:
  assumes "reachable (runner_init g) (runner_step g) s"
  shows "(rs_quit_closed s \<longrightarrow> rs_stopped s) \<and>
    (rs_stopped s \<longrightarrow> rs_quit_closed s \<or> (\<exists>i. rs_pc s i = StopClose)) \<and>
    (rs_quit_closed s \<and> \<not> rs_panic s \<and> rs_pc s j = Selecting \<longrightarrow> runner_step g s j (goto j Finished s))"
  using runner_stop.reachable_I [OF assms] by (auto simp: stop_inv_def intro: runner_step.quit)

theorem stop_closes_quit_witness:
  "\<exists>s. reachable (runner_init 1) (runner_step 1) s \<and> rs_pc s 0 = Selecting \<and> \<not> rs_stopped s \<and> \<not> rs_quit_closed s"
proof -
  let ?s0 = "\<lparr>rs_stopped = False, rs_quit_closed = False, rs_errs = [],
     rs_pc = (\<lambda>i. if i < 1 then Initializing else if i = 1 then SignalWait else Finished), rs_panic = False\<rparr>"
  let ?s1 = "goto 0 PublishingRoutes ?s0" and ?s2 = "goto 0 Selecting (goto 0 PublishingRoutes ?s0)"
  have "reachable (runner_init 1) (runner_step 1) ?s0" by (rule reachable_init) (simp add: runner_init_def fun_eq_iff)
  moreover have "runner_step 1 ?s0 0 ?s1" by (rule runner_step.init_ok) simp_all
  moreover have "runner_step 1 ?s1 0 ?s2" by (rule runner_step.publish_ok) simp_all
  ultimately have r: "reachable (runner_init 1) (runner_step 1) ?s2" by (blast intro: reachable_step)
  from stop_closes_quit [OF this, of 0] have "\<not> rs_quit_closed ?s2" by simp
  with r show ?thesis by (intro exI [of _ ?s2]) simp
qed

text \<open>A state of two goroutines, given by where each of them is.\<close>

definition two :: "bool \<Rightarrow> bool \<Rightarrow> go_error list \<Rightarrow> gpc \<Rightarrow> gpc \<Rightarrow> bool \<Rightarrow> runner_system" where
  "two st q errs a b p =
     \<lparr>rs_stopped = st, rs_quit_closed = q, rs_errs = errs,
      rs_pc = (\<lambda>i. if i = 0 then a else if i = 1 then b else if i = 2 then SignalWait else Finished), rs_panic = p\<rparr>"

lemma two_simps [simp]:
  "rs_stopped (two st q errs a b p) = st" "rs_quit_closed (two st q errs a b p) = q"
  "rs_errs (two st q errs a b p) = errs" "rs_panic (two st q errs a b p) = p"
  "rs_pc (two st q errs a b p) 0 = a" "rs_pc (two st q errs a b p) (Suc 0) = b"
  by (simp_all add: two_def)

lemma two_goto:
  "goto 0 x (two st q errs a b p) = two st q errs x b p" "goto (Suc 0) x (two st q errs a b p) = two st q errs a x p"
  "(two st q errs a b p)\<lparr>rs_errs := errs'\<rparr> = two st q errs' a b p"
  "(two st q errs a b p)\<lparr>rs_stopped := st'\<rparr> = two st' q errs a b p"
  "(two st q errs a b p)\<lparr>rs_quit_closed := q'\<rparr> = two st q' errs a b p"
  "(two st q errs a b p)\<lparr>rs_panic := p'\<rparr> = two st q errs a b p'"
  by (simp_all add: two_def fun_eq_iff)

text \<open>
  C37: two calls of \<open>Stop\<close> can crash the process. With two goroutines whose connections fail at the same
  time, both can find \<open>stopped\<close> unset, and the second one closes the quit channel again, which panics.
\<close>

theorem concurrent_stops_panic:
  "\<exists>s. reachable (runner_init 2) (runner_step 2) s \<and> rs_panic s"
proof -
  let ?e = "''publishing: '' @ ''connection closed''"
  let ?P = PublishingRoutes and ?F = "Failing ?e"
  have init: "reachable (runner_init 2) (runner_step 2) (two False False [] Initializing Initializing False)"
    by (rule reachable_init) (auto simp: runner_init_def two_def fun_eq_iff)
  have "run (runner_step 2) (two False False [] Initializing Initializing False) [0, 1, 0, 1, 0, 1, 0, 1, 0, 1, 0, 1]
      (two True True [?e, ?e] Finished Finished True)"
  proof (intro run_Cons)
    show "runner_step 2 (two False False [] Initializing Initializing False) 0 (two False False [] ?P Initializing False)"
      using runner_step.init_ok [of "two False False [] Initializing Initializing False" 0] by (simp add: two_goto)
    show "runner_step 2 (two False False [] ?P Initializing False) 1 (two False False [] ?P ?P False)"
      using runner_step.init_ok [of "two False False [] ?P Initializing False" 1] by (simp add: two_goto)
    show "runner_step 2 (two False False [] ?P ?P False) 0 (two False False [] ?F ?P False)"
      using runner_step.publish_err [of "two False False [] ?P ?P False" 0] by (simp add: two_goto)
    show "runner_step 2 (two False False [] ?F ?P False) 1 (two False False [] ?F ?F False)"
      using runner_step.publish_err [of "two False False [] ?F ?P False" 1] by (simp add: two_goto)
    show "runner_step 2 (two False False [] ?F ?F False) 0 (two False False [?e] StopCheck ?F False)"
      using runner_step.send [of "two False False [] ?F ?F False" 0] by (simp add: two_goto)
    show "runner_step 2 (two False False [?e] StopCheck ?F False) 1 (two False False [?e, ?e] StopCheck StopCheck False)"
      using runner_step.send [of "two False False [?e] StopCheck ?F False" 1] by (simp add: two_goto)
    show "runner_step 2 (two False False [?e, ?e] StopCheck StopCheck False) 0 (two False False [?e, ?e] StopSet StopCheck False)"
      using runner_step.stop_first [of "two False False [?e, ?e] StopCheck StopCheck False" 0] by (simp add: two_goto)
    show "runner_step 2 (two False False [?e, ?e] StopSet StopCheck False) 1 (two False False [?e, ?e] StopSet StopSet False)"
      using runner_step.stop_first [of "two False False [?e, ?e] StopSet StopCheck False" 1] by (simp add: two_goto)
    show "runner_step 2 (two False False [?e, ?e] StopSet StopSet False) 0 (two True False [?e, ?e] StopClose StopSet False)"
      using runner_step.stop_set [of "two False False [?e, ?e] StopSet StopSet False" 0] by (simp add: two_goto)
    show "runner_step 2 (two True False [?e, ?e] StopClose StopSet False) 1 (two True False [?e, ?e] StopClose StopClose False)"
      using runner_step.stop_set [of "two True False [?e, ?e] StopClose StopSet False" 1] by (simp add: two_goto)
    show "runner_step 2 (two True False [?e, ?e] StopClose StopClose False) 0 (two True True [?e, ?e] Finished StopClose False)"
      using runner_step.close_open [of "two True False [?e, ?e] StopClose StopClose False" 0] by (simp add: two_goto)
    show "runner_step 2 (two True True [?e, ?e] Finished StopClose False) 1 (two True True [?e, ?e] Finished Finished True)"
      using runner_step.close_closed [of "two True True [?e, ?e] Finished StopClose False" 1] by (simp add: two_goto)
  qed (rule run_Nil)
  then have "reachable (runner_init 2) (runner_step 2) (two True True [?e, ?e] Finished Finished True)"
    using init unfolding reachable_def by (blast intro: run_append)
  then show ?thesis by (intro exI [of _ "two True True [?e, ?e] Finished Finished True"]) simp
qed

section \<open>Finishing\<close>

text \<open>The quit channel is closed and the process is up.\<close>

definition stopping :: "runner_system \<Rightarrow> bool" where
  "stopping s \<longleftrightarrow> rs_quit_closed s \<and> rs_stopped s \<and> \<not> rs_panic s"

lemma stopping_goto [simp]: "stopping (s\<lparr>rs_pc := f\<rparr>) = stopping s" "stopping (s\<lparr>rs_errs := es\<rparr>) = stopping s"
  by (simp_all add: stopping_def)

lemma finish_selecting:
  assumes "stopping s" and "rs_pc s j = Selecting"
  shows "run (runner_step g) s [j] (goto j Finished s)"
  using assms by (intro run_single runner_step.quit) (simp_all add: stopping_def)

lemma finish_publishing:
  assumes "stopping s" and "rs_pc s j = PublishingRoutes"
  shows "run (runner_step g) s [j, j] (goto j Finished s)"
proof -
  have "runner_step g s j (goto j Selecting s)" using assms by (intro runner_step.publish_ok) (simp_all add: stopping_def)
  moreover have "run (runner_step g) (goto j Selecting s) [j] (goto j Finished (goto j Selecting s))"
    using assms(1) by (intro finish_selecting) simp_all
  ultimately show ?thesis using run_Cons by fastforce
qed

lemma finish_checking:
  assumes "stopping s" and "rs_pc s j = StopCheck"
  shows "run (runner_step g) s [j] (goto j Finished s)"
  using assms by (intro run_single runner_step.stop_again) (simp_all add: stopping_def)

text \<open>A goroutine that is not inside \<open>Stop\<close> past its check finishes by its own steps.\<close>

lemma goroutine_finishes:
  assumes "stopping s" and "errs_inv g s" and "j < g" and "rs_pc s j \<notin> {StopSet, StopClose}"
  shows "\<exists>ls es. run (runner_step g) s ls ((goto j Finished s)\<lparr>rs_errs := rs_errs s @ es\<rparr>) \<and> set ls \<subseteq> {j}"
proof -
  have silent: ?thesis if "run (runner_step g) s ls (goto j Finished s)" "set ls \<subseteq> {j}" for ls
    using that by (intro exI [of _ ls] exI [of _ "[]"]) simp
  show ?thesis
  proof (cases "rs_pc s j")
    case Initializing
    then have "runner_step g s j (goto j PublishingRoutes s)" using assms(1) by (intro runner_step.init_ok) (simp_all add: stopping_def)
    moreover have "run (runner_step g) (goto j PublishingRoutes s) [j, j] (goto j Finished (goto j PublishingRoutes s))"
      using assms(1) by (intro finish_publishing) simp_all
    ultimately have "run (runner_step g) s [j, j, j] (goto j Finished s)" using run_Cons by fastforce
    then show ?thesis by (rule silent) simp
  next
    case (Failing e)
    let ?s = "(goto j StopCheck s)\<lparr>rs_errs := rs_errs s @ [e]\<rparr>"
    have step: "runner_step g s j ?s"
      using Failing assms(1) failing_has_room [OF assms(2) Failing] by (intro runner_step.send) (simp_all add: stopping_def)
    have "goto j Finished ?s = (goto j Finished s)\<lparr>rs_errs := rs_errs s @ [e]\<rparr>" by (cases s) simp
    moreover have "run (runner_step g) ?s [j] (goto j Finished ?s)" using assms(1) by (intro finish_checking) simp_all
    ultimately have "run (runner_step g) s [j, j] ((goto j Finished s)\<lparr>rs_errs := rs_errs s @ [e]\<rparr>)"
      using run_Cons [of "runner_step g", OF step] by metis
    then show ?thesis by (intro exI [of _ "[j, j]"] exI [of _ "[e]"]) simp
  next
    case Finished
    then have "goto j Finished s = s" by (simp add: fun_upd_idem)
    with run_Nil [of "runner_step g" s] show ?thesis by (intro silent [of "[]"]) simp_all
  next
    case SignalWait
    with assms(2,3) show ?thesis by (simp add: errs_inv_def)
  next
    case PublishingRoutes
    from finish_publishing [OF assms(1) this] show ?thesis by (rule silent) simp
  next
    case Selecting
    from finish_selecting [OF assms(1) this] show ?thesis by (rule silent) simp
  next
    case StopCheck
    from finish_checking [OF assms(1) this] show ?thesis by (rule silent) simp
  qed (use assms(4) in simp_all)
qed

lemma goroutines_finish:
  assumes "stopping s" and "errs_inv g s" and "\<forall>i<g. rs_pc s i \<notin> {StopSet, StopClose}" and "n \<le> g"
  shows "\<exists>ls es s'. run (runner_step g) s ls s' \<and> set ls \<subseteq> {..<n} \<and> stopping s' \<and>
    rs_errs s' = rs_errs s @ es \<and> rs_pc s' = (\<lambda>i. if i < n then Finished else rs_pc s i)"
  using assms(4)
proof (induction n)
  case 0
  show ?case using assms(1) run_Nil [of "runner_step g" s] by (intro exI [of _ "[]"] exI [of _ s]) (simp add: fun_eq_iff)
next
  case (Suc n)
  then obtain ls es s1 where s1: "run (runner_step g) s ls s1" "set ls \<subseteq> {..<n}" "stopping s1" "rs_errs s1 = rs_errs s @ es"
    "rs_pc s1 = (\<lambda>i. if i < n then Finished else rs_pc s i)" by auto
  have "errs_inv g s1" using runner_errs.run_I [OF s1(1) assms(2)] .
  moreover have "rs_pc s1 n \<notin> {StopSet, StopClose}" using s1(5) assms(3) Suc.prems by simp
  ultimately obtain ls' es' where s2: "run (runner_step g) s1 ls' ((goto n Finished s1)\<lparr>rs_errs := rs_errs s1 @ es'\<rparr>)" "set ls' \<subseteq> {n}"
    using goroutine_finishes [OF s1(3)] Suc.prems by (metis Suc_le_eq)
  have "(rs_pc s1)(n := Finished) = (\<lambda>i. if i < Suc n then Finished else rs_pc s i)"
    using s1(5) by (auto simp: fun_eq_iff)
  with run_append [OF s1(1) s2(1)] s1(2-4) s2(2) show ?case
    by (intro exI [of _ "ls @ ls'"] exI [of _ "es @ es'"] exI) auto
qed

text \<open>
  C21: a stopped runner ends. From every reachable state in which the quit channel is closed and no
  goroutine is between the check and the close of \<open>Stop\<close> (where two of them may collide), the goroutines
  can all finish by their own steps, without a crash, and \<open>Wait\<close> then returns: the first error ever sent,
  or no error if none was.
\<close>

theorem stopped_runner_finishes:
  assumes "reachable (runner_init g) (runner_step g) s" and "rs_quit_closed s" and "\<not> rs_panic s"
    and "\<forall>i<g. rs_pc s i \<notin> {StopSet, StopClose}"
  shows "\<exists>ls es s'. run (runner_step g) s ls s' \<and> set ls \<subseteq> {..<g} \<and> \<not> rs_panic s' \<and> rs_errs s' = rs_errs s @ es \<and>
    Wait g s' = Some (case rs_errs s @ es of [] \<Rightarrow> None | err # _ \<Rightarrow> Some err)"
proof -
  have "stopping s"
    using runner_stop.reachable_I [OF assms(1)] assms(2,3) by (simp add: stopping_def stop_inv_def)
  from goroutines_finish [OF this runner_errs.reachable_I [OF assms(1)] assms(4) order.refl]
  obtain ls es s' where s': "run (runner_step g) s ls s'" "set ls \<subseteq> {..<g}" "stopping s'" "rs_errs s' = rs_errs s @ es"
    "rs_pc s' = (\<lambda>i. if i < g then Finished else rs_pc s i)" by blast
  then have "all_finished g s'" by (auto simp: all_finished_def list_all_iff)
  with s' show ?thesis by (intro exI [of _ ls] exI [of _ es] exI [of _ s']) (simp add: Wait_def stopping_def)
qed

theorem stopped_runner_finishes_witness:
  "\<exists>s ls es s'. reachable (runner_init 2) (runner_step 2) s \<and> rs_pc s 0 = Initializing \<and>
     run (runner_step 2) s ls s' \<and> Wait 2 s' = Some (case es of [] \<Rightarrow> None | err # _ \<Rightarrow> Some err)"
proof -
  let ?s = "\<lambda>pc stop quit. \<lparr>rs_stopped = stop, rs_quit_closed = quit, rs_errs = [],
     rs_pc = (\<lambda>i. if i < 2 then Initializing else if i = 2 then pc else Finished), rs_panic = False\<rparr>"
  have pc: "(\<lambda>i::nat. if i < 2 then Initializing else if i = 2 then pc else Finished)(2 := pc') =
      (\<lambda>i. if i < 2 then Initializing else if i = 2 then pc' else Finished)" for pc pc' :: gpc by (auto simp: fun_eq_iff)
  have "reachable (runner_init 2) (runner_step 2) (?s SignalWait False False)"
    by (rule reachable_init) (simp add: runner_init_def)
  moreover have "runner_step 2 (?s SignalWait False False) 2 (?s StopCheck False False)"
    using runner_step.signal [of "?s SignalWait False False" 2] by (simp add: pc)
  moreover have "runner_step 2 (?s StopCheck False False) 2 (?s StopSet False False)"
    using runner_step.stop_first [of "?s StopCheck False False" 2] by (simp add: pc)
  moreover have "runner_step 2 (?s StopSet False False) 2 (?s StopClose True False)"
    using runner_step.stop_set [of "?s StopSet False False" 2] by (simp add: pc)
  moreover have "runner_step 2 (?s StopClose True False) 2 (?s Finished True True)"
    using runner_step.close_open [of "?s StopClose True False" 2] by (simp add: pc)
  ultimately have r: "reachable (runner_init 2) (runner_step 2) (?s Finished True True)"
    by (meson reachable_step)
  from stopped_runner_finishes [OF this] obtain ls es s' where
    "run (runner_step 2) (?s Finished True True) ls s'" "Wait 2 s' = Some (case es of [] \<Rightarrow> None | err # _ \<Rightarrow> Some err)"
    by auto
  with r show ?thesis by (intro exI [of _ "?s Finished True True"] exI [of _ ls] exI [of _ es] exI [of _ s']) simp
qed

end
