(* ===== verification/Route_Population.thy ===== *)
theory Route_Population
  imports Runner Subscriber
begin

text \<open>
  The route populator and the controller, joined by NATS: what the goroutines publish under
  \<open>service-discovery.register\<close> is what the subscriber's handler decodes and adds to the table. The two
  programs declare the message separately (\<open>RouteData\<close> and \<open>RegistryMessage\<close>); here they meet.
\<close>

section \<open>Messages on their way\<close>

text \<open>The bodies that a sequence of calls publishes under a subject.\<close>

fun published :: "string \<Rightarrow> pub_call list \<Rightarrow> string list" where
  "published subject [] = []"
| "published subject (Publish s d # cs) = (if s = subject then d # published subject cs else published subject cs)"
| "published subject (_ # cs) = published subject cs"

text \<open>The delivery of a sequence of bodies under the register subject.\<close>

fun deliver_bodies :: "nats_env \<Rightarrow> 't mbus_AddressTable \<Rightarrow> string list \<Rightarrow> 't Subscriber \<Rightarrow> 't Subscriber outcome" where
  "deliver_bodies nenv T [] s = Return s"
| "deliver_bodies nenv T (d # ds) s =
     (case deliver nenv T \<lparr>msg_Subject = ''service-discovery.register'', msg_Reply = [], msg_Data = d\<rparr> s of
        Panic p \<Rightarrow> Panic p | Return s' \<Rightarrow> deliver_bodies nenv T ds s')"

lemma published_append [simp]: "published subject (cs @ cs') = published subject cs @ published subject cs'"
  by (induction subject cs rule: published.induct) simp_all

lemma published_message_calls: "published ''service-discovery.register'' (message_calls delay ds) = ds"
  by (induction ds) (simp_all add: message_calls_def)

section \<open>The populator's message in the subscriber\<close>

lemma port_ascii [simp]: "valid_utf8 ''port'' = ''port''"
  by (rule valid_utf8_ascii_string) simp

lemma route_fields:
  "field_match registry_fields ''host'' = Some ''host''" "field_match registry_fields ''port'' = None"
  "field_match registry_fields ''uris'' = Some ''uris''"
  by code_simp+

lemma unmarshal_route_message:
  "unmarshal_RegistryMessage (route_message job i) =
     Some \<lparr>rm_IP = valid_utf8 (BackendHost job), rm_InfraNames = [valid_utf8 (route_name job i)], rm_EndpointUpdatedAt = 0\<rparr>"
proof -
  let ?v = "RouteData_json \<lparr>rd_Host = BackendHost job, rd_Port = BackendPort job, URIs = [route_name job i]\<rparr>"
  have "json_wf ?v" by (simp add: RouteData_json_def)
  then have "json_parse (json_print ?v) = Some (json_valid ?v)" by (rule json_parse_print)
  then show ?thesis
    by (simp add: unmarshal_RegistryMessage_def route_message_def RouteData_json_def decode_struct_def route_fields
        assign_registry_def decode_slice_def del: json_print.simps)
qed

text \<open>A subscriber that has started: the handlers it has, and a well-formed table.\<close>

definition started :: "AddressTable Subscriber \<Rightarrow> bool" where
  "started s \<longleftrightarrow> wf_table (sub_table s) \<and>
     map snd (filter (\<lambda>(subject, h). subject = ''service-discovery.register'') (subscriptions s)) = [RegisterHandler]"

lemma RunOnce_started:
  assumes "RunOnce nenv (NewSubscriber opts warming t ip rec) = Return (None, s)" and "wf_table t"
  shows "started s" and "sub_table s = t"
  using RunOnce_script [of "NewSubscriber opts warming t ip rec" nenv] assms
  by (auto simp: started_def NewSubscriber_def split: option.splits)

lemma deliver_route:
  assumes "started s" and "valid_utf8 (BackendHost job) = BackendHost job" and "BackendHost job \<noteq> []"
    and "valid_utf8 (route_name job i) = route_name job i"
  obtains s' where "deliver nenv table_interface
      \<lparr>msg_Subject = ''service-discovery.register'', msg_Reply = [], msg_Data = route_message job i\<rparr> s = Return s'"
    and "started s'" and "BackendHost job \<in> set (Lookup (sub_table s') (route_name job i))"
    and "\<forall>h. set (Lookup (sub_table s) h) \<subseteq> set (Lookup (sub_table s') h)"
    and "sub_metrics s' = sub_metrics s @ [''registerMessagesReceived'']"
proof -
  let ?msg = "\<lparr>msg_Subject = ''service-discovery.register'', msg_Reply = [], msg_Data = route_message job i\<rparr>"
  let ?m = "\<lparr>rm_IP = BackendHost job, rm_InfraNames = [route_name job i], rm_EndpointUpdatedAt = 0\<rparr>"
  let ?s = "handle_register table_interface ?msg s"
  have m: "unmarshal_RegistryMessage (msg_Data ?msg) = Some ?m" by (simp add: unmarshal_route_message assms(2,4))
  have wf: "wf_table (sub_table s)" using assms(1) by (simp add: started_def)
  have lookup: "Lookup (sub_table ?s) h = (let ips = Lookup (sub_table s) h
      in if fqdn h \<in> fqdn ` {route_name job i} \<and> BackendHost job \<notin> set ips then ips @ [BackendHost job] else ips)" for h
    using sdc_table.register_lookup [OF wf m, of h] assms(3) by (simp add: Let_def)
  show ?thesis
  proof (rule that [of ?s])
    show "deliver nenv table_interface ?msg s = Return ?s"
      using assms(1) by (simp add: deliver_def started_def run_handler_def)
    show "started ?s"
      using assms(1) sdc_table.handlers_inv(1) [OF wf, of ?msg] m by (simp add: started_def handle_register_def Let_def)
    show "BackendHost job \<in> set (Lookup (sub_table ?s) (route_name job i))" by (simp add: lookup Let_def)
    show "\<forall>h. set (Lookup (sub_table s) h) \<subseteq> set (Lookup (sub_table ?s) h)" by (auto simp: lookup Let_def)
    show "sub_metrics ?s = sub_metrics s @ [''registerMessagesReceived'']"
      using m assms(3) by (simp add: handle_register_def Let_def)
  qed
qed

text \<open>The bodies of any routes of a job, in any order and with repetitions.\<close>

lemma deliver_routes:
  assumes "started s" and "valid_utf8 (BackendHost job) = BackendHost job" and "BackendHost job \<noteq> []"
    and "\<And>i. valid_utf8 (route_name job i) = route_name job i"
  shows "\<exists>s'. deliver_bodies nenv table_interface (map (route_message job) is) s = Return s' \<and> started s' \<and>
    (\<forall>i\<in>set is. BackendHost job \<in> set (Lookup (sub_table s') (route_name job i))) \<and>
    (\<forall>h. set (Lookup (sub_table s) h) \<subseteq> set (Lookup (sub_table s') h)) \<and>
    sub_metrics s' = sub_metrics s @ replicate (length is) ''registerMessagesReceived''"
  using assms(1)
proof (induction "is" arbitrary: s)
  case (Cons i js)
  obtain s1 where s1: "deliver nenv table_interface
      \<lparr>msg_Subject = ''service-discovery.register'', msg_Reply = [], msg_Data = route_message job i\<rparr> s = Return s1"
    "started s1" "BackendHost job \<in> set (Lookup (sub_table s1) (route_name job i))"
    "\<forall>h. set (Lookup (sub_table s) h) \<subseteq> set (Lookup (sub_table s1) h)"
    "sub_metrics s1 = sub_metrics s @ [''registerMessagesReceived'']"
    by (rule deliver_route [OF Cons.prems assms(2-4), where i = i and nenv = nenv])
  from Cons.IH [OF s1(2)] obtain s2 where
    "deliver_bodies nenv table_interface (map (route_message job) js) s1 = Return s2" "started s2"
    "\<forall>i\<in>set js. BackendHost job \<in> set (Lookup (sub_table s2) (route_name job i))"
    "\<forall>h. set (Lookup (sub_table s1) h) \<subseteq> set (Lookup (sub_table s2) h)"
    "sub_metrics s2 = sub_metrics s1 @ replicate (length js) ''registerMessagesReceived''" by blast
  with s1 show ?case by (intro exI [of _ s2]) (auto simp: subset_iff)
qed simp

section \<open>A round of the goroutines\<close>

text \<open>
  What a goroutine publishes under the register subject before it first waits: its publisher is
  initialised and publishes once.
\<close>

definition round_bodies :: "(string \<Rightarrow> go_error option) \<Rightarrow> pub_env \<Rightarrow> duration \<Rightarrow> Job \<Rightarrow> string list" where
  "round_bodies connect env delay job =
     (case Initialize connect (NewPublisher job delay) of
        (Some err, p) \<Rightarrow> []
      | (None, p) \<Rightarrow> (case PublishRouteRegistrations env p of
           Panic e \<Rightarrow> []
         | Return (err, p') \<Rightarrow> published ''service-discovery.register'' (pub_calls p')))"

lemma job_part_fields:
  assumes "job_part job j"
  shows "PublishingEndpoint j = PublishingEndpoint job" "BackendHost j = BackendHost job" "BackendPort j = BackendPort job"
    "AppDomain j = AppDomain job" "AppName j = AppName job" "route_message j = route_message job"
proof -
  from assms obtain x y where j: "j = job\<lparr>StartRange := x, EndRange := y\<rparr>" unfolding job_part_def by blast
  then show "PublishingEndpoint j = PublishingEndpoint job" "BackendHost j = BackendHost job" "BackendPort j = BackendPort job"
    "AppDomain j = AppDomain job" "AppName j = AppName job" by simp_all
  from j show "route_message j = route_message job" by (simp add: fun_eq_iff route_message_def route_name_def)
qed

lemma round_bodies_part:
  assumes "validate job = None" and "connect (PublishingEndpoint job) = None" and "reliable env"
    and "is_int64 (EndRange job - StartRange job)" and "job_part job j"
  shows "round_bodies connect env delay j = map (route_message job) (job_routes j)"
proof -
  note part = job_part_fields [OF assms(5)]
  have range: "StartRange j < EndRange j" "is_int64 (EndRange j - StartRange j)"
    using assms(4,5) by (auto simp: job_part_def is_int64_def minInt64_def)
  have "validate j = None" using assms(1) range by (simp add: validate_def part split: if_splits)
  with Initialize_valid [of j connect delay] assms(2) obtain p
    where p: "Initialize connect (NewPublisher j delay) = (None, p)" by (simp add: part)
  from publish_round [of p env] Initialize_prepared [OF p range(2)] p show ?thesis
    by (simp add: round_bodies_def run_script_reliable [OF assms(3)] prepared_def published_message_calls
        job_routes_def part)
qed

lemma rounds_of_parts:
  assumes "validate job = None" and "connect (PublishingEndpoint job) = None" and "reliable env"
    and "is_int64 (EndRange job - StartRange job)" and "list_all (job_part job) jobs"
  shows "concat (map (round_bodies connect env delay) jobs) = map (route_message job) (concat (map job_routes jobs))"
  using assms(5) by (induction jobs) (simp_all add: round_bodies_part [where connect = connect, OF assms(1-4)])

text \<open>An ASCII job's names and host survive the JSON unchanged.\<close>

definition ascii_job :: "Job \<Rightarrow> bool" where
  "ascii_job job \<longleftrightarrow> list_all ascii (BackendHost job) \<and> list_all ascii (AppName job) \<and> list_all ascii (AppDomain job)"

lemma ascii_show_int: "list_all ascii (show_int n)"
proof -
  have "num_char c \<Longrightarrow> ascii c" for c by (auto simp: num_char_def is_digit_def in_range_def)
  with num_char_show_int [of n] show ?thesis by (auto simp: list_all_iff)
qed

lemma ascii_job_valid:
  assumes "ascii_job job"
  shows "valid_utf8 (BackendHost job) = BackendHost job" and "valid_utf8 (route_name job i) = route_name job i"
  using assms ascii_show_int [of i]
  by (auto simp: ascii_job_def route_name_def intro!: valid_utf8_ascii_string)

lemma route_message_name:
  assumes "ascii_job job" and "route_message job i = route_message job k"
  shows "route_name job i = route_name job k"
  using unmarshal_route_message [of job i] unmarshal_route_message [of job k] assms(2)
  by (simp add: ascii_job_valid [OF assms(1)])

lemma deliver_permuted:
  assumes "started s" and "ascii_job job" and "BackendHost job \<noteq> []" and "mset ds = mset (map (route_message job) is)"
  shows "\<exists>s'. deliver_bodies nenv table_interface ds s = Return s' \<and>
    (\<forall>i\<in>set is. BackendHost job \<in> set (Lookup (sub_table s') (route_name job i))) \<and>
    sub_metrics s' = sub_metrics s @ replicate (length is) ''registerMessagesReceived''"
proof -
  have ds: "set ds = route_message job ` set is" "length ds = length is"
    using mset_eq_setD [OF assms(4)] mset_eq_length [OF assms(4)] by simp_all
  then obtain ks where ks: "ds = map (route_message job) ks" using ex_map_conv [of ds "route_message job"] by auto
  from deliver_routes [OF assms(1) ascii_job_valid(1) [OF assms(2)] assms(3) ascii_job_valid(2) [OF assms(2)]]
  obtain s' where s': "deliver_bodies nenv table_interface (map (route_message job) ks) s = Return s'"
    "\<forall>k\<in>set ks. BackendHost job \<in> set (Lookup (sub_table s') (route_name job k))"
    "sub_metrics s' = sub_metrics s @ replicate (length ks) ''registerMessagesReceived''" by blast
  have "BackendHost job \<in> set (Lookup (sub_table s') (route_name job i))" if "i \<in> set is" for i
  proof -
    from that ds(1) ks obtain k where "k \<in> set ks" "route_message job i = route_message job k" by auto
    with s'(2) route_message_name [OF assms(2)] show ?thesis by metis
  qed
  with s' ks ds(2) show ?thesis by auto
qed

end
