(* ===== verification/Populator_System.thy ===== *)
theory Populator_System
  imports Runner_Concurrency Route_Population
begin

text \<open>
  The route populator as a whole: every goroutine of \<open>Runner.Start\<close> has its own publisher, runs the
  publisher's operations, and stops the runner with the publisher's error. The step relation of
  \<open>Runner_Concurrency\<close> leaves the result of those operations open; here they are the operations of
  \<open>Publisher\<close> on the job that the goroutine was given, and every run is a run there. Around them is the
  process: the goroutine of \<open>main\<close>, which starts the runner while a signal may already have stopped it,
  waits for the goroutines and exits; what it prints and its exit status.
\<close>

section \<open>The system\<close>

text \<open>\<open>createNATSConnection\<close>; the argument is \<open>nats.Connect\<close>, an error or a connection.\<close>

definition createNATSConnection :: "(string \<Rightarrow> go_error option) \<Rightarrow> string \<Rightarrow> go_error option" where
  "createNATSConnection nats_Connect endpoint =
     (case nats_Connect endpoint of Some err \<Rightarrow> Some err | None \<Rightarrow> None)"

text \<open>The jobs read from the cut points, what the goroutines share, and the publisher of each of them.\<close>

record populator_system =
  ps_jobs :: "Job outcome list"
  ps_runner :: runner_system
  ps_pub :: "nat \<Rightarrow> Publisher option"

abbreviation ps_pc :: "populator_system \<Rightarrow> nat \<Rightarrow> gpc" where
  "ps_pc s \<equiv> rs_pc (ps_runner s)"

abbreviation goroutines :: "Runner \<Rightarrow> nat" where
  "goroutines r \<equiv> nat (numGoRoutines r)"

text \<open>A goroutine that panics takes the process with it.\<close>

definition crash :: "populator_system \<Rightarrow> populator_system" where
  "crash s = s\<lparr>ps_runner := (ps_runner s)\<lparr>rs_panic := True\<rparr>\<rparr>"

text \<open>What an operation of the publisher leads to: the next place, or the error with its context.\<close>

definition next_pc :: "gpc \<Rightarrow> string \<Rightarrow> go_error option \<Rightarrow> gpc" where
  "next_pc pc wrap err = (case err of None \<Rightarrow> pc | Some e \<Rightarrow> Failing (wrap @ e))"

text \<open>
  The steps: a goroutine reads its job and initialises a publisher, publishes a round, or takes a step
  that the publisher has no part in. Whether a connection can be made, and which of its calls fail,
  may differ from step to step.
\<close>

inductive populator_step :: "Runner \<Rightarrow> populator_system \<Rightarrow> nat \<Rightarrow> populator_system \<Rightarrow> bool" for r where
  job_panic: "\<not> rs_panic (ps_runner s) \<Longrightarrow> ps_pc s i = Initializing \<Longrightarrow> ps_jobs s ! i = Panic e \<Longrightarrow>
    populator_step r s i (crash s)"
| initialize: "\<not> rs_panic (ps_runner s) \<Longrightarrow> ps_pc s i = Initializing \<Longrightarrow> ps_jobs s ! i = Return job \<Longrightarrow>
    Initialize (createNATSConnection connect) (NewPublisher job (run_publishDelay r)) = (err, p) \<Longrightarrow>
    populator_step r s i (s\<lparr>ps_runner := goto i (next_pc PublishingRoutes ''initializing connection: '' err) (ps_runner s),
      ps_pub := (ps_pub s)(i \<mapsto> p)\<rparr>)"
| publish_panic: "\<not> rs_panic (ps_runner s) \<Longrightarrow> ps_pc s i = PublishingRoutes \<Longrightarrow> ps_pub s i = Some p \<Longrightarrow>
    PublishRouteRegistrations env p = Panic e \<Longrightarrow> populator_step r s i (crash s)"
| publish: "\<not> rs_panic (ps_runner s) \<Longrightarrow> ps_pc s i = PublishingRoutes \<Longrightarrow> ps_pub s i = Some p \<Longrightarrow>
    PublishRouteRegistrations env p = Return (err, p') \<Longrightarrow>
    populator_step r s i (s\<lparr>ps_runner := goto i (next_pc Selecting ''publishing: '' err) (ps_runner s),
      ps_pub := (ps_pub s)(i \<mapsto> p')\<rparr>)"
| shared: "ps_pc s i \<noteq> Initializing \<Longrightarrow> ps_pc s i \<noteq> PublishingRoutes \<Longrightarrow>
    runner_step (goroutines r) (ps_runner s) i rs \<Longrightarrow> populator_step r s i (s\<lparr>ps_runner := rs\<rparr>)"

text \<open>
  The goroutines of a runner whose numbers are in range, before their first steps. That \<open>Start\<close> may be
  refused, because a signal came before it, is the subject of the section on the process.
\<close>

definition populator_init :: "Runner \<Rightarrow> populator_system \<Rightarrow> bool" where
  "populator_init r s \<longleftrightarrow> sound_runner r \<and> Start r = Some (Return (Inr (ps_jobs s))) \<and>
     runner_init (goroutines r) (ps_runner s) \<and> (\<forall>i. ps_pub s i = None)"

section \<open>What a publisher has called\<close>

text \<open>Some whole rounds of a script and the first calls of another.\<close>

definition rounds :: "pub_call list \<Rightarrow> nat \<Rightarrow> nat \<Rightarrow> pub_call list" where
  "rounds script k m = concat (replicate k script) @ take m script"

lemma run_script_Cons:
  "run_script env made (c # cs) = run_script env (made @ [c]) cs \<or> (\<exists>e. run_script env made (c # cs) = (Some e, made @ [c]))"
  by (cases c) (simp_all split: option.splits)

lemma run_script_take:
  "run_script env made cs = (err, calls) \<Longrightarrow> \<exists>m. calls = made @ take m cs \<and> (err = None \<longrightarrow> m = length cs)"
proof (induction cs arbitrary: made)
  case (Cons c cs)
  from run_script_Cons [of env made c cs] show ?case
  proof (elim disjE exE)
    assume "run_script env made (c # cs) = run_script env (made @ [c]) cs"
    with Cons.prems have "run_script env (made @ [c]) cs = (err, calls)" by simp
    from Cons.IH [OF this] obtain m where "calls = (made @ [c]) @ take m cs" "err = None \<longrightarrow> m = length cs" by blast
    then show ?thesis by (intro exI [of _ "Suc m"]) simp
  next
    fix e assume "run_script env made (c # cs) = (Some e, made @ [c])"
    with Cons.prems show ?thesis by (intro exI [of _ 1]) auto
  qed
qed simp

lemma concat_replicate_snoc: "concat (replicate k xs) @ xs = concat (replicate (Suc k) xs)"
  by (induction k) simp_all

lemma rounds_round:
  assumes "run_script env (rounds script k 0) script = (err, calls)"
  shows "\<exists>k' m. calls = rounds script k' m \<and> (err = None \<longrightarrow> 0 < k' \<and> m = 0)"
proof -
  from run_script_take [OF assms] obtain m where m: "calls = rounds script k 0 @ take m script" "err = None \<longrightarrow> m = length script"
    by blast
  show ?thesis
  proof (cases err)
    case None
    with m concat_replicate_snoc [of k script] have "calls = rounds script (Suc k) 0" by (simp add: rounds_def)
    then show ?thesis by blast
  next
    case (Some e)
    have "calls = rounds script k m" using m(1) by (simp add: rounds_def)
    with Some show ?thesis by blast
  qed
qed

section \<open>Invariant\<close>

text \<open>The calls that one round of the goroutine with job \<open>j\<close> makes.\<close>

definition part_script :: "Runner \<Rightarrow> Job \<Rightarrow> pub_call list" where
  "part_script r j = message_calls (run_publishDelay r) (map (route_message (run_job r)) (job_routes j))"

text \<open>
  A publisher with the job \<open>j\<close>, of a goroutine that is at \<open>pc\<close>: it has made whole rounds and the first
  calls of another; before it publishes it is prepared and between rounds, and when it waits for the
  heartbeat it has completed a round.
\<close>

definition publisher_inv :: "Runner \<Rightarrow> Job \<Rightarrow> gpc \<Rightarrow> Publisher \<Rightarrow> bool" where
  "publisher_inv r j pc p \<longleftrightarrow> pub_job p = j \<and> publishDelay p = run_publishDelay r \<and>
     (pc \<in> {PublishingRoutes, Selecting} \<longrightarrow> prepared p) \<and>
     (\<exists>k m. pub_calls p = rounds (part_script r j) k m \<and>
        (pc \<in> {PublishingRoutes, Selecting} \<longrightarrow> m = 0) \<and> (pc = Selecting \<longrightarrow> 0 < k))"

definition goroutine_inv :: "Runner \<Rightarrow> Job outcome list \<Rightarrow> nat \<Rightarrow> gpc \<Rightarrow> Publisher option \<Rightarrow> bool" where
  "goroutine_inv r jobs i pc pub \<longleftrightarrow> (pc = Initializing \<longrightarrow> i < goroutines r) \<and>
     (case pub of
        None \<Rightarrow> pc \<noteq> PublishingRoutes \<and> pc \<noteq> Selecting
      | Some p \<Rightarrow> i < goroutines r \<and> pc \<noteq> Initializing \<and> (\<exists>j. jobs ! i = Return j \<and> publisher_inv r j pc p))"

definition populator_inv :: "Runner \<Rightarrow> populator_system \<Rightarrow> bool" where
  "populator_inv r s \<longleftrightarrow> is_int64 (EndRange (run_job r) - StartRange (run_job r)) \<and>
     Start r = Some (Return (Inr (ps_jobs s))) \<and>
     (\<exists>jobs. ps_jobs s = map Return jobs \<and> length jobs = goroutines r \<and> list_all (job_part (run_job r)) jobs) \<and>
     (\<forall>i. goroutine_inv r (ps_jobs s) i (ps_pc s i) (ps_pub s i))"

lemma Initialize_publisher_inv:
  assumes "Initialize connect (NewPublisher j (run_publishDelay r)) = (err, p)"
    and "job_part (run_job r) j" and "is_int64 (EndRange (run_job r) - StartRange (run_job r))"
  shows "publisher_inv r j (next_pc PublishingRoutes wrap err) p"
proof -
  have j64: "is_int64 (EndRange j - StartRange j)"
    using assms(2,3) by (auto simp: job_part_def is_int64_def minInt64_def)
  have calls: "pub_calls p = [] \<and> pub_job p = j \<and> publishDelay p = run_publishDelay r"
    using assms(1) by (auto simp: Initialize_def NewPublisher_def split: option.splits prod.splits)
  have "prepared p" if "err = None" using Initialize_prepared(1) [OF _ j64] assms(1) that by blast
  with calls show ?thesis
    by (auto simp: publisher_inv_def next_pc_def rounds_def intro!: exI [of _ 0] split: option.splits)
qed

lemma part_script_calls:
  assumes "prepared p" and "job_part (run_job r) (pub_job p)" and "publishDelay p = run_publishDelay r"
  shows "message_calls (publishDelay p) (pub_data p) = part_script r (pub_job p)"
  using assms job_part_fields(6) [OF assms(2)] by (simp add: prepared_def part_script_def job_routes_def)

lemma publish_publisher_inv:
  assumes "publisher_inv r j PublishingRoutes p" and "job_part (run_job r) j"
  shows "\<exists>err p'. PublishRouteRegistrations env p = Return (err, p') \<and> publisher_inv r j (next_pc Selecting wrap err) p'"
proof -
  from assms(1) obtain k where p: "prepared p" "pub_job p = j" "publishDelay p = run_publishDelay r"
    "pub_calls p = rounds (part_script r j) k 0" by (auto simp: publisher_inv_def)
  obtain err calls where run: "run_script env (rounds (part_script r j) k 0) (part_script r j) = (err, calls)"
    by fastforce
  have "PublishRouteRegistrations env p = Return (err, p\<lparr>pub_calls := calls\<rparr>)"
    using publish_round [OF p(1)] part_script_calls [OF p(1) _ p(3)] assms(2) p run by simp
  moreover have "publisher_inv r j (next_pc Selecting wrap err) (p\<lparr>pub_calls := calls\<rparr>)"
    using rounds_round [OF run] p by (auto simp: publisher_inv_def next_pc_def prepared_def split: option.splits)
  ultimately show ?thesis by blast
qed

lemma populator_job:
  assumes "populator_inv r s" and "i < goroutines r"
  obtains j where "ps_jobs s ! i = Return j" and "job_part (run_job r) j"
  using assms by (auto simp: populator_inv_def list_all_length)

lemma populator_init_inv:
  assumes "populator_init r s"
  shows "populator_inv r s"
proof -
  from assms have r: "sound_runner r" "Start r = Some (Return (Inr (ps_jobs s)))" "runner_init (goroutines r) (ps_runner s)"
    "\<forall>i. ps_pub s i = None" by (simp_all add: populator_init_def)
  from Start_routes [OF r(1)] r(2) obtain jobs where "ps_jobs s = map Return jobs" "length jobs = goroutines r"
    "list_all (job_part (run_job r)) jobs" by auto
  moreover have "goroutine_inv r (ps_jobs s) i (ps_pc s i) (ps_pub s i)" for i
    using r(3,4) by (simp add: runner_init_def goroutine_inv_def)
  ultimately show ?thesis using r(1,2) unfolding populator_inv_def sound_runner_def by blast
qed

lemma shared_step_pc:
  assumes "runner_step g rs i rs'" and "rs_pc rs i \<noteq> Initializing" and "rs_pc rs i \<noteq> PublishingRoutes"
  shows "rs_pc rs' = (rs_pc rs)(i := rs_pc rs' i) \<and> rs_pc rs' i \<notin> {Initializing, Selecting} \<and>
    (rs_pc rs' i = PublishingRoutes \<longrightarrow> rs_pc rs i = Selecting)"
  using assms by cases simp_all

text \<open>A step of goroutine \<open>i\<close> keeps the invariant when it keeps that of \<open>i\<close>.\<close>

lemma populator_inv_update:
  assumes "populator_inv r s" and "ps_jobs s' = ps_jobs s" and "ps_pc s' = (ps_pc s)(i := pc)"
    and "ps_pub s' = (ps_pub s)(i := pub)" and "goroutine_inv r (ps_jobs s) i pc pub"
  shows "populator_inv r s'"
  using assms by (auto simp: populator_inv_def)

lemma publisher_inv_shared:
  assumes "publisher_inv r j pc p" and "pc' \<noteq> Selecting" and "pc' = PublishingRoutes \<longrightarrow> pc = Selecting"
  shows "publisher_inv r j pc' p"
  using assms by (auto simp: publisher_inv_def)

text \<open>Under the invariant neither the job nor a round panics.\<close>

lemma populator_step_inv:
  assumes "populator_step r s i s'" and "populator_inv r s"
  shows "populator_inv r s'"
  using assms(1)
proof cases
  case (job_panic e)
  then show ?thesis using assms(2) by (simp add: crash_def populator_inv_def)
next
  case (initialize job connect err p)
  have inv: "goroutine_inv r (ps_jobs s) i (ps_pc s i) (ps_pub s i)" using assms(2) by (simp add: populator_inv_def)
  then have i: "i < goroutines r" using initialize by (simp add: goroutine_inv_def)
  from populator_job [OF assms(2) i] initialize have "job_part (run_job r) job" by auto
  then have "publisher_inv r job (next_pc PublishingRoutes ''initializing connection: '' err) p"
    using Initialize_publisher_inv [OF initialize(5)] assms(2) by (simp add: populator_inv_def)
  then show ?thesis
    using initialize i
    by (intro populator_inv_update [OF assms(2), of s' i "next_pc PublishingRoutes ''initializing connection: '' err" "Some p"])
      (simp_all add: goroutine_inv_def next_pc_def split: option.splits)
next
  case (publish_panic p env e)
  then show ?thesis using assms(2) by (simp add: crash_def populator_inv_def)
next
  case (publish p env err p')
  have "goroutine_inv r (ps_jobs s) i (ps_pc s i) (ps_pub s i)" using assms(2) by (simp add: populator_inv_def)
  then obtain j where j: "i < goroutines r" "ps_jobs s ! i = Return j" "publisher_inv r j PublishingRoutes p"
    using publish by (auto simp: goroutine_inv_def)
  from populator_job [OF assms(2) j(1)] j(2) have "job_part (run_job r) j" by auto
  from publish_publisher_inv [OF j(3) this, of env "''publishing: ''"] publish(5)
  have "publisher_inv r j (next_pc Selecting ''publishing: '' err) p'" by auto
  then show ?thesis
    using publish j
    by (intro populator_inv_update [OF assms(2), of s' i "next_pc Selecting ''publishing: '' err" "Some p'"])
      (simp_all add: goroutine_inv_def next_pc_def split: option.splits)
next
  case (shared rs)
  note pc = shared_step_pc [OF shared(4,2,3)]
  have "goroutine_inv r (ps_jobs s) i (ps_pc s i) (ps_pub s i)" using assms(2) by (simp add: populator_inv_def)
  with pc have "goroutine_inv r (ps_jobs s) i (rs_pc rs i) (ps_pub s i)"
    by (auto simp: goroutine_inv_def split: option.splits elim: publisher_inv_shared)
  then show ?thesis
    using shared pc by (intro populator_inv_update [OF assms(2), of s' i "rs_pc rs i" "ps_pub s i"]) simp_all
qed

lemma initialize_step:
  "\<not> rs_panic rs \<Longrightarrow> rs_pc rs i = Initializing \<Longrightarrow>
     runner_step g rs i (goto i (next_pc PublishingRoutes ''initializing connection: '' err) rs)"
  unfolding next_pc_def
  by (cases err; simp only: option.case) (rule runner_step.init_ok runner_step.init_err; assumption)+

lemma publish_step:
  "\<not> rs_panic rs \<Longrightarrow> rs_pc rs i = PublishingRoutes \<Longrightarrow>
     runner_step g rs i (goto i (next_pc Selecting ''publishing: '' err) rs)"
  unfolding next_pc_def
  by (cases err; simp only: option.case) (rule runner_step.publish_ok runner_step.publish_err; assumption)+

lemma populator_step_simulated:
  assumes "populator_inv r s" and "populator_step r s i s'"
  shows "runner_step (goroutines r) (ps_runner s) i (ps_runner s')"
  using assms(2)
proof cases
  case (job_panic e)
  have "goroutine_inv r (ps_jobs s) i (ps_pc s i) (ps_pub s i)" using assms(1) by (simp add: populator_inv_def)
  with job_panic have "i < goroutines r" by (simp add: goroutine_inv_def)
  with populator_job [OF assms(1)] job_panic(4) show ?thesis by fastforce
next
  case (publish_panic p env e)
  have "goroutine_inv r (ps_jobs s) i (ps_pc s i) (ps_pub s i)" using assms(1) by (simp add: populator_inv_def)
  then obtain j where j: "i < goroutines r" "ps_jobs s ! i = Return j" "publisher_inv r j PublishingRoutes p"
    using publish_panic by (auto simp: goroutine_inv_def)
  from populator_job [OF assms(1) j(1)] j(2) have "job_part (run_job r) j" by auto
  from publish_publisher_inv [OF j(3) this, of env] publish_panic(5) show ?thesis by simp
qed (simp_all add: initialize_step publish_step)

interpretation populator_sim: simulation "populator_init r" "populator_step r" "populator_inv r"
    "runner_step (goroutines r)" ps_runner "(=)"
  by (unfold_locales, erule populator_init_inv, erule (1) populator_step_inv [rotated],
      rule run_performs, erule (1) populator_step_simulated, rule refl)

lemma populator_reachable_runner:
  assumes "reachable (populator_init r) (populator_step r) s"
  shows "reachable (runner_init (goroutines r)) (runner_step (goroutines r)) (ps_runner s)"
proof -
  from assms obtain s0 ls where s0: "populator_init r s0" "run (populator_step r) s0 ls s" by (auto simp: reachable_def)
  from populator_sim.run_simulated [OF s0(2) populator_sim.init_I [OF s0(1)]] s0(1) show ?thesis
    by (auto simp: reachable_def populator_init_def)
qed

section \<open>What stops the goroutines\<close>

text \<open>The errors that goroutines send carry the context in which they arose.\<close>

definition wrapped :: "go_error \<Rightarrow> bool" where
  "wrapped e \<longleftrightarrow> take 25 e = ''initializing connection: '' \<or> take 12 e = ''publishing: ''"

text \<open>Without an error nobody but the goroutine that waits for a signal calls \<open>Stop\<close>.\<close>

definition end_inv :: "nat \<Rightarrow> runner_system \<Rightarrow> bool" where
  "end_inv g rs \<longleftrightarrow> list_all wrapped (rs_errs rs) \<and> (\<forall>i e. rs_pc rs i = Failing e \<longrightarrow> wrapped e) \<and>
     (\<forall>i>g. rs_pc rs i = Finished) \<and>
     (rs_errs rs = [] \<longrightarrow> (\<forall>i<g. rs_pc rs i \<notin> {SignalWait, StopCheck, StopSet, StopClose}) \<and>
        (\<forall>i<g. rs_pc rs i = Finished \<longrightarrow> rs_quit_closed rs) \<and>
        (rs_stopped rs \<or> rs_quit_closed rs \<longrightarrow> rs_pc rs g \<noteq> SignalWait))"

lemma runner_step_end_inv:
  assumes "end_inv g rs" and "runner_step g rs i rs'"
  shows "end_inv g rs'"
proof -
  have i: "i < g \<or> i = g" if "rs_pc rs i \<noteq> Finished" using assms(1) that unfolding end_inv_def by (meson linorder_neqE_nat)
  show ?thesis using assms(2)
    by cases (use assms(1) i in \<open>auto simp: end_inv_def wrapped_def\<close>)
qed

text \<open>The process panics only when the quit channel is closed again, which needs a second participant, one with an error.\<close>

definition calm_inv :: "nat \<Rightarrow> runner_system \<Rightarrow> bool" where
  "calm_inv g rs \<longleftrightarrow> (rs_panic rs \<longrightarrow> rs_quit_closed rs) \<and>
     (rs_errs rs = [] \<longrightarrow> \<not> rs_panic rs \<and> (rs_quit_closed rs \<longrightarrow> rs_pc rs g = Finished))"

lemma runner_step_calm_inv:
  assumes "end_inv g rs" and "calm_inv g rs" and "runner_step g rs i rs'"
  shows "calm_inv g rs'"
proof -
  have i: "i = g" if "rs_errs rs = []" "rs_pc rs i = StopClose"
    using assms(1) that unfolding end_inv_def by (metis gpc.distinct(71) insertCI linorder_neqE_nat)
  show ?thesis using assms(3)
    by cases (use assms(2) i in \<open>simp_all add: calm_inv_def, auto\<close>)
qed

interpretation runner_end: invariant_system "runner_init g" "runner_step g" "\<lambda>rs. end_inv g rs \<and> calm_inv g rs"
proof
  fix rs assume "runner_init g rs"
  then show "end_inv g rs \<and> calm_inv g rs" by (simp add: runner_init_def end_inv_def calm_inv_def)
next
  fix rs i rs' assume "end_inv g rs \<and> calm_inv g rs" and "runner_step g rs i rs'"
  then show "end_inv g rs' \<and> calm_inv g rs'" by (blast intro: runner_step_end_inv runner_step_calm_inv)
qed

section \<open>The process\<close>

text \<open>Where the goroutine of \<open>main\<close> is; it has started the goroutines below \<open>n\<close> in \<open>Launching n\<close>.\<close>

datatype main_pc = Starting | Launching nat | AwaitingGoroutines | Exited int

record populator_process =
  pr_main :: main_pc
  pr_sys :: populator_system
  pr_stderr :: "string list"

abbreviation pr_runner :: "populator_process \<Rightarrow> runner_system" where
  "pr_runner p \<equiv> ps_runner (pr_sys p)"

datatype process_action = Main | Participant nat

fun launched :: "main_pc \<Rightarrow> nat \<Rightarrow> bool" where
  "launched Starting i = False"
| "launched (Launching n) i = (i < n)"
| "launched AwaitingGoroutines i = True"
| "launched (Exited status) i = False"

fun exited :: "main_pc \<Rightarrow> bool" where
  "exited (Exited status) = True"
| "exited _ = False"

text \<open>
  \<open>startPopulatingRoutes\<close>, from the moment when the goroutine that waits for a signal runs. Until \<open>main\<close> has
  read the field \<open>stopped\<close> at the beginning of \<open>Start\<close>, that goroutine can already have set it. \<open>Start\<close> may
  fail, panic, or never return (then there is no step of \<open>main\<close>); else it launches the goroutines one after the
  other, and they run while \<open>main\<close> goes on. A panic ends the process with status 2; the trace that
  the run-time system prints is left out.
\<close>

inductive process_step :: "Runner \<Rightarrow> populator_process \<Rightarrow> process_action \<Rightarrow> populator_process \<Rightarrow> bool" for r where
  start_refused: "\<not> rs_panic (pr_runner p) \<Longrightarrow> pr_main p = Starting \<Longrightarrow>
    Start (r\<lparr>stopped := rs_stopped (pr_runner p)\<rparr>) = Some (Return (Inl err)) \<Longrightarrow>
    process_step r p Main (p\<lparr>pr_main := Exited 1, pr_stderr := pr_stderr p @ [''Error starting runner: '' @ err]\<rparr>)"
| start_panics: "\<not> rs_panic (pr_runner p) \<Longrightarrow> pr_main p = Starting \<Longrightarrow>
    Start (r\<lparr>stopped := rs_stopped (pr_runner p)\<rparr>) = Some (Panic e) \<Longrightarrow> process_step r p Main (p\<lparr>pr_main := Exited 2\<rparr>)"
| start_cut: "\<not> rs_panic (pr_runner p) \<Longrightarrow> pr_main p = Starting \<Longrightarrow>
    Start (r\<lparr>stopped := rs_stopped (pr_runner p)\<rparr>) = Some (Return (Inr jobs)) \<Longrightarrow>
    process_step r p Main (p\<lparr>pr_main := Launching 0, pr_sys := (pr_sys p)\<lparr>ps_jobs := jobs\<rparr>\<rparr>)"
| launch: "\<not> rs_panic (pr_runner p) \<Longrightarrow> pr_main p = Launching n \<Longrightarrow> n < goroutines r \<Longrightarrow>
    process_step r p Main (p\<lparr>pr_main := Launching (Suc n)\<rparr>)"
| launched_all: "\<not> rs_panic (pr_runner p) \<Longrightarrow> pr_main p = Launching n \<Longrightarrow> goroutines r \<le> n \<Longrightarrow>
    process_step r p Main (p\<lparr>pr_main := AwaitingGoroutines\<rparr>)"
| wait_no_error: "\<not> rs_panic (pr_runner p) \<Longrightarrow> pr_main p = AwaitingGoroutines \<Longrightarrow>
    Wait (goroutines r) (pr_runner p) = Some None \<Longrightarrow> process_step r p Main (p\<lparr>pr_main := Exited 0\<rparr>)"
| wait_error: "\<not> rs_panic (pr_runner p) \<Longrightarrow> pr_main p = AwaitingGoroutines \<Longrightarrow>
    Wait (goroutines r) (pr_runner p) = Some (Some err) \<Longrightarrow>
    process_step r p Main (p\<lparr>pr_main := Exited 1, pr_stderr := pr_stderr p @ [''Error running: '' @ err]\<rparr>)"
| goroutine: "i < goroutines r \<Longrightarrow> launched (pr_main p) i \<Longrightarrow> populator_step r (pr_sys p) i s \<Longrightarrow>
    process_step r p (Participant i) (p\<lparr>pr_sys := s\<rparr>)"
| signal_received: "\<not> exited (pr_main p) \<Longrightarrow> ps_pc (pr_sys p) (goroutines r) = SignalWait \<Longrightarrow>
    populator_step r (pr_sys p) (goroutines r) s \<Longrightarrow>
    process_step r p (Participant (goroutines r)) (p\<lparr>pr_sys := s, pr_stderr := pr_stderr p @ [''Received signal '' @ sig]\<rparr>)"
| stopping_runner: "\<not> exited (pr_main p) \<Longrightarrow> ps_pc (pr_sys p) (goroutines r) \<noteq> SignalWait \<Longrightarrow>
    populator_step r (pr_sys p) (goroutines r) s \<Longrightarrow> process_step r p (Participant (goroutines r)) (p\<lparr>pr_sys := s\<rparr>)"
| crashed: "rs_panic (pr_runner p) \<Longrightarrow> \<not> exited (pr_main p) \<Longrightarrow> process_step r p Main (p\<lparr>pr_main := Exited 2\<rparr>)"

definition process_init :: "Runner \<Rightarrow> populator_process \<Rightarrow> bool" where
  "process_init r p \<longleftrightarrow> pr_main p = Starting \<and> pr_stderr p = [] \<and> ps_jobs (pr_sys p) = [] \<and>
     runner_init (goroutines r) (pr_runner p) \<and> (\<forall>i. ps_pub (pr_sys p) i = None)"

text \<open>
  \<open>main\<close>: the flags are checked, which may end the program with its messages and status 1; else there is
  the runner whose process follows.
\<close>

definition populator_main ::
    "(string \<Rightarrow> go_error + duration) \<Rightarrow> int \<Rightarrow> flags \<Rightarrow> string list \<times> int + Runner" where
  "populator_main parse numCPU f =
     (case checkRequiredFields parse f of
        Inl msgs \<Rightarrow> Inl (msgs, 1)
      | Inr delay \<Rightarrow> Inr (populator_runner numCPU delay f))"

text \<open>The goroutines of the process, with the jobs that they get if they are started.\<close>

definition jobs_of :: "Runner \<Rightarrow> Job outcome list" where
  "jobs_of r = (case Start r of Some (Return (Inr jobs)) \<Rightarrow> jobs | _ \<Rightarrow> [])"

definition process_view :: "Runner \<Rightarrow> populator_process \<Rightarrow> populator_system" where
  "process_view r p = (pr_sys p)\<lparr>ps_jobs := jobs_of r\<rparr>"

text \<open>What the process has printed before \<open>main\<close> prints an error.\<close>

definition signal_lines :: "Runner \<Rightarrow> populator_system \<Rightarrow> string list \<Rightarrow> bool" where
  "signal_lines r s received \<longleftrightarrow>
     (if ps_pc s (goroutines r) = SignalWait then received = [] else \<exists>sig. received = [''Received signal '' @ sig])"

text \<open>Why the process has exited.\<close>

definition exit_reason :: "Runner \<Rightarrow> populator_process \<Rightarrow> int \<Rightarrow> bool" where
  "exit_reason r p status \<longleftrightarrow> (\<exists>received. signal_lines r (pr_sys p) received \<and>
     (status = 0 \<and> pr_stderr p = received \<and> Wait (goroutines r) (pr_runner p) = Some None \<or>
      status = 1 \<and> pr_stderr p = received @ [''Error starting runner: Cannot restart a runner.''] \<and>
        rs_stopped (pr_runner p) \<and> rs_errs (pr_runner p) = [] \<and> (\<forall>i. ps_pub (pr_sys p) i = None) \<or>
      status = 1 \<and> (\<exists>e. pr_stderr p = received @ [''Error running: '' @ e] \<and>
        Wait (goroutines r) (pr_runner p) = Some (Some e)) \<or>
      status = 2 \<and> pr_stderr p = received \<and> rs_panic (pr_runner p)))"

definition process_inv :: "Runner \<Rightarrow> populator_process \<Rightarrow> bool" where
  "process_inv r p \<longleftrightarrow> sound_runner r \<and> populator_inv r (process_view r p) \<and> errs_inv (goroutines r) (pr_runner p) \<and>
     (case pr_main p of
        Exited status \<Rightarrow> exit_reason r p status
      | Starting \<Rightarrow> signal_lines r (pr_sys p) (pr_stderr p) \<and>
          rs_errs (pr_runner p) = [] \<and> (\<forall>i. ps_pub (pr_sys p) i = None)
      | _ \<Rightarrow> signal_lines r (pr_sys p) (pr_stderr p) \<and> ps_jobs (pr_sys p) = jobs_of r)"

lemma sound_start:
  assumes "sound_runner r"
  shows "Start (r\<lparr>stopped := b\<rparr>) = (if b then Some (Return (Inl ''Cannot restart a runner.'')) else Some (Return (Inr (jobs_of r))))"
proof (cases b)
  case False
  have "r\<lparr>stopped := False\<rparr> = r" using assms by (cases r) (simp add: sound_runner_def)
  with False Start_routes [OF assms] show ?thesis by (auto simp: jobs_of_def)
qed (simp add: Start_def)

lemma populator_step_jobs: "populator_step r s i s' \<Longrightarrow> ps_jobs s' = ps_jobs s"
  by (erule populator_step.cases) (simp_all add: crash_def)

text \<open>A step that the publishers have no part in does not depend on the jobs.\<close>

lemma populator_step_shared:
  assumes "populator_step r s i s'" and "ps_pc s i \<noteq> Initializing" and "ps_pc s i \<noteq> PublishingRoutes"
  shows "populator_step r (s\<lparr>ps_jobs := jobs\<rparr>) i (s'\<lparr>ps_jobs := jobs\<rparr>) \<and> ps_pub s' = ps_pub s \<and>
    (rs_errs (ps_runner s') = rs_errs (ps_runner s) \<or> (\<exists>e. ps_pc s i = Failing e))"
  using assms(1)
proof cases
  case (shared rs)
  have "populator_step r (s\<lparr>ps_jobs := jobs\<rparr>) i ((s\<lparr>ps_jobs := jobs\<rparr>)\<lparr>ps_runner := rs\<rparr>)"
    using shared by (intro populator_step.shared) simp_all
  moreover have "rs_errs rs = rs_errs (ps_runner s) \<or> (\<exists>e. ps_pc s i = Failing e)"
    using shared(4) by cases simp_all
  moreover have "(s\<lparr>ps_jobs := jobs\<rparr>)\<lparr>ps_runner := rs\<rparr> = s\<lparr>ps_runner := rs, ps_jobs := jobs\<rparr>" by (cases s) simp
  ultimately show ?thesis using shared(1) by simp
qed (use assms(2,3) in simp_all)

text \<open>The goroutine that waits for a signal is settled or still waiting.\<close>

lemma signal_goroutine:
  assumes "errs_inv g rs"
  shows "rs_pc rs g \<noteq> Initializing" and "rs_pc rs g \<noteq> PublishingRoutes" and "rs_pc rs g \<noteq> Failing e"
proof -
  have "rs_pc rs g = SignalWait \<or> settled (rs_pc rs g)" using assms by (simp add: errs_inv_def)
  then show "rs_pc rs g \<noteq> Initializing" "rs_pc rs g \<noteq> PublishingRoutes" "rs_pc rs g \<noteq> Failing e" by auto
qed

lemma process_view_simps [simp]:
  "ps_runner (process_view r p) = pr_runner p" "ps_pub (process_view r p) = ps_pub (pr_sys p)"
  "ps_jobs (process_view r p) = jobs_of r"
  "process_view r (p\<lparr>pr_main := m\<rparr>) = process_view r p" "process_view r (p\<lparr>pr_stderr := ls\<rparr>) = process_view r p"
  "process_view r (p\<lparr>pr_sys := s\<rparr>) = s\<lparr>ps_jobs := jobs_of r\<rparr>"
  by (simp_all add: process_view_def)

text \<open>A step of a participant is a step of the goroutines with their jobs.\<close>

lemma participant_view:
  assumes "process_inv r p" and "populator_step r (pr_sys p) i s"
    and "launched (pr_main p) i \<or> i = goroutines r \<and> \<not> exited (pr_main p)"
  shows "populator_step r (process_view r p) i (s\<lparr>ps_jobs := jobs_of r\<rparr>)"
  using assms(3)
proof (elim disjE conjE)
  assume "launched (pr_main p) i"
  then have "ps_jobs (pr_sys p) = jobs_of r" using assms(1) by (cases "pr_main p") (simp_all add: process_inv_def)
  moreover from this have "ps_jobs s = jobs_of r" using populator_step_jobs [OF assms(2)] by simp
  ultimately have "(pr_sys p)\<lparr>ps_jobs := jobs_of r\<rparr> = pr_sys p" "s\<lparr>ps_jobs := jobs_of r\<rparr> = s"
    by (cases "pr_sys p"; cases s; simp)+
  then show ?thesis using assms(2) by (simp add: process_view_def)
next
  assume "i = goroutines r"
  with signal_goroutine [of "goroutines r" "pr_runner p"] populator_step_shared [OF assms(2)] assms(1) show ?thesis
    by (simp add: process_inv_def process_view_def)
qed

lemma process_step_view:
  assumes "process_inv r p" and "process_step r p a p'"
  shows "process_view r p' = process_view r p \<and> ps_runner (pr_sys p') = pr_runner p \<and> a = Main \<or>
    (\<exists>i. a = Participant i \<and> populator_step r (process_view r p) i (process_view r p'))"
  using assms(2)
proof cases
  case (goroutine i s)
  then show ?thesis using participant_view [OF assms(1) goroutine(5)] by simp
next
  case (signal_received s sig)
  then show ?thesis using participant_view [OF assms(1) signal_received(5)] by simp
next
  case (stopping_runner s)
  then show ?thesis using participant_view [OF assms(1) stopping_runner(5)] by simp
next
  case (start_cut jobs)
  then show ?thesis by (simp add: process_view_def)
qed simp_all

lemma process_step_shape:
  assumes "process_inv r p" and "process_step r p a p'"
  shows "populator_inv r (process_view r p')" and "errs_inv (goroutines r) (pr_runner p')"
proof -
  have p: "populator_inv r (process_view r p)" "errs_inv (goroutines r) (pr_runner p)" using assms(1) by (simp_all add: process_inv_def)
  have "populator_inv r (process_view r p') \<and> errs_inv (goroutines r) (pr_runner p')"
    using process_step_view [OF assms]
  proof (elim disjE exE conjE)
    fix i assume "populator_step r (process_view r p) i (process_view r p')"
    with p populator_step_inv [OF this] populator_step_simulated [OF p(1) this] runner_step_errs_inv
    show ?thesis by auto
  qed (use p in simp)
  then show "populator_inv r (process_view r p')" "errs_inv (goroutines r) (pr_runner p')" by simp_all
qed

text \<open>What a step of a participant does to the lines printed, and to a runner that is not started.\<close>

lemma signal_lines_other:
  assumes "process_inv r p" and "populator_step r (pr_sys p) i s" and "launched (pr_main p) i" and "i < goroutines r"
  shows "signal_lines r s received = signal_lines r (pr_sys p) received"
proof -
  have "populator_inv r (process_view r p)" using assms(1) by (simp add: process_inv_def)
  from populator_step_simulated [OF this participant_view [OF assms(1,2)]] assms(3)
  have "runner_step (goroutines r) (pr_runner p) i (ps_runner s)" by simp
  from runner_step_shape(1) [OF this] assms(4) have "ps_pc s (goroutines r) = ps_pc (pr_sys p) (goroutines r)"
    by (metis fun_upd_other less_irrefl)
  then show ?thesis by (simp add: signal_lines_def)
qed

lemma signal_lines_own:
  assumes "process_inv r p" and "populator_step r (pr_sys p) (goroutines r) s" and "\<not> exited (pr_main p)"
  shows "ps_pc s (goroutines r) \<noteq> SignalWait" and "ps_pub s = ps_pub (pr_sys p)"
    and "rs_errs (ps_runner s) = rs_errs (pr_runner p)" and "ps_jobs s = ps_jobs (pr_sys p)"
proof -
  have p: "populator_inv r (process_view r p)" "errs_inv (goroutines r) (pr_runner p)" using assms(1) by (simp_all add: process_inv_def)
  from populator_step_simulated [OF p(1) participant_view [OF assms(1,2)]] assms(3)
  have "runner_step (goroutines r) (pr_runner p) (goroutines r) (ps_runner s)" by simp
  from runner_step_shape(2) [OF this] show "ps_pc s (goroutines r) \<noteq> SignalWait" .
  from populator_step_shared [OF assms(2)] signal_goroutine [OF p(2)]
  show "ps_pub s = ps_pub (pr_sys p)" "rs_errs (ps_runner s) = rs_errs (pr_runner p)" by auto
  show "ps_jobs s = ps_jobs (pr_sys p)" by (rule populator_step_jobs [OF assms(2)])
qed

lemma process_step_inv:
  assumes "process_inv r p" and "process_step r p a p'"
  shows "process_inv r p'"
proof -
  have sound: "sound_runner r" using assms(1) by (simp add: process_inv_def)
  note shape = process_step_shape [OF assms]
  show ?thesis using assms(2)
  proof cases
    case (start_refused err)
    with assms(1) shape show ?thesis
      by (auto simp: process_inv_def exit_reason_def sound_start [OF sound] split: if_splits)
  next
    case (start_panics e)
    then show ?thesis by (simp add: sound_start [OF sound] split: if_splits)
  next
    case (start_cut jobs)
    with assms(1) shape show ?thesis
      by (simp add: process_inv_def sound_start [OF sound] signal_lines_def split: if_splits)
  next
    case (launch n)
    with assms(1) shape show ?thesis by (simp add: process_inv_def)
  next
    case (launched_all n)
    with assms(1) shape show ?thesis by (simp add: process_inv_def)
  next
    case wait_no_error
    with assms(1) shape show ?thesis by (auto simp: process_inv_def exit_reason_def)
  next
    case (wait_error err)
    with assms(1) shape show ?thesis by (auto simp: process_inv_def exit_reason_def)
  next
    case (goroutine i s)
    have "ps_jobs s = ps_jobs (pr_sys p)" by (rule populator_step_jobs [OF goroutine(5)])
    with goroutine assms(1) shape signal_lines_other [OF assms(1) goroutine(5,4,3)] show ?thesis
      by (cases "pr_main p") (simp_all add: process_inv_def)
  next
    case (signal_received s sig)
    note own = signal_lines_own [OF assms(1) signal_received(5,3)]
    from signal_received assms(1) shape own show ?thesis
      by (cases "pr_main p") (simp_all add: process_inv_def signal_lines_def)
  next
    case (stopping_runner s)
    note own = signal_lines_own [OF assms(1) stopping_runner(5,3)]
    from stopping_runner assms(1) shape own show ?thesis
      by (cases "pr_main p") (simp_all add: process_inv_def signal_lines_def)
  next
    case crashed
    with assms(1) shape show ?thesis
      by (cases "pr_main p") (auto simp: process_inv_def exit_reason_def)
  qed
qed

lemma process_init_inv:
  assumes "process_init r p" and "sound_runner r"
  shows "process_inv r p" and "populator_init r (process_view r p)"
proof -
  have "Start r = Some (Return (Inr (jobs_of r)))" using Start_routes [OF assms(2)] by (auto simp: jobs_of_def)
  with assms show init: "populator_init r (process_view r p)"
    by (simp add: populator_init_def process_init_def)
  from assms show "process_inv r p"
    using populator_init_inv [OF init] runner_errs.init_I [of "goroutines r" "pr_runner p"]
    by (simp add: process_inv_def process_init_def runner_init_def signal_lines_def)
qed

text \<open>The goroutines of the process, with \<open>main\<close> around them, are those of the populator's system.\<close>

interpretation process_sim: simulation "\<lambda>p. process_init r p \<and> sound_runner r" "process_step r" "process_inv r"
    "populator_step r" "process_view r" "\<lambda>a i. a = Participant i"
proof
  fix p assume "process_init r p \<and> sound_runner r"
  then show "process_inv r p" by (blast intro: process_init_inv)
next
  fix p a p' assume step: "process_inv r p" "process_step r p a p'"
  then show "process_inv r p'" by (rule process_step_inv)
  from process_step_view [OF step] show "\<exists>as. run (populator_step r) (process_view r p) as (process_view r p') \<and> (\<forall>i\<in>set as. a = Participant i)"
    by (blast intro: run_stutter run_performs)
qed

lemma process_reachable_runner:
  assumes "reachable (process_init r) (process_step r) p" and "sound_runner r"
  shows "process_inv r p" and "reachable (runner_init (goroutines r)) (runner_step (goroutines r)) (pr_runner p)"
proof -
  from assms(1) obtain p0 ls where p0: "process_init r p0" "run (process_step r) p0 ls p" by (auto simp: reachable_def)
  note init = process_init_inv [OF p0(1) assms(2)]
  show "process_inv r p" by (rule process_sim.run_I [OF p0(2) init(1)])
  from process_sim.run_simulated [OF p0(2) init(1)] init(2)
  have "reachable (populator_init r) (populator_step r) (process_view r p)" by (auto simp: reachable_def)
  from populator_reachable_runner [OF this] show "reachable (runner_init (goroutines r)) (runner_step (goroutines r)) (pr_runner p)"
    by simp
qed

section \<open>A populator with one goroutine\<close>

definition sample_runner :: Runner where
  "sample_runner = NewRunner sample_job 1 60 50000"

definition one :: "bool \<Rightarrow> bool \<Rightarrow> go_error list \<Rightarrow> gpc \<Rightarrow> Publisher option \<Rightarrow> populator_system" where
  "one st q errs pc pub =
     \<lparr>ps_jobs = [Return sample_job],
      ps_runner = \<lparr>rs_stopped = st, rs_quit_closed = q, rs_errs = errs,
        rs_pc = (\<lambda>i. if i = 0 then pc else if i = 1 then SignalWait else Finished), rs_panic = False\<rparr>,
      ps_pub = (\<lambda>i. if i = 0 then pub else None)\<rparr>"

lemma one_simps [simp]:
  "ps_jobs (one st q errs pc pub) = [Return sample_job]" "ps_pub (one st q errs pc pub) 0 = pub"
  "rs_stopped (ps_runner (one st q errs pc pub)) = st" "rs_quit_closed (ps_runner (one st q errs pc pub)) = q"
  "rs_errs (ps_runner (one st q errs pc pub)) = errs" "rs_panic (ps_runner (one st q errs pc pub)) = False"
  "ps_pc (one st q errs pc pub) 0 = pc"
  by (simp_all add: one_def)

lemma one_update:
  "(one st q errs pc pub)\<lparr>ps_pub := (ps_pub (one st' q' errs' pc' pub'))(0 \<mapsto> p)\<rparr> = one st q errs pc (Some p)"
  "(one st q errs pc pub)\<lparr>ps_runner := (goto 0 pc' (ps_runner (one st q errs pc pub)))\<lparr>rs_errs := errs'\<rparr>\<rparr> = one st q errs' pc' pub"
  "(one st q errs pc pub)\<lparr>ps_runner := (goto 0 pc' (ps_runner (one st q errs pc pub)))\<lparr>rs_stopped := st'\<rparr>\<rparr> = one st' q errs pc' pub"
  "(one st q errs pc pub)\<lparr>ps_runner := (goto 0 pc' (ps_runner (one st q errs pc pub)))\<lparr>rs_quit_closed := q'\<rparr>\<rparr> = one st q' errs pc' pub"
  "(one st q errs pc pub)\<lparr>ps_runner := goto 0 pc' (ps_runner (one st q errs pc pub))\<rparr> = one st q errs pc' pub"
  by (simp_all add: one_def fun_eq_iff)

lemma sample_populator: "populator_init sample_runner (one False False [] Initializing None)"
proof -
  have sound: "sound_runner sample_runner"
    by (simp add: sound_runner_def sample_runner_def NewRunner_def sample_job_def is_int64_def minInt64_def maxInt64_def)
  from Start_jobs [OF this] have "Start sample_runner = Some (Return (Inr [Return sample_job]))"
    by (simp add: sample_runner_def NewRunner_def sample_job_def)
  with sound show ?thesis
    by (simp add: populator_init_def one_def runner_init_def sample_runner_def NewRunner_def fun_eq_iff)
qed

lemma sample_delay [simp]: "run_publishDelay sample_runner = 50000" "goroutines sample_runner = 1"
  by (simp_all add: sample_runner_def NewRunner_def)

text \<open>The goroutine publishes a round.\<close>

lemma sample_round:
  obtains p where "run (populator_step sample_runner) (one False False [] Initializing None) [0, 0] (one False False [] Selecting (Some p))"
proof -
  let ?s = "one False False []"
  have connect: "createNATSConnection (\<lambda>_. None) = (\<lambda>_. None)" by (simp add: createNATSConnection_def fun_eq_iff)
  have "validate sample_job = None" by (simp add: validate_def sample_job_def)
  then obtain p where p: "Initialize (\<lambda>_. None) (NewPublisher sample_job 50000) = (None, p)"
    by (simp add: Initialize_valid)
  have "populator_step sample_runner (?s Initializing None) 0 (?s PublishingRoutes (Some p))"
    using populator_step.initialize [of "?s Initializing None" 0 sample_job "\<lambda>_. None" sample_runner None p] p
    by (simp add: connect one_update next_pc_def)
  moreover have "is_int64 (EndRange sample_job - StartRange sample_job)"
    by (simp add: sample_job_def is_int64_def minInt64_def maxInt64_def)
  from publish_round [OF Initialize_prepared(1) [OF p this], of "\<lambda>_ _. None"]
  obtain p' where "PublishRouteRegistrations (\<lambda>_ _. None) p = Return (None, p')"
    by (simp add: run_script_reliable reliable_def)
  then have "populator_step sample_runner (?s PublishingRoutes (Some p)) 0 (?s Selecting (Some p'))"
    using populator_step.publish [of "?s PublishingRoutes (Some p)" 0 p "\<lambda>_ _. None" None p' sample_runner]
    by (simp add: one_update next_pc_def)
  ultimately show thesis by (rule that [OF run_Cons [OF _ run_Cons [OF _ run_Nil]]])
qed

text \<open>The goroutine's connection is refused.\<close>

lemma sample_refused:
  obtains p where "run (populator_step sample_runner) (one False False [] Initializing None) [0, 0, 0, 0, 0]
    (one True True [''initializing connection: '' @ ''refused''] Finished p)"
proof -
  let ?e = "''initializing connection: '' @ ''refused''"
  have validate: "validate sample_job = None" by (simp add: validate_def sample_job_def)
  obtain p where "Initialize (createNATSConnection (\<lambda>_. Some ''refused'')) (NewPublisher sample_job 50000) = (Some ''refused'', p)"
    by (simp add: Initialize_def NewPublisher_def validate createNATSConnection_def)
  then have "populator_step sample_runner (one False False [] Initializing None) 0 (one False False [] (Failing ?e) (Some p))"
    using populator_step.initialize [of "one False False [] Initializing None" 0 sample_job "\<lambda>_. Some ''refused''" sample_runner "Some ''refused''" p]
    by (simp add: one_update next_pc_def)
  moreover have "populator_step sample_runner (one False False [] (Failing ?e) (Some p)) 0 (one False False [?e] StopCheck (Some p))"
    using populator_step.shared [OF _ _ runner_step.send [of "ps_runner (one False False [] (Failing ?e) (Some p))" 0 ?e], of sample_runner]
    by (simp add: one_update)
  moreover have "populator_step sample_runner (one False False [?e] StopCheck (Some p)) 0 (one False False [?e] StopSet (Some p))"
    using populator_step.shared [OF _ _ runner_step.stop_first [of "ps_runner (one False False [?e] StopCheck (Some p))" 0], of sample_runner]
    by (simp add: one_update)
  moreover have "populator_step sample_runner (one False False [?e] StopSet (Some p)) 0 (one True False [?e] StopClose (Some p))"
    using populator_step.shared [OF _ _ runner_step.stop_set [of "ps_runner (one False False [?e] StopSet (Some p))" 0], of sample_runner]
    by (simp add: one_update)
  moreover have "populator_step sample_runner (one True False [?e] StopClose (Some p)) 0 (one True True [?e] Finished (Some p))"
    using populator_step.shared [OF _ _ runner_step.close_open [of "ps_runner (one True False [?e] StopClose (Some p))" 0], of sample_runner]
    by (simp add: one_update)
  ultimately show thesis by (rule that [OF run_Cons [OF _ run_Cons [OF _ run_Cons [OF _ run_Cons [OF _ run_Cons [OF _ run_Nil]]]]]])
qed

section \<open>Properties\<close>

text \<open>
  C23: the populator refines the system of goroutines. Every run of the goroutines with their publishers,
  whatever connections and calls fail, is a run of the step relation in which the results of the
  publishers are left open, with steps of the same goroutines. In particular no goroutine panics while
  it reads its job, initialises its publisher or publishes.
\<close>

theorem populator_refines_runner:
  assumes "populator_init r s0" and "run (populator_step r) s0 ls s"
  shows "runner_init (goroutines r) (ps_runner s0) \<and>
    (\<exists>as. run (runner_step (goroutines r)) (ps_runner s0) as (ps_runner s) \<and> set as \<subseteq> set ls)"
  using populator_sim.run_simulated [OF assms(2) populator_sim.init_I [OF assms(1)]] assms(1)
  by (auto simp: populator_init_def)

theorem populator_refines_runner_witness:
  "\<exists>s as. run (populator_step sample_runner) (one False False [] Initializing None) [0, 0, 0, 0, 0] s \<and>
     run (runner_step 1) (ps_runner (one False False [] Initializing None)) as (ps_runner s) \<and>
     rs_errs (ps_runner s) = [''initializing connection: refused''] \<and> set as \<subseteq> {0}"
proof -
  obtain p where s: "run (populator_step sample_runner) (one False False [] Initializing None) [0, 0, 0, 0, 0]
    (one True True [''initializing connection: '' @ ''refused''] Finished p)" by (rule sample_refused)
  from populator_refines_runner [OF sample_populator this] s show ?thesis by fastforce
qed

text \<open>
  C24: what the goroutines publish. At every moment of a run, the calls of a goroutine on its connection are some
  whole rounds and the first calls of another round, where a round has, for each route of the part
  that \<open>Start\<close> gave to this goroutine, the message for the router, the message for service discovery
  and the pause. A goroutine that waits for its heartbeat has completed a round and has none under way.
\<close>

theorem goroutine_publishes_its_part:
  assumes "reachable (populator_init r) (populator_step r) s" and "ps_pub s i = Some p"
  shows "\<exists>jobs k m. Start r = Some (Return (Inr (map Return jobs))) \<and> i < length jobs \<and>
    pub_calls p = rounds (message_calls (run_publishDelay r) (map (route_message (run_job r)) (job_routes (jobs ! i)))) k m \<and>
    (ps_pc s i = Selecting \<longrightarrow> 0 < k \<and> m = 0)"
proof -
  from populator_sim.reachable_I [OF assms(1)] obtain jobs where jobs: "ps_jobs s = map Return jobs"
    "length jobs = goroutines r" "Start r = Some (Return (Inr (map Return jobs)))"
    "goroutine_inv r (ps_jobs s) i (ps_pc s i) (ps_pub s i)" unfolding populator_inv_def by auto
  then obtain k m where "i < length jobs" "pub_calls p = rounds (part_script r (jobs ! i)) k m"
    "ps_pc s i = Selecting \<longrightarrow> 0 < k \<and> m = 0"
    using assms(2) by (auto simp: goroutine_inv_def publisher_inv_def)
  with jobs(3) show ?thesis unfolding part_script_def by blast
qed

theorem goroutine_publishes_its_part_witness:
  "\<exists>s p jobs k. reachable (populator_init sample_runner) (populator_step sample_runner) s \<and> ps_pub s 0 = Some p \<and>
     Start sample_runner = Some (Return (Inr (map Return jobs))) \<and> 0 < k \<and>
     pub_calls p = rounds (message_calls 50000 (map (route_message sample_job) (job_routes (jobs ! 0)))) k 0"
proof -
  obtain p where "run (populator_step sample_runner) (one False False [] Initializing None) [0, 0]
    (one False False [] Selecting (Some p))" by (rule sample_round)
  then have r: "reachable (populator_init sample_runner) (populator_step sample_runner) (one False False [] Selecting (Some p))"
    using sample_populator by (auto simp: reachable_def)
  from goroutine_publishes_its_part [OF r, of 0 p] show ?thesis
    using r by (intro exI [of _ "one False False [] Selecting (Some p)"] exI [of _ p])
      (auto simp: sample_runner_def NewRunner_def)
qed

text \<open>
  C25: how the program ends, once the goroutine that waits for a signal runs. When the process has exited, it has
  printed that it received a signal, if it did, and one of four things is the case. With status 0 it has
  printed nothing else, a signal was received and closed the quit channel, and no goroutine had sent an error.
  With status 1 it has printed that the runner could not be started, because a signal had stopped it before,
  and no goroutine made a publisher; or it has printed the first error that a goroutine sent, with its
  context, either the initialisation of the connection or the publication. With status 2 the process panicked
  after the quit channel was closed, and that only after a goroutine had sent an error.
\<close>

theorem populator_exit_status:
  assumes "reachable (process_init r) (process_step r) p" and "sound_runner r" and "pr_main p = Exited status"
  shows "\<exists>received. (if ps_pc (pr_sys p) (goroutines r) = SignalWait then received = [] else \<exists>sig. received = [''Received signal '' @ sig]) \<and>
    (status = 0 \<and> pr_stderr p = received \<and> received \<noteq> [] \<and> rs_quit_closed (pr_runner p) \<and> rs_errs (pr_runner p) = [] \<or>
     status = 1 \<and> pr_stderr p = received @ [''Error starting runner: Cannot restart a runner.''] \<and> received \<noteq> [] \<and>
       rs_stopped (pr_runner p) \<and> (\<forall>i. ps_pub (pr_sys p) i = None) \<or>
     status = 1 \<and> (\<exists>e es. pr_stderr p = received @ [''Error running: '' @ e] \<and> rs_errs (pr_runner p) = e # es \<and>
       (take 25 e = ''initializing connection: '' \<or> take 12 e = ''publishing: '')) \<or>
     status = 2 \<and> pr_stderr p = received \<and> rs_panic (pr_runner p) \<and> rs_quit_closed (pr_runner p) \<and> rs_errs (pr_runner p) \<noteq> [])"
proof -
  note reach = process_reachable_runner [OF assms(1,2)]
  have inv: "end_inv (goroutines r) (pr_runner p)" "calm_inv (goroutines r) (pr_runner p)"
    using runner_end.reachable_I [OF reach(2)] by simp_all
  have g: "0 < goroutines r" using assms(2) by (simp add: sound_runner_def)
  from reach(1) assms(3) obtain received where lines: "signal_lines r (pr_sys p) received"
    and reason: "status = 0 \<and> pr_stderr p = received \<and> Wait (goroutines r) (pr_runner p) = Some None \<or>
      status = 1 \<and> pr_stderr p = received @ [''Error starting runner: Cannot restart a runner.''] \<and>
        rs_stopped (pr_runner p) \<and> rs_errs (pr_runner p) = [] \<and> (\<forall>i. ps_pub (pr_sys p) i = None) \<or>
      status = 1 \<and> (\<exists>e. pr_stderr p = received @ [''Error running: '' @ e] \<and> Wait (goroutines r) (pr_runner p) = Some (Some e)) \<or>
      status = 2 \<and> pr_stderr p = received \<and> rs_panic (pr_runner p)"
    by (auto simp: process_inv_def exit_reason_def)
  have unfailed: "received \<noteq> []" if "rs_errs (pr_runner p) = []" "rs_stopped (pr_runner p) \<or> rs_quit_closed (pr_runner p)"
    using inv lines that by (auto simp: end_inv_def signal_lines_def split: if_splits)
  have no_error: "rs_errs (pr_runner p) = [] \<and> rs_quit_closed (pr_runner p)" if "Wait (goroutines r) (pr_runner p) = Some None"
  proof -
    from that have "all_finished (goroutines r) (pr_runner p)" "rs_errs (pr_runner p) = []"
      by (auto simp: Wait_def split: if_splits list.splits)
    moreover from this(1) g have "ps_pc (pr_sys p) 0 = Finished" by (simp add: all_finished_def list_all_iff)
    ultimately show ?thesis using inv g unfolding end_inv_def by blast
  qed
  have first: "\<exists>es. rs_errs (pr_runner p) = e # es \<and> (take 25 e = ''initializing connection: '' \<or> take 12 e = ''publishing: '')"
    if "Wait (goroutines r) (pr_runner p) = Some (Some e)" for e
    using inv that by (auto simp: end_inv_def Wait_def wrapped_def split: if_splits list.splits)
  have panic: "rs_quit_closed (pr_runner p) \<and> rs_errs (pr_runner p) \<noteq> []" if "rs_panic (pr_runner p)"
    using inv(2) that unfolding calm_inv_def by blast
  note received = lines [unfolded signal_lines_def]
  from reason show ?thesis
  proof (elim disjE conjE exE)
    assume "status = 0" "pr_stderr p = received" "Wait (goroutines r) (pr_runner p) = Some None"
    with received no_error unfailed show ?thesis by (intro exI [of _ received]) simp
  next
    assume "status = 1" "rs_stopped (pr_runner p)" "rs_errs (pr_runner p) = []" "\<forall>i. ps_pub (pr_sys p) i = None"
      "pr_stderr p = received @ [''Error starting runner: Cannot restart a runner.'']"
    with received unfailed show ?thesis by (intro exI [of _ received]) simp
  next
    fix e assume "status = 1" "pr_stderr p = received @ [''Error running: '' @ e]" "Wait (goroutines r) (pr_runner p) = Some (Some e)"
    with received first [of e] show ?thesis by (intro exI [of _ received]) auto
  next
    assume "status = 2" "pr_stderr p = received" "rs_panic (pr_runner p)"
    with received panic show ?thesis by (intro exI [of _ received]) simp
  qed
qed

text \<open>The sample runner before \<open>main\<close> has started it: where the goroutine for signals is, and whether it has set \<open>stopped\<close>.\<close>

definition early :: "main_pc \<Rightarrow> gpc \<Rightarrow> bool \<Rightarrow> string list \<Rightarrow> populator_process" where
  "early m pc st lines =
     \<lparr>pr_main = m, pr_sys = \<lparr>ps_jobs = [], ps_runner = \<lparr>rs_stopped = st, rs_quit_closed = False, rs_errs = [],
        rs_pc = (\<lambda>i. if i = 0 then Initializing else if i = 1 then pc else Finished), rs_panic = False\<rparr>, ps_pub = (\<lambda>_. None)\<rparr>,
      pr_stderr = lines\<rparr>"

lemma early_simps [simp]:
  "pr_main (early m pc st lines) = m" "ps_pc (pr_sys (early m pc st lines)) (Suc 0) = pc" "pr_stderr (early m pc st lines) = lines"
  "rs_stopped (pr_runner (early m pc st lines)) = st" "\<not> rs_panic (pr_runner (early m pc st lines))"
  "ps_pub (pr_sys (early m pc st lines)) i = None"
  "(early m pc st lines)\<lparr>pr_main := m'\<rparr> = early m' pc st lines"
  "(early m pc st lines)\<lparr>pr_sys := pr_sys (early m' pc' st' lines')\<rparr> = early m pc' st' lines"
  "(early m pc st lines)\<lparr>pr_stderr := lines'\<rparr> = early m pc st lines'"
  by (simp_all add: early_def)

lemma early_step:
  assumes "runner_step 1 (pr_runner (early m pc st lines)) 1 (pr_runner (early m pc' st' lines))"
    and "pc \<noteq> Initializing" and "pc \<noteq> PublishingRoutes"
  shows "populator_step sample_runner (pr_sys (early m pc st lines)) 1 (pr_sys (early m pc' st' lines'))"
  using populator_step.shared [of "pr_sys (early m pc st lines)" 1 sample_runner] assms by (simp add: early_def)

lemma signal_before_start:
  "reachable (process_init sample_runner) (process_step sample_runner)
     (early (Exited 1) StopClose True [''Received signal '' @ sig, ''Error starting runner: '' @ ''Cannot restart a runner.''])"
proof -
  let ?P = "process_step sample_runner" and ?l = "[''Received signal '' @ sig]"
  let ?r = "\<lambda>pc st. pr_runner (early Starting pc st [])"
  have goto: "goto 1 pc' (?r pc st) = ?r pc' st" "(goto 1 pc' (?r pc st))\<lparr>rs_stopped := st'\<rparr> = ?r pc' st'" for pc pc' st st'
    by (simp_all add: early_def fun_eq_iff)
  have "runner_step 1 (?r SignalWait False) 1 (?r StopCheck False)"
    using runner_step.signal [of "?r SignalWait False" 1] by (simp add: goto [simplified])
  from early_step [OF this] have s1: "?P (early Starting SignalWait False []) (Participant 1) (early Starting StopCheck False ?l)"
    using process_step.signal_received [of "early Starting SignalWait False []" sample_runner "pr_sys (early Starting StopCheck False [])" sig]
    by simp
  have "runner_step 1 (?r StopCheck False) 1 (?r StopSet False)"
    using runner_step.stop_first [of "?r StopCheck False" 1] by (simp add: goto [simplified])
  from early_step [OF this] have s2: "?P (early Starting StopCheck False ?l) (Participant 1) (early Starting StopSet False ?l)"
    using process_step.stopping_runner [of "early Starting StopCheck False ?l" sample_runner "pr_sys (early Starting StopSet False [])"]
    by simp (simp add: early_def)
  have "runner_step 1 (?r StopSet False) 1 (?r StopClose True)"
    using runner_step.stop_set [of "?r StopSet False" 1] goto(2) [where pc = StopSet and pc' = StopClose and st = False and st' = True] by simp
  from early_step [OF this] have s3: "?P (early Starting StopSet False ?l) (Participant 1) (early Starting StopClose True ?l)"
    using process_step.stopping_runner [of "early Starting StopSet False ?l" sample_runner "pr_sys (early Starting StopClose True [])"]
    by simp (simp add: early_def)
  have s4: "?P (early Starting StopClose True ?l) Main
      (early (Exited 1) StopClose True (?l @ [''Error starting runner: '' @ ''Cannot restart a runner.'']))"
    using process_step.start_refused [of "early Starting StopClose True ?l" sample_runner "''Cannot restart a runner.''"]
    by (simp add: Start_def)
  have "process_init sample_runner (early Starting SignalWait False [])"
    by (simp add: process_init_def early_def runner_init_def fun_eq_iff)
  then have "reachable (process_init sample_runner) ?P (early Starting SignalWait False [])" by (rule reachable_init)
  note r1 = reachable_step [of _ ?P, OF this s1]
  note r2 = reachable_step [of _ ?P, OF r1 s2]
  note r3 = reachable_step [of _ ?P, OF r2 s3]
  from reachable_step [of _ ?P, OF r3 s4]
  show ?thesis by simp
qed

text \<open>Once the goroutines are started, what they do is part of a run of the process.\<close>

lemma goroutines_run:
  assumes "run (populator_step r) s ls s'" and "set ls \<subseteq> {..<goroutines r}"
  shows "run (process_step r) \<lparr>pr_main = AwaitingGoroutines, pr_sys = s, pr_stderr = lines\<rparr> (map Participant ls)
    \<lparr>pr_main = AwaitingGoroutines, pr_sys = s', pr_stderr = lines\<rparr>"
  using assms
proof (induction rule: run.induct)
  case (run_snoc s ls s' i s'')
  let ?p = "\<lparr>pr_main = AwaitingGoroutines, pr_sys = s', pr_stderr = lines\<rparr>"
  from process_step.goroutine [of i r ?p s''] run_snoc.hyps(2) run_snoc.prems
  have "process_step r ?p (Participant i) \<lparr>pr_main = AwaitingGoroutines, pr_sys = s'', pr_stderr = lines\<rparr>" by simp
  with run_snoc show ?case by (auto intro: run.run_snoc)
qed (simp add: run_Nil)

lemma sample_awaiting:
  "reachable (process_init sample_runner) (process_step sample_runner)
     \<lparr>pr_main = AwaitingGoroutines, pr_sys = one False False [] Initializing None, pr_stderr = []\<rparr>"
proof -
  let ?s = "one False False [] Initializing None"
  let ?p = "\<lambda>m. \<lparr>pr_main = m, pr_sys = ?s, pr_stderr = []\<rparr>"
  let ?q = "(?p Starting)\<lparr>pr_sys := ?s\<lparr>ps_jobs := []\<rparr>\<rparr>"
  have start: "Start (sample_runner\<lparr>stopped := False\<rparr>) = Some (Return (Inr [Return sample_job]))"
    using sample_populator sound_start [of sample_runner False] by (simp add: populator_init_def jobs_of_def)
  have "process_init sample_runner ?q"
    using sample_populator by (simp add: process_init_def populator_init_def one_def)
  moreover have "process_step sample_runner ?q Main (?p (Launching 0))"
    using process_step.start_cut [of ?q sample_runner "[Return sample_job]"] start by (simp add: one_def)
  moreover have "process_step sample_runner (?p (Launching 0)) Main (?p (Launching 1))"
    using process_step.launch [of "?p (Launching 0)" 0 sample_runner] by simp
  moreover have "process_step sample_runner (?p (Launching 1)) Main (?p AwaitingGoroutines)"
    using process_step.launched_all [of "?p (Launching 1)" 1 sample_runner] by simp
  ultimately show ?thesis by (blast intro: reachable_init reachable_step)
qed

theorem populator_exit_status_witness:
  "\<exists>p q. reachable (process_init sample_runner) (process_step sample_runner) p \<and> pr_main p = Exited 1 \<and>
     pr_stderr p = [''Received signal terminated'', ''Error starting runner: Cannot restart a runner.''] \<and>
     rs_stopped (pr_runner p) \<and> (\<forall>i. ps_pub (pr_sys p) i = None) \<and>
     reachable (process_init sample_runner) (process_step sample_runner) q \<and> pr_main q = Exited 1 \<and>
     (\<exists>e es. pr_stderr q = [''Error running: '' @ e] \<and> rs_errs (pr_runner q) = e # es \<and>
       (take 25 e = ''initializing connection: '' \<or> take 12 e = ''publishing: ''))"
proof -
  have sound: "sound_runner sample_runner" using sample_populator by (simp add: populator_init_def)
  let ?p = "early (Exited 1) StopClose True [''Received signal terminated'', ''Error starting runner: Cannot restart a runner.'']"
  have p: "reachable (process_init sample_runner) (process_step sample_runner) ?p"
    using signal_before_start [of "''terminated''"] by simp
  have "rs_stopped (pr_runner ?p) \<and> (\<forall>i. ps_pub (pr_sys ?p) i = None)"
    using populator_exit_status [OF p sound, of 1] by (auto split: if_splits)
  moreover obtain q pub where q: "reachable (process_init sample_runner) (process_step sample_runner) q" "pr_main q = Exited 1"
    "pr_sys q = one True True [''initializing connection: '' @ ''refused''] Finished pub"
    "pr_stderr q = [''Error running: '' @ ''initializing connection: '' @ ''refused'']"
  proof -
    let ?e = "''initializing connection: '' @ ''refused''"
    obtain pub where "run (populator_step sample_runner) (one False False [] Initializing None) [0, 0, 0, 0, 0]
      (one True True [?e] Finished pub)" by (rule sample_refused)
    from goroutines_run [OF this, of "[]"] have go: "run (process_step sample_runner)
        \<lparr>pr_main = AwaitingGoroutines, pr_sys = one False False [] Initializing None, pr_stderr = []\<rparr> (map Participant [0, 0, 0, 0, 0])
        \<lparr>pr_main = AwaitingGoroutines, pr_sys = one True True [?e] Finished pub, pr_stderr = []\<rparr>" by simp
    from sample_awaiting have "reachable (process_init sample_runner) (process_step sample_runner)
        \<lparr>pr_main = AwaitingGoroutines, pr_sys = one True True [?e] Finished pub, pr_stderr = []\<rparr>" (is "reachable _ _ ?w")
      unfolding reachable_def using run_append [OF _ go] by blast
    moreover have "process_step sample_runner ?w Main (?w\<lparr>pr_main := Exited 1, pr_stderr := [''Error running: '' @ ?e]\<rparr>)"
      using process_step.wait_error [of ?w sample_runner ?e] by (simp add: Wait_def all_finished_def)
    ultimately have r: "reachable (process_init sample_runner) (process_step sample_runner)
        (?w\<lparr>pr_main := Exited 1, pr_stderr := [''Error running: '' @ ?e]\<rparr>)" by (rule reachable_step)
    show thesis by (rule that [of _ pub, OF r]) simp_all
  qed
  from populator_exit_status [OF q(1) sound q(2)] q(3,4) have "\<exists>e es. pr_stderr q = [''Error running: '' @ e] \<and> rs_errs (pr_runner q) = e # es \<and>
       (take 25 e = ''initializing connection: '' \<or> take 12 e = ''publishing: '')"
    by (auto simp: one_def)
  ultimately show ?thesis using p q(1,2) by (intro exI [of _ ?p] exI [of _ q]) simp
qed

end
