(* ===== verification/Fakes.thy ===== *)
theory Fakes
  imports Subscriber Publisher
begin

text \<open>
  Model of the test doubles that the suites give to the subscriber, the server and the publisher
  (\<open>mbus/fakes\<close>, \<open>routes/fakes\<close> and \<open>publisher/fakes\<close>). They were generated by one tool, so that the code of
  a method is that of every other up to the names and types: the pattern is modelled once, and each
  method is an instance of it. Pointers that a fake only stores are opaque. A stub with a result is a
  function; of a stub without one the calls are kept, since what it does is outside the fake. The
  mutexes are the subject of the last section.
\<close>

section \<open>The pattern\<close>

type_synonym pointer = "nat option"

text \<open>The dynamic values in a recorded invocation.\<close>

datatype any =
    AnyString string
  | AnyStrings "string list"
  | AnyInt int
  | AnyMsg nats_Msg
  | AnyHandler handler
  | AnyPointers "pointer list"

type_synonym invocations = "string \<rightharpoonup> any list list"

text \<open>The fields of a method with a result, and of one without.\<close>

record ('a, 'r) fake_method =
  fm_Stub :: "('a \<Rightarrow> 'r) option"
  fm_args :: "'a list"
  fm_returns :: 'r
  fm_returnsOnCall :: "int \<rightharpoonup> 'r"

text \<open>A stub without a result is there or not; the calls that it got are part of the state.\<close>

record 'a fake_void =
  fv_Stub :: bool
  fv_args :: "'a list"
  fv_stub_calls :: "'a list"

text \<open>
  A call: the result prepared for this call is looked up under the number of earlier calls, then the
  arguments are recorded. A stub comes before a prepared result, and that before the general one.
\<close>

definition fake_call :: "'a \<Rightarrow> ('a, 'r) fake_method \<Rightarrow> 'r \<times> ('a, 'r) fake_method" where
  "fake_call a m =
     (let ret = fm_returnsOnCall m (int (length (fm_args m)));
          m' = m\<lparr>fm_args := fm_args m @ [a]\<rparr>
      in (case fm_Stub m' of
            Some stub \<Rightarrow> stub a
          | None \<Rightarrow> (case ret of Some result \<Rightarrow> result | None \<Rightarrow> fm_returns m'), m'))"

definition fake_void_call :: "'a \<Rightarrow> 'a fake_void \<Rightarrow> 'a fake_void" where
  "fake_void_call a m =
     (let m' = m\<lparr>fv_args := fv_args m @ [a]\<rparr>
      in if fv_Stub m' then m'\<lparr>fv_stub_calls := fv_stub_calls m' @ [a]\<rparr> else m')"

definition fake_returns :: "'r \<Rightarrow> ('a, 'r) fake_method \<Rightarrow> ('a, 'r) fake_method" where
  "fake_returns result m = m\<lparr>fm_Stub := None, fm_returns := result\<rparr>"

definition fake_returns_on_call :: "int \<Rightarrow> 'r \<Rightarrow> ('a, 'r) fake_method \<Rightarrow> ('a, 'r) fake_method" where
  "fake_returns_on_call i result m = m\<lparr>fm_Stub := None, fm_returnsOnCall := (fm_returnsOnCall m)(i \<mapsto> result)\<rparr>"

definition at_index :: "int \<Rightarrow> 'a list \<Rightarrow> 'a outcome" where
  "at_index i xs = (if 0 \<le> i \<and> i < int (length xs) then Return (xs ! nat i) else Panic IndexOutOfRange)"

definition record_invocation :: "string \<Rightarrow> any list \<Rightarrow> invocations \<Rightarrow> invocations" where
  "record_invocation key args recorded = recorded(key \<mapsto> (case recorded key of None \<Rightarrow> [] | Some calls \<Rightarrow> calls) @ [args])"

section \<open>\<open>NatsConn\<close> of \<open>service-discovery-controller/mbus/fakes/nats_conn.go\<close>\<close>

record FakeNatsConn =
  fnc_PublishMsg :: "(nats_Msg, go_error option) fake_method"
  fnc_Close :: "unit fake_void"
  fnc_Flush :: "(unit, go_error option) fake_method"
  fnc_ConnectedUrl :: "(unit, string) fake_method"
  fnc_Subscribe :: "(string \<times> handler, pointer \<times> go_error option) fake_method"
  fnc_invocations :: invocations

definition FakeNatsConn_recordInvocation :: "string \<Rightarrow> any list \<Rightarrow> FakeNatsConn \<Rightarrow> FakeNatsConn" where
  "FakeNatsConn_recordInvocation key args f =
     f\<lparr>fnc_invocations := record_invocation key args (fnc_invocations f)\<rparr>"

definition FakeNatsConn_PublishMsg :: "nats_Msg \<Rightarrow> FakeNatsConn \<Rightarrow> (go_error option) \<times> FakeNatsConn" where
  "FakeNatsConn_PublishMsg m f =
     (let (result, meth) = fake_call m (fnc_PublishMsg f)
      in (result, FakeNatsConn_recordInvocation ''PublishMsg'' [AnyMsg m] (f\<lparr>fnc_PublishMsg := meth\<rparr>)))"

definition FakeNatsConn_PublishMsgCallCount :: "FakeNatsConn \<Rightarrow> int" where
  "FakeNatsConn_PublishMsgCallCount f = int (length (fm_args (fnc_PublishMsg f)))"

definition FakeNatsConn_PublishMsgArgsForCall :: "int \<Rightarrow> FakeNatsConn \<Rightarrow> nats_Msg outcome" where
  "FakeNatsConn_PublishMsgArgsForCall i f = at_index i (fm_args (fnc_PublishMsg f))"

definition FakeNatsConn_PublishMsgReturns :: "(go_error option) \<Rightarrow> FakeNatsConn \<Rightarrow> FakeNatsConn" where
  "FakeNatsConn_PublishMsgReturns result1 f = f\<lparr>fnc_PublishMsg := fake_returns result1 (fnc_PublishMsg f)\<rparr>"

definition FakeNatsConn_PublishMsgReturnsOnCall :: "int \<Rightarrow> (go_error option) \<Rightarrow> FakeNatsConn \<Rightarrow> FakeNatsConn" where
  "FakeNatsConn_PublishMsgReturnsOnCall i result1 f = f\<lparr>fnc_PublishMsg := fake_returns_on_call i result1 (fnc_PublishMsg f)\<rparr>"

definition FakeNatsConn_Close :: "FakeNatsConn \<Rightarrow> FakeNatsConn" where
  "FakeNatsConn_Close f =
     FakeNatsConn_recordInvocation ''Close'' [] (f\<lparr>fnc_Close := fake_void_call () (fnc_Close f)\<rparr>)"

definition FakeNatsConn_CloseCallCount :: "FakeNatsConn \<Rightarrow> int" where
  "FakeNatsConn_CloseCallCount f = int (length (fv_args (fnc_Close f)))"

definition FakeNatsConn_Flush :: "FakeNatsConn \<Rightarrow> (go_error option) \<times> FakeNatsConn" where
  "FakeNatsConn_Flush f =
     (let (result, meth) = fake_call () (fnc_Flush f)
      in (result, FakeNatsConn_recordInvocation ''Flush'' [] (f\<lparr>fnc_Flush := meth\<rparr>)))"

definition FakeNatsConn_FlushCallCount :: "FakeNatsConn \<Rightarrow> int" where
  "FakeNatsConn_FlushCallCount f = int (length (fm_args (fnc_Flush f)))"

definition FakeNatsConn_FlushReturns :: "(go_error option) \<Rightarrow> FakeNatsConn \<Rightarrow> FakeNatsConn" where
  "FakeNatsConn_FlushReturns result1 f = f\<lparr>fnc_Flush := fake_returns result1 (fnc_Flush f)\<rparr>"

definition FakeNatsConn_FlushReturnsOnCall :: "int \<Rightarrow> (go_error option) \<Rightarrow> FakeNatsConn \<Rightarrow> FakeNatsConn" where
  "FakeNatsConn_FlushReturnsOnCall i result1 f = f\<lparr>fnc_Flush := fake_returns_on_call i result1 (fnc_Flush f)\<rparr>"

definition FakeNatsConn_ConnectedUrl :: "FakeNatsConn \<Rightarrow> string \<times> FakeNatsConn" where
  "FakeNatsConn_ConnectedUrl f =
     (let (result, meth) = fake_call () (fnc_ConnectedUrl f)
      in (result, FakeNatsConn_recordInvocation ''ConnectedUrl'' [] (f\<lparr>fnc_ConnectedUrl := meth\<rparr>)))"

definition FakeNatsConn_ConnectedUrlCallCount :: "FakeNatsConn \<Rightarrow> int" where
  "FakeNatsConn_ConnectedUrlCallCount f = int (length (fm_args (fnc_ConnectedUrl f)))"

definition FakeNatsConn_ConnectedUrlReturns :: "string \<Rightarrow> FakeNatsConn \<Rightarrow> FakeNatsConn" where
  "FakeNatsConn_ConnectedUrlReturns result1 f = f\<lparr>fnc_ConnectedUrl := fake_returns result1 (fnc_ConnectedUrl f)\<rparr>"

definition FakeNatsConn_ConnectedUrlReturnsOnCall :: "int \<Rightarrow> string \<Rightarrow> FakeNatsConn \<Rightarrow> FakeNatsConn" where
  "FakeNatsConn_ConnectedUrlReturnsOnCall i result1 f = f\<lparr>fnc_ConnectedUrl := fake_returns_on_call i result1 (fnc_ConnectedUrl f)\<rparr>"

definition FakeNatsConn_Subscribe :: "string \<Rightarrow> handler \<Rightarrow> FakeNatsConn \<Rightarrow> (pointer \<times> go_error option) \<times> FakeNatsConn" where
  "FakeNatsConn_Subscribe arg1 arg2 f =
     (let (result, meth) = fake_call (arg1, arg2) (fnc_Subscribe f)
      in (result, FakeNatsConn_recordInvocation ''Subscribe'' [AnyString arg1, AnyHandler arg2] (f\<lparr>fnc_Subscribe := meth\<rparr>)))"

definition FakeNatsConn_SubscribeCallCount :: "FakeNatsConn \<Rightarrow> int" where
  "FakeNatsConn_SubscribeCallCount f = int (length (fm_args (fnc_Subscribe f)))"

definition FakeNatsConn_SubscribeArgsForCall :: "int \<Rightarrow> FakeNatsConn \<Rightarrow> (string \<times> handler) outcome" where
  "FakeNatsConn_SubscribeArgsForCall i f = at_index i (fm_args (fnc_Subscribe f))"

definition FakeNatsConn_SubscribeReturns :: "pointer \<Rightarrow> (go_error option) \<Rightarrow> FakeNatsConn \<Rightarrow> FakeNatsConn" where
  "FakeNatsConn_SubscribeReturns result1 result2 f = f\<lparr>fnc_Subscribe := fake_returns (result1, result2) (fnc_Subscribe f)\<rparr>"

definition FakeNatsConn_SubscribeReturnsOnCall :: "int \<Rightarrow> pointer \<Rightarrow> (go_error option) \<Rightarrow> FakeNatsConn \<Rightarrow> FakeNatsConn" where
  "FakeNatsConn_SubscribeReturnsOnCall i result1 result2 f = f\<lparr>fnc_Subscribe := fake_returns_on_call i (result1, result2) (fnc_Subscribe f)\<rparr>"

definition FakeNatsConn_Invocations :: "FakeNatsConn \<Rightarrow> invocations" where
  "FakeNatsConn_Invocations f = fnc_invocations f"

section \<open>\<open>AddressTable\<close> of \<open>service-discovery-controller/mbus/fakes/address_table.go\<close>\<close>

record FakeMbusTable =
  fmt_Add :: "(string list \<times> string) fake_void"
  fmt_Remove :: "(string list \<times> string) fake_void"
  fmt_PausePruning :: "unit fake_void"
  fmt_ResumePruning :: "unit fake_void"
  fmt_SetWarm :: "unit fake_void"
  fmt_invocations :: invocations

definition FakeMbusTable_recordInvocation :: "string \<Rightarrow> any list \<Rightarrow> FakeMbusTable \<Rightarrow> FakeMbusTable" where
  "FakeMbusTable_recordInvocation key args f =
     f\<lparr>fmt_invocations := record_invocation key args (fmt_invocations f)\<rparr>"

definition FakeMbusTable_Add :: "(string list) \<Rightarrow> string \<Rightarrow> FakeMbusTable \<Rightarrow> FakeMbusTable" where
  "FakeMbusTable_Add infraNames ip f =
     FakeMbusTable_recordInvocation ''Add'' [AnyStrings infraNames, AnyString ip] (f\<lparr>fmt_Add := fake_void_call (infraNames, ip) (fmt_Add f)\<rparr>)"

definition FakeMbusTable_AddCallCount :: "FakeMbusTable \<Rightarrow> int" where
  "FakeMbusTable_AddCallCount f = int (length (fv_args (fmt_Add f)))"

definition FakeMbusTable_AddArgsForCall :: "int \<Rightarrow> FakeMbusTable \<Rightarrow> (string list \<times> string) outcome" where
  "FakeMbusTable_AddArgsForCall i f = at_index i (fv_args (fmt_Add f))"

definition FakeMbusTable_Remove :: "(string list) \<Rightarrow> string \<Rightarrow> FakeMbusTable \<Rightarrow> FakeMbusTable" where
  "FakeMbusTable_Remove infraNames ip f =
     FakeMbusTable_recordInvocation ''Remove'' [AnyStrings infraNames, AnyString ip] (f\<lparr>fmt_Remove := fake_void_call (infraNames, ip) (fmt_Remove f)\<rparr>)"

definition FakeMbusTable_RemoveCallCount :: "FakeMbusTable \<Rightarrow> int" where
  "FakeMbusTable_RemoveCallCount f = int (length (fv_args (fmt_Remove f)))"

definition FakeMbusTable_RemoveArgsForCall :: "int \<Rightarrow> FakeMbusTable \<Rightarrow> (string list \<times> string) outcome" where
  "FakeMbusTable_RemoveArgsForCall i f = at_index i (fv_args (fmt_Remove f))"

definition FakeMbusTable_PausePruning :: "FakeMbusTable \<Rightarrow> FakeMbusTable" where
  "FakeMbusTable_PausePruning f =
     FakeMbusTable_recordInvocation ''PausePruning'' [] (f\<lparr>fmt_PausePruning := fake_void_call () (fmt_PausePruning f)\<rparr>)"

definition FakeMbusTable_PausePruningCallCount :: "FakeMbusTable \<Rightarrow> int" where
  "FakeMbusTable_PausePruningCallCount f = int (length (fv_args (fmt_PausePruning f)))"

definition FakeMbusTable_ResumePruning :: "FakeMbusTable \<Rightarrow> FakeMbusTable" where
  "FakeMbusTable_ResumePruning f =
     FakeMbusTable_recordInvocation ''ResumePruning'' [] (f\<lparr>fmt_ResumePruning := fake_void_call () (fmt_ResumePruning f)\<rparr>)"

definition FakeMbusTable_ResumePruningCallCount :: "FakeMbusTable \<Rightarrow> int" where
  "FakeMbusTable_ResumePruningCallCount f = int (length (fv_args (fmt_ResumePruning f)))"

definition FakeMbusTable_SetWarm :: "FakeMbusTable \<Rightarrow> FakeMbusTable" where
  "FakeMbusTable_SetWarm f =
     FakeMbusTable_recordInvocation ''SetWarm'' [] (f\<lparr>fmt_SetWarm := fake_void_call () (fmt_SetWarm f)\<rparr>)"

definition FakeMbusTable_SetWarmCallCount :: "FakeMbusTable \<Rightarrow> int" where
  "FakeMbusTable_SetWarmCallCount f = int (length (fv_args (fmt_SetWarm f)))"

definition FakeMbusTable_Invocations :: "FakeMbusTable \<Rightarrow> invocations" where
  "FakeMbusTable_Invocations f = fmt_invocations f"

section \<open>\<open>NatsConnProvider\<close> of \<open>service-discovery-controller/mbus/fakes/nats_conn_provider.go\<close>\<close>

record FakeNatsConnProvider =
  fcp_Connection :: "(pointer list, pointer \<times> go_error option) fake_method"
  fcp_invocations :: invocations

definition FakeNatsConnProvider_recordInvocation :: "string \<Rightarrow> any list \<Rightarrow> FakeNatsConnProvider \<Rightarrow> FakeNatsConnProvider" where
  "FakeNatsConnProvider_recordInvocation key args f =
     f\<lparr>fcp_invocations := record_invocation key args (fcp_invocations f)\<rparr>"

definition FakeNatsConnProvider_Connection :: "(pointer list) \<Rightarrow> FakeNatsConnProvider \<Rightarrow> (pointer \<times> go_error option) \<times> FakeNatsConnProvider" where
  "FakeNatsConnProvider_Connection opts f =
     (let (result, meth) = fake_call opts (fcp_Connection f)
      in (result, FakeNatsConnProvider_recordInvocation ''Connection'' [AnyPointers opts] (f\<lparr>fcp_Connection := meth\<rparr>)))"

definition FakeNatsConnProvider_ConnectionCallCount :: "FakeNatsConnProvider \<Rightarrow> int" where
  "FakeNatsConnProvider_ConnectionCallCount f = int (length (fm_args (fcp_Connection f)))"

definition FakeNatsConnProvider_ConnectionArgsForCall :: "int \<Rightarrow> FakeNatsConnProvider \<Rightarrow> (pointer list) outcome" where
  "FakeNatsConnProvider_ConnectionArgsForCall i f = at_index i (fm_args (fcp_Connection f))"

definition FakeNatsConnProvider_ConnectionReturns :: "pointer \<Rightarrow> (go_error option) \<Rightarrow> FakeNatsConnProvider \<Rightarrow> FakeNatsConnProvider" where
  "FakeNatsConnProvider_ConnectionReturns result1 result2 f = f\<lparr>fcp_Connection := fake_returns (result1, result2) (fcp_Connection f)\<rparr>"

definition FakeNatsConnProvider_ConnectionReturnsOnCall :: "int \<Rightarrow> pointer \<Rightarrow> (go_error option) \<Rightarrow> FakeNatsConnProvider \<Rightarrow> FakeNatsConnProvider" where
  "FakeNatsConnProvider_ConnectionReturnsOnCall i result1 result2 f = f\<lparr>fcp_Connection := fake_returns_on_call i (result1, result2) (fcp_Connection f)\<rparr>"

definition FakeNatsConnProvider_Invocations :: "FakeNatsConnProvider \<Rightarrow> invocations" where
  "FakeNatsConnProvider_Invocations f = fcp_invocations f"

section \<open>\<open>MetricsSender\<close> of \<open>service-discovery-controller/mbus/fakes/metrics_sender.go\<close>\<close>

record FakeMbusMetricsSender =
  fms_IncrementCounter :: "string fake_void"
  fms_invocations :: invocations

definition FakeMbusMetricsSender_recordInvocation :: "string \<Rightarrow> any list \<Rightarrow> FakeMbusMetricsSender \<Rightarrow> FakeMbusMetricsSender" where
  "FakeMbusMetricsSender_recordInvocation key args f =
     f\<lparr>fms_invocations := record_invocation key args (fms_invocations f)\<rparr>"

definition FakeMbusMetricsSender_IncrementCounter :: "string \<Rightarrow> FakeMbusMetricsSender \<Rightarrow> FakeMbusMetricsSender" where
  "FakeMbusMetricsSender_IncrementCounter arg1 f =
     FakeMbusMetricsSender_recordInvocation ''IncrementCounter'' [AnyString arg1] (f\<lparr>fms_IncrementCounter := fake_void_call arg1 (fms_IncrementCounter f)\<rparr>)"

definition FakeMbusMetricsSender_IncrementCounterCallCount :: "FakeMbusMetricsSender \<Rightarrow> int" where
  "FakeMbusMetricsSender_IncrementCounterCallCount f = int (length (fv_args (fms_IncrementCounter f)))"

definition FakeMbusMetricsSender_IncrementCounterArgsForCall :: "int \<Rightarrow> FakeMbusMetricsSender \<Rightarrow> string outcome" where
  "FakeMbusMetricsSender_IncrementCounterArgsForCall i f = at_index i (fv_args (fms_IncrementCounter f))"

definition FakeMbusMetricsSender_Invocations :: "FakeMbusMetricsSender \<Rightarrow> invocations" where
  "FakeMbusMetricsSender_Invocations f = fms_invocations f"

section \<open>\<open>RouteMessageRecorder\<close> of \<open>service-discovery-controller/mbus/fakes/route_message_recorder.go\<close>\<close>

record FakeRouteMessageRecorder =
  frr_RecordMessageTransitTime :: "int fake_void"
  frr_invocations :: invocations

definition FakeRouteMessageRecorder_recordInvocation :: "string \<Rightarrow> any list \<Rightarrow> FakeRouteMessageRecorder \<Rightarrow> FakeRouteMessageRecorder" where
  "FakeRouteMessageRecorder_recordInvocation key args f =
     f\<lparr>frr_invocations := record_invocation key args (frr_invocations f)\<rparr>"

definition FakeRouteMessageRecorder_RecordMessageTransitTime :: "int \<Rightarrow> FakeRouteMessageRecorder \<Rightarrow> FakeRouteMessageRecorder" where
  "FakeRouteMessageRecorder_RecordMessageTransitTime time f =
     FakeRouteMessageRecorder_recordInvocation ''RecordMessageTransitTime'' [AnyInt time] (f\<lparr>frr_RecordMessageTransitTime := fake_void_call time (frr_RecordMessageTransitTime f)\<rparr>)"

definition FakeRouteMessageRecorder_RecordMessageTransitTimeCallCount :: "FakeRouteMessageRecorder \<Rightarrow> int" where
  "FakeRouteMessageRecorder_RecordMessageTransitTimeCallCount f = int (length (fv_args (frr_RecordMessageTransitTime f)))"

definition FakeRouteMessageRecorder_RecordMessageTransitTimeArgsForCall :: "int \<Rightarrow> FakeRouteMessageRecorder \<Rightarrow> int outcome" where
  "FakeRouteMessageRecorder_RecordMessageTransitTimeArgsForCall i f = at_index i (fv_args (frr_RecordMessageTransitTime f))"

definition FakeRouteMessageRecorder_Invocations :: "FakeRouteMessageRecorder \<Rightarrow> invocations" where
  "FakeRouteMessageRecorder_Invocations f = frr_invocations f"

section \<open>\<open>AddressTable\<close> of \<open>service-discovery-controller/routes/fakes/address_table.go\<close>\<close>

record FakeRoutesTable =
  frt_Lookup :: "(string, string list) fake_method"
  frt_GetAllAddresses :: "(unit, string \<rightharpoonup> string list) fake_method"
  frt_IsWarm :: "(unit, bool) fake_method"
  frt_invocations :: invocations

definition FakeRoutesTable_recordInvocation :: "string \<Rightarrow> any list \<Rightarrow> FakeRoutesTable \<Rightarrow> FakeRoutesTable" where
  "FakeRoutesTable_recordInvocation key args f =
     f\<lparr>frt_invocations := record_invocation key args (frt_invocations f)\<rparr>"

definition FakeRoutesTable_Lookup :: "string \<Rightarrow> FakeRoutesTable \<Rightarrow> (string list) \<times> FakeRoutesTable" where
  "FakeRoutesTable_Lookup hostname f =
     (let (result, meth) = fake_call hostname (frt_Lookup f)
      in (result, FakeRoutesTable_recordInvocation ''Lookup'' [AnyString hostname] (f\<lparr>frt_Lookup := meth\<rparr>)))"

definition FakeRoutesTable_LookupCallCount :: "FakeRoutesTable \<Rightarrow> int" where
  "FakeRoutesTable_LookupCallCount f = int (length (fm_args (frt_Lookup f)))"

definition FakeRoutesTable_LookupArgsForCall :: "int \<Rightarrow> FakeRoutesTable \<Rightarrow> string outcome" where
  "FakeRoutesTable_LookupArgsForCall i f = at_index i (fm_args (frt_Lookup f))"

definition FakeRoutesTable_LookupReturns :: "(string list) \<Rightarrow> FakeRoutesTable \<Rightarrow> FakeRoutesTable" where
  "FakeRoutesTable_LookupReturns result1 f = f\<lparr>frt_Lookup := fake_returns result1 (frt_Lookup f)\<rparr>"

definition FakeRoutesTable_LookupReturnsOnCall :: "int \<Rightarrow> (string list) \<Rightarrow> FakeRoutesTable \<Rightarrow> FakeRoutesTable" where
  "FakeRoutesTable_LookupReturnsOnCall i result1 f = f\<lparr>frt_Lookup := fake_returns_on_call i result1 (frt_Lookup f)\<rparr>"

definition FakeRoutesTable_GetAllAddresses :: "FakeRoutesTable \<Rightarrow> (string \<rightharpoonup> string list) \<times> FakeRoutesTable" where
  "FakeRoutesTable_GetAllAddresses f =
     (let (result, meth) = fake_call () (frt_GetAllAddresses f)
      in (result, FakeRoutesTable_recordInvocation ''GetAllAddresses'' [] (f\<lparr>frt_GetAllAddresses := meth\<rparr>)))"

definition FakeRoutesTable_GetAllAddressesCallCount :: "FakeRoutesTable \<Rightarrow> int" where
  "FakeRoutesTable_GetAllAddressesCallCount f = int (length (fm_args (frt_GetAllAddresses f)))"

definition FakeRoutesTable_GetAllAddressesReturns :: "(string \<rightharpoonup> string list) \<Rightarrow> FakeRoutesTable \<Rightarrow> FakeRoutesTable" where
  "FakeRoutesTable_GetAllAddressesReturns result1 f = f\<lparr>frt_GetAllAddresses := fake_returns result1 (frt_GetAllAddresses f)\<rparr>"

definition FakeRoutesTable_GetAllAddressesReturnsOnCall :: "int \<Rightarrow> (string \<rightharpoonup> string list) \<Rightarrow> FakeRoutesTable \<Rightarrow> FakeRoutesTable" where
  "FakeRoutesTable_GetAllAddressesReturnsOnCall i result1 f = f\<lparr>frt_GetAllAddresses := fake_returns_on_call i result1 (frt_GetAllAddresses f)\<rparr>"

definition FakeRoutesTable_IsWarm :: "FakeRoutesTable \<Rightarrow> bool \<times> FakeRoutesTable" where
  "FakeRoutesTable_IsWarm f =
     (let (result, meth) = fake_call () (frt_IsWarm f)
      in (result, FakeRoutesTable_recordInvocation ''IsWarm'' [] (f\<lparr>frt_IsWarm := meth\<rparr>)))"

definition FakeRoutesTable_IsWarmCallCount :: "FakeRoutesTable \<Rightarrow> int" where
  "FakeRoutesTable_IsWarmCallCount f = int (length (fm_args (frt_IsWarm f)))"

definition FakeRoutesTable_IsWarmReturns :: "bool \<Rightarrow> FakeRoutesTable \<Rightarrow> FakeRoutesTable" where
  "FakeRoutesTable_IsWarmReturns result1 f = f\<lparr>frt_IsWarm := fake_returns result1 (frt_IsWarm f)\<rparr>"

definition FakeRoutesTable_IsWarmReturnsOnCall :: "int \<Rightarrow> bool \<Rightarrow> FakeRoutesTable \<Rightarrow> FakeRoutesTable" where
  "FakeRoutesTable_IsWarmReturnsOnCall i result1 f = f\<lparr>frt_IsWarm := fake_returns_on_call i result1 (frt_IsWarm f)\<rparr>"

definition FakeRoutesTable_Invocations :: "FakeRoutesTable \<Rightarrow> invocations" where
  "FakeRoutesTable_Invocations f = frt_invocations f"

section \<open>\<open>DNSRequestRecorder\<close> of \<open>service-discovery-controller/routes/fakes/dns_request_recorder.go\<close>\<close>

record FakeDNSRequestRecorder =
  fdr_RecordRequest :: "unit fake_void"
  fdr_invocations :: invocations

definition FakeDNSRequestRecorder_recordInvocation :: "string \<Rightarrow> any list \<Rightarrow> FakeDNSRequestRecorder \<Rightarrow> FakeDNSRequestRecorder" where
  "FakeDNSRequestRecorder_recordInvocation key args f =
     f\<lparr>fdr_invocations := record_invocation key args (fdr_invocations f)\<rparr>"

definition FakeDNSRequestRecorder_RecordRequest :: "FakeDNSRequestRecorder \<Rightarrow> FakeDNSRequestRecorder" where
  "FakeDNSRequestRecorder_RecordRequest f =
     FakeDNSRequestRecorder_recordInvocation ''RecordRequest'' [] (f\<lparr>fdr_RecordRequest := fake_void_call () (fdr_RecordRequest f)\<rparr>)"

definition FakeDNSRequestRecorder_RecordRequestCallCount :: "FakeDNSRequestRecorder \<Rightarrow> int" where
  "FakeDNSRequestRecorder_RecordRequestCallCount f = int (length (fv_args (fdr_RecordRequest f)))"

definition FakeDNSRequestRecorder_Invocations :: "FakeDNSRequestRecorder \<Rightarrow> invocations" where
  "FakeDNSRequestRecorder_Invocations f = fdr_invocations f"

section \<open>\<open>MetricsSender\<close> of \<open>service-discovery-controller/routes/fakes/metrics_sender.go\<close>\<close>

record FakeRoutesMetricsSender =
  frs_SendDuration :: "(string \<times> duration) fake_void"
  frs_invocations :: invocations

definition FakeRoutesMetricsSender_recordInvocation :: "string \<Rightarrow> any list \<Rightarrow> FakeRoutesMetricsSender \<Rightarrow> FakeRoutesMetricsSender" where
  "FakeRoutesMetricsSender_recordInvocation key args f =
     f\<lparr>frs_invocations := record_invocation key args (frs_invocations f)\<rparr>"

definition FakeRoutesMetricsSender_SendDuration :: "string \<Rightarrow> duration \<Rightarrow> FakeRoutesMetricsSender \<Rightarrow> FakeRoutesMetricsSender" where
  "FakeRoutesMetricsSender_SendDuration arg1 arg2 f =
     FakeRoutesMetricsSender_recordInvocation ''SendDuration'' [AnyString arg1, AnyInt arg2] (f\<lparr>frs_SendDuration := fake_void_call (arg1, arg2) (frs_SendDuration f)\<rparr>)"

definition FakeRoutesMetricsSender_SendDurationCallCount :: "FakeRoutesMetricsSender \<Rightarrow> int" where
  "FakeRoutesMetricsSender_SendDurationCallCount f = int (length (fv_args (frs_SendDuration f)))"

definition FakeRoutesMetricsSender_SendDurationArgsForCall :: "int \<Rightarrow> FakeRoutesMetricsSender \<Rightarrow> (string \<times> duration) outcome" where
  "FakeRoutesMetricsSender_SendDurationArgsForCall i f = at_index i (fv_args (frs_SendDuration f))"

definition FakeRoutesMetricsSender_Invocations :: "FakeRoutesMetricsSender \<Rightarrow> invocations" where
  "FakeRoutesMetricsSender_Invocations f = frs_invocations f"

section \<open>\<open>FakePublishingConnection\<close> of \<open>route_populator/publisher/fakes\<close>\<close>

text \<open>An older version of the tool: no results per call and no record of invocations.\<close>

record FakePublishingConnection =
  PublishStub :: "(string \<times> string \<Rightarrow> go_error option) option"
  publishArgsForCall :: "(string \<times> string) list"
  publishReturns :: "go_error option"
  CloseStub :: bool
  closeArgsForCall :: "unit list"
  closeStubCalls :: "unit list"

definition FakePublishingConnection_Publish ::
    "string \<Rightarrow> string \<Rightarrow> FakePublishingConnection \<Rightarrow> go_error option \<times> FakePublishingConnection" where
  "FakePublishingConnection_Publish subj data f =
     (let f' = f\<lparr>publishArgsForCall := publishArgsForCall f @ [(subj, data)]\<rparr>
      in (case PublishStub f' of Some stub \<Rightarrow> stub (subj, data) | None \<Rightarrow> publishReturns f', f'))"

definition FakePublishingConnection_PublishCallCount :: "FakePublishingConnection \<Rightarrow> int" where
  "FakePublishingConnection_PublishCallCount f = int (length (publishArgsForCall f))"

definition FakePublishingConnection_PublishArgsForCall ::
    "int \<Rightarrow> FakePublishingConnection \<Rightarrow> (string \<times> string) outcome" where
  "FakePublishingConnection_PublishArgsForCall i f = at_index i (publishArgsForCall f)"

definition FakePublishingConnection_PublishReturns ::
    "go_error option \<Rightarrow> FakePublishingConnection \<Rightarrow> FakePublishingConnection" where
  "FakePublishingConnection_PublishReturns result1 f = f\<lparr>PublishStub := None, publishReturns := result1\<rparr>"

definition FakePublishingConnection_Close :: "FakePublishingConnection \<Rightarrow> FakePublishingConnection" where
  "FakePublishingConnection_Close f =
     (let f' = f\<lparr>closeArgsForCall := closeArgsForCall f @ [()]\<rparr>
      in if CloseStub f' then f'\<lparr>closeStubCalls := closeStubCalls f' @ [()]\<rparr> else f')"

definition FakePublishingConnection_CloseCallCount :: "FakePublishingConnection \<Rightarrow> int" where
  "FakePublishingConnection_CloseCallCount f = int (length (closeArgsForCall f))"

section \<open>What a fake records\<close>

text \<open>The calls recorded under a name, none if there is no entry.\<close>

definition recorded_calls :: "string \<Rightarrow> invocations \<Rightarrow> any list list" where
  "recorded_calls key recorded = (case recorded key of None \<Rightarrow> [] | Some calls \<Rightarrow> calls)"

lemma recorded_calls_record [simp]:
  "recorded_calls key (record_invocation key' args recorded) =
     (if key = key' then recorded_calls key recorded @ [args] else recorded_calls key recorded)"
  by (simp add: recorded_calls_def record_invocation_def)

text \<open>The operations of the fake connection: the five methods, and the preparation of their results.\<close>

datatype conn_op =
    OpPublishMsg nats_Msg | OpClose | OpFlush | OpConnectedUrl | OpSubscribe string handler
  | OpPublishMsgReturns "go_error option" | OpPublishMsgReturnsOnCall int "go_error option"
  | OpFlushReturns "go_error option" | OpFlushReturnsOnCall int "go_error option"
  | OpConnectedUrlReturns string | OpConnectedUrlReturnsOnCall int string
  | OpSubscribeReturns pointer "go_error option" | OpSubscribeReturnsOnCall int pointer "go_error option"

fun conn_apply :: "conn_op \<Rightarrow> FakeNatsConn \<Rightarrow> FakeNatsConn" where
  "conn_apply (OpPublishMsg m) f = snd (FakeNatsConn_PublishMsg m f)"
| "conn_apply OpClose f = FakeNatsConn_Close f"
| "conn_apply OpFlush f = snd (FakeNatsConn_Flush f)"
| "conn_apply OpConnectedUrl f = snd (FakeNatsConn_ConnectedUrl f)"
| "conn_apply (OpSubscribe subject h) f = snd (FakeNatsConn_Subscribe subject h f)"
| "conn_apply (OpPublishMsgReturns r) f = FakeNatsConn_PublishMsgReturns r f"
| "conn_apply (OpPublishMsgReturnsOnCall i r) f = FakeNatsConn_PublishMsgReturnsOnCall i r f"
| "conn_apply (OpFlushReturns r) f = FakeNatsConn_FlushReturns r f"
| "conn_apply (OpFlushReturnsOnCall i r) f = FakeNatsConn_FlushReturnsOnCall i r f"
| "conn_apply (OpConnectedUrlReturns r) f = FakeNatsConn_ConnectedUrlReturns r f"
| "conn_apply (OpConnectedUrlReturnsOnCall i r) f = FakeNatsConn_ConnectedUrlReturnsOnCall i r f"
| "conn_apply (OpSubscribeReturns p r) f = FakeNatsConn_SubscribeReturns p r f"
| "conn_apply (OpSubscribeReturnsOnCall i p r) f = FakeNatsConn_SubscribeReturnsOnCall i p r f"

lemmas conn_defs =
  FakeNatsConn_PublishMsg_def FakeNatsConn_Close_def FakeNatsConn_Flush_def FakeNatsConn_ConnectedUrl_def
  FakeNatsConn_Subscribe_def FakeNatsConn_PublishMsgReturns_def FakeNatsConn_PublishMsgReturnsOnCall_def
  FakeNatsConn_FlushReturns_def FakeNatsConn_FlushReturnsOnCall_def FakeNatsConn_ConnectedUrlReturns_def
  FakeNatsConn_ConnectedUrlReturnsOnCall_def FakeNatsConn_SubscribeReturns_def FakeNatsConn_SubscribeReturnsOnCall_def
  FakeNatsConn_recordInvocation_def fake_returns_def fake_returns_on_call_def

lemma fake_call_args [simp]: "fm_args (snd (fake_call a m)) = fm_args m @ [a]"
  by (simp add: fake_call_def Let_def)

lemma fake_call_fields [simp]:
  "fm_Stub (snd (fake_call a m)) = fm_Stub m" "fm_returns (snd (fake_call a m)) = fm_returns m"
  "fm_returnsOnCall (snd (fake_call a m)) = fm_returnsOnCall m"
  by (simp_all add: fake_call_def Let_def)

text \<open>The arguments and the invocations say the same.\<close>

definition conn_agrees :: "FakeNatsConn \<Rightarrow> bool" where
  "conn_agrees f \<longleftrightarrow>
     recorded_calls ''PublishMsg'' (fnc_invocations f) = map (\<lambda>m. [AnyMsg m]) (fm_args (fnc_PublishMsg f)) \<and>
     recorded_calls ''Close'' (fnc_invocations f) = map (\<lambda>_. []) (fv_args (fnc_Close f)) \<and>
     recorded_calls ''Flush'' (fnc_invocations f) = map (\<lambda>_. []) (fm_args (fnc_Flush f)) \<and>
     recorded_calls ''ConnectedUrl'' (fnc_invocations f) = map (\<lambda>_. []) (fm_args (fnc_ConnectedUrl f)) \<and>
     recorded_calls ''Subscribe'' (fnc_invocations f) = map (\<lambda>(s, h). [AnyString s, AnyHandler h]) (fm_args (fnc_Subscribe f))"

lemma fake_void_call_args [simp]: "fv_args (fake_void_call a m) = fv_args m @ [a]"
  by (simp add: fake_void_call_def Let_def)

lemma conn_apply_agrees: "conn_agrees f \<Longrightarrow> conn_agrees (conn_apply op f)"
  by (cases op) (simp_all add: conn_agrees_def conn_defs split_def Let_def)

definition new_method :: "'r \<Rightarrow> ('a, 'r) fake_method" where
  "new_method zero = \<lparr>fm_Stub = None, fm_args = [], fm_returns = zero, fm_returnsOnCall = Map.empty\<rparr>"

definition new_void :: "'a fake_void" where
  "new_void = \<lparr>fv_Stub = False, fv_args = [], fv_stub_calls = []\<rparr>"

definition new_FakeNatsConn :: FakeNatsConn where
  "new_FakeNatsConn =
     \<lparr>fnc_PublishMsg = new_method None, fnc_Close = new_void, fnc_Flush = new_method None,
      fnc_ConnectedUrl = new_method [], fnc_Subscribe = new_method (None, None), fnc_invocations = Map.empty\<rparr>"

lemma conn_run_agrees: "conn_agrees f \<Longrightarrow> conn_agrees (fold conn_apply ops f)"
  by (induction ops arbitrary: f) (simp_all add: conn_apply_agrees)

text \<open>
  The results of a sequence of calls of a method without a stub: the result prepared for the number of
  the call, else the general one.
\<close>

fun fake_results :: "'a list \<Rightarrow> ('a, 'r) fake_method \<Rightarrow> 'r list" where
  "fake_results [] m = []"
| "fake_results (a # as) m = (let (r, m') = fake_call a m in r # fake_results as m')"

lemma fake_results_prepared:
  assumes "fm_Stub m = None"
  shows "fake_results as m = map (\<lambda>k. case fm_returnsOnCall m (int k) of Some r \<Rightarrow> r | None \<Rightarrow> fm_returns m)
    [length (fm_args m)..<length (fm_args m) + length as]"
  using assms
proof (induction "as" arbitrary: m)
  case (Cons a as)
  obtain r m' where m': "fake_call a m = (r, m')" by fastforce
  then have "m' = snd (fake_call a m)" by simp
  then have fields: "fm_Stub m' = None" "length (fm_args m') = Suc (length (fm_args m))"
    "fm_returns m' = fm_returns m" "fm_returnsOnCall m' = fm_returnsOnCall m" using Cons.prems by simp_all
  have "r = (case fm_returnsOnCall m (int (length (fm_args m))) of Some r \<Rightarrow> r | None \<Rightarrow> fm_returns m)"
    using m' Cons.prems by (auto simp: fake_call_def Let_def split: option.splits)
  moreover have "[length (fm_args m)..<length (fm_args m) + length (a # as)]
      = length (fm_args m) # [Suc (length (fm_args m))..<Suc (length (fm_args m)) + length as]" by (simp add: upt_conv_Cons del: upt_Suc)
  ultimately show ?case using Cons.IH [OF fields(1), unfolded fields(2-4)] m' by (simp del: upt_Suc)
qed simp

section \<open>The publisher on a fake connection\<close>

text \<open>The fake as the environment of a publisher; its \<open>Close\<close> has no result.\<close>

definition fake_pub_env :: "FakePublishingConnection \<Rightarrow> pub_env" where
  "fake_pub_env f made c = (case c of Publish subj d \<Rightarrow> fst (FakePublishingConnection_Publish subj d f) | _ \<Rightarrow> None)"

text \<open>After \<open>PublishReturns\<close> with an error, a round ends with its first message and that error.\<close>

lemma publisher_on_failing_fake:
  assumes "prepared p"
  shows "PublishRouteRegistrations (fake_pub_env (FakePublishingConnection_PublishReturns (Some err) f)) p
    = Return (Some err, p\<lparr>pub_calls := pub_calls p @ [Publish ''router.register'' (hd (pub_data p))]\<rparr>)"
proof -
  have "pub_data p \<noteq> []" using assms by (auto simp: prepared_def)
  then obtain d ds where "pub_data p = d # ds" by (cases "pub_data p") auto
  then show ?thesis
    by (simp add: publish_round [OF assms] message_calls_def fake_pub_env_def FakePublishingConnection_Publish_def
        FakePublishingConnection_PublishReturns_def Let_def)
qed

section \<open>Mutexes\<close>

text \<open>
  The mutexes of the fake connection, and what a goroutine does with them: a method holds its own mutex
  while it records the invocation under another one; \<open>Invocations\<close> takes that one first and then those
  of all methods. Only what is needed of \<open>sync.RWMutex\<close> is modelled: a writer excludes everybody, a
  reader excludes writers.
\<close>

datatype mutex = publishMsgMutex | closeMutex | flushMutex | connectedUrlMutex | subscribeMutex | invocationsMutex

datatype lock_op = Lock mutex | Unlock mutex | RLock mutex | RUnlock mutex

definition method_locks :: "mutex \<Rightarrow> lock_op list" where
  "method_locks m = [Lock m, Lock invocationsMutex, Unlock invocationsMutex, Unlock m]"

definition Invocations_locks :: "lock_op list" where
  "Invocations_locks =
     [RLock invocationsMutex, RLock publishMsgMutex, RLock closeMutex, RLock flushMutex, RLock connectedUrlMutex,
      RLock subscribeMutex, RUnlock subscribeMutex, RUnlock connectedUrlMutex, RUnlock flushMutex, RUnlock closeMutex,
      RUnlock publishMsgMutex, RUnlock invocationsMutex]"

record lock_system =
  ls_todo :: "nat \<Rightarrow> lock_op list"
  ls_writer :: "mutex \<Rightarrow> nat option"
  ls_readers :: "mutex \<Rightarrow> nat list"

fun lock_effect :: "nat \<Rightarrow> lock_op \<Rightarrow> lock_system \<Rightarrow> lock_system option" where
  "lock_effect i (Lock m) s =
     (if ls_writer s m = None \<and> ls_readers s m = [] then Some (s\<lparr>ls_writer := (ls_writer s)(m \<mapsto> i)\<rparr>) else None)"
| "lock_effect i (Unlock m) s =
     (if ls_writer s m = Some i then Some (s\<lparr>ls_writer := (ls_writer s)(m := None)\<rparr>) else None)"
| "lock_effect i (RLock m) s =
     (if ls_writer s m = None then Some (s\<lparr>ls_readers := (ls_readers s)(m := i # ls_readers s m)\<rparr>) else None)"
| "lock_effect i (RUnlock m) s = Some (s\<lparr>ls_readers := (ls_readers s)(m := remove1 i (ls_readers s m))\<rparr>)"

inductive lock_step :: "lock_system \<Rightarrow> nat \<Rightarrow> lock_system \<Rightarrow> bool" where
  "ls_todo s i = l # ls \<Longrightarrow> lock_effect i l s = Some s' \<Longrightarrow> lock_step s i (s'\<lparr>ls_todo := (ls_todo s)(i := ls)\<rparr>)"

inductive_cases lock_stepE: "lock_step s i s'"

text \<open>One goroutine publishes while another one asks for the invocations.\<close>

definition publish_and_ask :: "lock_system \<Rightarrow> bool" where
  "publish_and_ask s \<longleftrightarrow>
     s = \<lparr>ls_todo = (\<lambda>i. if i = 0 then method_locks publishMsgMutex else if i = 1 then Invocations_locks else []),
          ls_writer = (\<lambda>_. None), ls_readers = (\<lambda>_. [])\<rparr>"

text \<open>The state in which the two have these things left to do.\<close>

definition asking :: "lock_op list \<Rightarrow> lock_op list \<Rightarrow> (mutex \<Rightarrow> nat option) \<Rightarrow> (mutex \<Rightarrow> nat list) \<Rightarrow> lock_system" where
  "asking a b w r = \<lparr>ls_todo = (\<lambda>i. if i = 0 then a else if i = 1 then b else []), ls_writer = w, ls_readers = r\<rparr>"

lemma asking_step:
  "lock_effect 0 l (asking (l # a) b w r) = Some (asking (l # a) b w' r') \<Longrightarrow> lock_step (asking (l # a) b w r) 0 (asking a b w' r')"
  "lock_effect 1 l (asking a (l # b) w r) = Some (asking a (l # b) w' r') \<Longrightarrow> lock_step (asking a (l # b) w r) 1 (asking a b w' r')"
proof -
  have todo: "(asking (l # a) b w' r')\<lparr>ls_todo := (ls_todo (asking (l # a) b w r))(0 := a)\<rparr> = asking a b w' r'"
    "(asking a (l # b) w' r')\<lparr>ls_todo := (ls_todo (asking a (l # b) w r))(1 := b)\<rparr> = asking a b w' r'"
    by (simp_all add: asking_def fun_eq_iff)
  show "lock_effect 0 l (asking (l # a) b w r) = Some (asking (l # a) b w' r') \<Longrightarrow> lock_step (asking (l # a) b w r) 0 (asking a b w' r')"
    using lock_step.intros [of "asking (l # a) b w r" 0 l a "asking (l # a) b w' r'"] by (simp add: todo) (simp add: asking_def)
  show "lock_effect 1 l (asking a (l # b) w r) = Some (asking a (l # b) w' r') \<Longrightarrow> lock_step (asking a (l # b) w r) 1 (asking a b w' r')"
    using lock_step.intros [of "asking a (l # b) w r" 1 l b "asking a (l # b) w' r'"] todo(2) by (simp add: asking_def)
qed

section \<open>Properties\<close>

text \<open>
  The two records of a fake connection agree. After any sequence of calls and of preparations of
  results, \<open>Invocations\<close> has for every method exactly the arguments that \<open>ArgsForCall\<close> gives, in the order
  of the calls, and the call counts are their numbers.
\<close>

theorem fake_conn_records_agree:
  fixes ops :: "conn_op list"
  defines "f \<equiv> fold conn_apply ops new_FakeNatsConn"
  shows "recorded_calls ''PublishMsg'' (FakeNatsConn_Invocations f) = map (\<lambda>m. [AnyMsg m]) (fm_args (fnc_PublishMsg f)) \<and>
    recorded_calls ''Subscribe'' (FakeNatsConn_Invocations f)
      = map (\<lambda>(s, h). [AnyString s, AnyHandler h]) (fm_args (fnc_Subscribe f)) \<and>
    FakeNatsConn_CloseCallCount f = int (length (recorded_calls ''Close'' (FakeNatsConn_Invocations f))) \<and>
    FakeNatsConn_FlushCallCount f = int (length (recorded_calls ''Flush'' (FakeNatsConn_Invocations f))) \<and>
    FakeNatsConn_ConnectedUrlCallCount f = int (length (recorded_calls ''ConnectedUrl'' (FakeNatsConn_Invocations f))) \<and>
    (\<forall>k. FakeNatsConn_PublishMsgArgsForCall (int k) f =
       (case drop k (fm_args (fnc_PublishMsg f)) of m # _ \<Rightarrow> Return m | [] \<Rightarrow> Panic IndexOutOfRange))"
proof -
  have "conn_agrees new_FakeNatsConn"
    by (simp add: conn_agrees_def new_FakeNatsConn_def new_method_def new_void_def recorded_calls_def)
  then have "conn_agrees f" unfolding f_def by (rule conn_run_agrees)
  moreover have "at_index (int k) xs = (case drop k xs of x # _ \<Rightarrow> Return x | [] \<Rightarrow> Panic IndexOutOfRange)" for k and xs :: "nats_Msg list"
    by (cases "k < length xs") (auto simp: at_index_def Cons_nth_drop_Suc [symmetric])
  ultimately show ?thesis
    by (simp add: conn_agrees_def FakeNatsConn_Invocations_def FakeNatsConn_CloseCallCount_def FakeNatsConn_FlushCallCount_def
        FakeNatsConn_ConnectedUrlCallCount_def FakeNatsConn_PublishMsgArgsForCall_def)
qed

text \<open>
  C38: the fakes take their mutexes in two orders. When one goroutine calls a method while another one asks
  for the invocations, both can come to hold one of the two mutexes and wait for the other for ever.
\<close>

theorem fake_invocations_can_deadlock:
  "\<exists>s. reachable publish_and_ask lock_step s \<and> ls_todo s 0 \<noteq> [] \<and> ls_todo s 1 \<noteq> [] \<and> (\<forall>i s'. \<not> lock_step s i s')"
proof -
  let ?m = "method_locks publishMsgMutex"
  have r0: "reachable publish_and_ask lock_step (asking ?m Invocations_locks (\<lambda>_. None) (\<lambda>_. []))"
    by (rule reachable_init) (simp add: publish_and_ask_def asking_def)
  have s1: "lock_step (asking ?m Invocations_locks (\<lambda>_. None) (\<lambda>_. [])) 0
      (asking (tl ?m) Invocations_locks [publishMsgMutex \<mapsto> 0] (\<lambda>_. []))"
    unfolding method_locks_def list.sel by (rule asking_step(1)) (simp add: asking_def)
  have s2: "lock_step (asking (tl ?m) Invocations_locks [publishMsgMutex \<mapsto> 0] (\<lambda>_. [])) 1
      (asking (tl ?m) (tl Invocations_locks) [publishMsgMutex \<mapsto> 0] ((\<lambda>_. [])(invocationsMutex := [1])))"
    unfolding Invocations_locks_def list.sel by (rule asking_step(2)) (simp add: asking_def)
  let ?s = "asking (tl ?m) (tl Invocations_locks) [publishMsgMutex \<mapsto> 0] ((\<lambda>_. [])(invocationsMutex := [1]))"
  have todo: "ls_todo ?s 0 \<noteq> []" "ls_todo ?s 1 \<noteq> []" by (simp_all add: asking_def method_locks_def Invocations_locks_def)
  have "\<not> lock_step ?s i s'" for i s'
  proof
    assume "lock_step ?s i s'"
    then obtain l ls where l: "ls_todo ?s i = l # ls" "lock_effect i l ?s \<noteq> None" by (auto elim: lock_stepE)
    then consider "i = 0" "l = Lock invocationsMutex" | "i = 1" "l = RLock publishMsgMutex"
      by (auto simp: asking_def method_locks_def Invocations_locks_def split: if_splits)
    then show False using l(2) by cases (simp_all add: asking_def)
  qed
  with todo reachable_step [OF reachable_step [OF r0 s1] s2] show ?thesis by blast
qed

end
