(* ===== verification/Subscriber_Doubles.thy ===== *)
theory Subscriber_Doubles
  imports Fakes
begin

text \<open>
  Which operations of its table the subscriber calls, as a function of what happens to it, and what that
  means for the fake address table and for the table of the controller. The subscriber is written
  against the interface \<open>mbus.AddressTable\<close>, so that a map between two tables that commutes with the
  operations of the interface commutes with the subscriber; both tables are images of the log of the calls.
\<close>

section \<open>The subscriber on a table and on a fake\<close>

text \<open>What happens to a subscriber that has started.\<close>

datatype sub_event = Delivered nats_Msg | Reconnected | Disconnected | WarmTimer

definition sub_event_step :: "nats_env \<Rightarrow> 't mbus_AddressTable \<Rightarrow> sub_event \<Rightarrow> 't Subscriber \<Rightarrow> 't Subscriber outcome" where
  "sub_event_step env T e s =
     (case e of
        Delivered m \<Rightarrow> deliver env T m s
      | Reconnected \<Rightarrow> handle_reconnect env T s
      | Disconnected \<Rightarrow> Return (handle_disconnect T s)
      | WarmTimer \<Rightarrow> Return (warm_timer_fires T s))"

fun sub_run :: "nats_env \<Rightarrow> 't mbus_AddressTable \<Rightarrow> sub_event list \<Rightarrow> 't Subscriber \<Rightarrow> 't Subscriber outcome" where
  "sub_run env T [] s = Return s"
| "sub_run env T (e # es) s = (case sub_event_step env T e s of Panic p \<Rightarrow> Panic p | Return s' \<Rightarrow> sub_run env T es s')"

text \<open>A subscriber with another table.\<close>

definition map_table :: "('t \<Rightarrow> 'u) \<Rightarrow> 't Subscriber \<Rightarrow> 'u Subscriber" where
  "map_table h s =
     \<lparr>subOpts = subOpts s, warmingDuration = warmingDuration s, sub_table = h (sub_table s),
      sub_recorder = sub_recorder s, localIP = localIP s, natsClient = natsClient s, once_done = once_done s,
      nats_calls = nats_calls s, subscriptions = subscriptions s, sub_metrics = sub_metrics s,
      warm_timers = warm_timers s\<rparr>"

text \<open>
  A map between tables that commutes with the operations of the interface; the subscriber cannot tell
  the tables apart.
\<close>

locale table_morphism =
  fixes T :: "'t mbus_AddressTable"
    and U :: "'u mbus_AddressTable"
    and h :: "'t \<Rightarrow> 'u"
  assumes Add: "h (if_Add T names ip t) = if_Add U names ip (h t)"
    and Remove: "h (if_Remove T names ip t) = if_Remove U names ip (h t)"
    and PausePruning: "h (if_PausePruning T t) = if_PausePruning U (h t)"
    and ResumePruning: "h (if_ResumePruning T t) = if_ResumePruning U (h t)"
    and SetWarm: "h (if_SetWarm T t) = if_SetWarm U (h t)"
begin

lemma run_handler_map: "run_handler env U m k (map_table h s) = map_outcome (map_table h) (run_handler env T m k s)"
  by (cases k) (simp_all add: run_handler_def handle_greet_def handle_register_def handle_unregister_def nats_do_def
      map_table_def Add Remove Let_def split: option.splits)

lemma run_handlers_map: "run_handlers env U m hs (map_table h s) = map_outcome (map_table h) (run_handlers env T m hs s)"
  by (induction hs arbitrary: s) (simp_all add: run_handler_map split: outcome.splits)

lemma deliver_map: "deliver env U m (map_table h s) = map_outcome (map_table h) (deliver env T m s)"
  by (simp add: deliver_def run_handlers_map) (simp add: map_table_def)

lemma handle_reconnect_map: "handle_reconnect env U (map_table h s) = map_outcome (map_table h) (handle_reconnect env T s)"
  by (simp add: handle_reconnect_def sendStartMessage_def subscriptionOptionsJSON_def json_Marshal_def nats_do_def map_table_def
      ResumePruning split: option.splits)

lemma sub_event_step_map: "sub_event_step env U e (map_table h s) = map_outcome (map_table h) (sub_event_step env T e s)"
  by (cases e) (simp_all add: sub_event_step_def deliver_map handle_reconnect_map,
      simp_all add: handle_disconnect_def warm_timer_fires_def map_table_def PausePruning SetWarm split: list.splits)

lemma sub_run_map: "sub_run env U es (map_table h s) = map_outcome (map_table h) (sub_run env T es s)"
  by (induction es arbitrary: s) (simp_all add: sub_event_step_map split: outcome.splits)

end

text \<open>The calls on a table, in order, as a table of its own.\<close>

datatype table_call =
    CallAdd "string list" string | CallRemove "string list" string | CallPausePruning | CallResumePruning | CallSetWarm

definition log_interface :: "table_call list mbus_AddressTable" where
  "log_interface =
     \<lparr>if_Add = (\<lambda>names ip cs. cs @ [CallAdd names ip]), if_Remove = (\<lambda>names ip cs. cs @ [CallRemove names ip]),
      if_PausePruning = (\<lambda>cs. cs @ [CallPausePruning]), if_ResumePruning = (\<lambda>cs. cs @ [CallResumePruning]),
      if_SetWarm = (\<lambda>cs. cs @ [CallSetWarm])\<rparr>"

fun table_apply :: "'t mbus_AddressTable \<Rightarrow> table_call \<Rightarrow> 't \<Rightarrow> 't" where
  "table_apply T (CallAdd names ip) t = if_Add T names ip t"
| "table_apply T (CallRemove names ip) t = if_Remove T names ip t"
| "table_apply T CallPausePruning t = if_PausePruning T t"
| "table_apply T CallResumePruning t = if_ResumePruning T t"
| "table_apply T CallSetWarm t = if_SetWarm T t"

interpretation replay: table_morphism log_interface T "\<lambda>cs. fold (table_apply T) cs t"
  by unfold_locales (simp_all add: log_interface_def)

text \<open>The interface on the fake table.\<close>

definition fake_interface :: "FakeMbusTable mbus_AddressTable" where
  "fake_interface =
     \<lparr>if_Add = FakeMbusTable_Add, if_Remove = FakeMbusTable_Remove, if_PausePruning = FakeMbusTable_PausePruning,
      if_ResumePruning = FakeMbusTable_ResumePruning, if_SetWarm = FakeMbusTable_SetWarm\<rparr>"

text \<open>The arguments that a call has for each of the methods, if it is a call of that method.\<close>

fun add_args :: "table_call \<Rightarrow> (string list \<times> string) list" where
  "add_args (CallAdd names ip) = [(names, ip)]"
| "add_args _ = []"

fun remove_args :: "table_call \<Rightarrow> (string list \<times> string) list" where
  "remove_args (CallRemove names ip) = [(names, ip)]"
| "remove_args _ = []"

lemmas fake_table_defs =
  fake_interface_def FakeMbusTable_Add_def FakeMbusTable_Remove_def FakeMbusTable_PausePruning_def
  FakeMbusTable_ResumePruning_def FakeMbusTable_SetWarm_def FakeMbusTable_recordInvocation_def

lemma fold_records: "(\<And>c f. g (F c f) = g f @ k c) \<Longrightarrow> g (fold F cs f) = g f @ concat (map k cs)"
  by (induction cs arbitrary: f) simp_all

lemma fold_counts: "(\<And>c f. g (F c f) = g f + (if c = d then 1 else 0)) \<Longrightarrow> g (fold F cs f) = g f + int (count_list cs d)"
  by (induction cs arbitrary: f) simp_all

lemma fake_replay:
  "fv_args (fmt_Add (fold (table_apply fake_interface) cs f)) = fv_args (fmt_Add f) @ concat (map add_args cs)"
  "fv_args (fmt_Remove (fold (table_apply fake_interface) cs f)) = fv_args (fmt_Remove f) @ concat (map remove_args cs)"
  by (rule fold_records, rename_tac c f, case_tac c, simp_all add: fake_table_defs)+

lemma fake_replay_counts:
  "FakeMbusTable_PausePruningCallCount (fold (table_apply fake_interface) cs f) =
     FakeMbusTable_PausePruningCallCount f + int (count_list cs CallPausePruning)"
  "FakeMbusTable_ResumePruningCallCount (fold (table_apply fake_interface) cs f) =
     FakeMbusTable_ResumePruningCallCount f + int (count_list cs CallResumePruning)"
  "FakeMbusTable_SetWarmCallCount (fold (table_apply fake_interface) cs f) =
     FakeMbusTable_SetWarmCallCount f + int (count_list cs CallSetWarm)"
  by (rule fold_counts, rename_tac c f, case_tac c, simp_all add: fake_table_defs FakeMbusTable_PausePruningCallCount_def
      FakeMbusTable_ResumePruningCallCount_def FakeMbusTable_SetWarmCallCount_def)+

text \<open>The subscriber on any table does what the calls in its log do.\<close>

lemma replay_run:
  "sub_run env T es (map_table (\<lambda>_. t) s) =
     map_outcome (map_table (\<lambda>cs. fold (table_apply T) cs t)) (sub_run env log_interface es (map_table (\<lambda>_. []) s))"
proof -
  have "map_table (\<lambda>cs. fold (table_apply T) cs t) (map_table (\<lambda>_. []) s) = map_table (\<lambda>_. t) s" by (simp add: map_table_def)
  with replay.sub_run_map [of env T es t "map_table (\<lambda>_. []) s"] show ?thesis by simp
qed

section \<open>Which operations are called\<close>

text \<open>The operation that a message asks for.\<close>

definition message_call :: "nats_Msg \<Rightarrow> table_call list" where
  "message_call msg =
     (case unmarshal_RegistryMessage (msg_Data msg) of
        None \<Rightarrow> []
      | Some m \<Rightarrow>
          if msg_Subject msg = ''service-discovery.register'' \<and> rm_IP m \<noteq> [] \<and> rm_InfraNames m \<noteq> []
          then [CallAdd (rm_InfraNames m) (rm_IP m)]
          else if msg_Subject msg = ''service-discovery.unregister'' \<and> rm_InfraNames m \<noteq> []
          then [CallRemove (rm_InfraNames m) (rm_IP m)]
          else [])"

text \<open>The operations that a history asks for, while \<open>n\<close> warm-up timers run.\<close>

fun table_calls :: "nat \<Rightarrow> sub_event list \<Rightarrow> table_call list" where
  "table_calls n [] = []"
| "table_calls n (Delivered msg # es) = message_call msg @ table_calls n es"
| "table_calls n (Reconnected # es) = CallResumePruning # table_calls n es"
| "table_calls n (Disconnected # es) = CallPausePruning # table_calls n es"
| "table_calls 0 (WarmTimer # es) = table_calls 0 es"
| "table_calls (Suc n) (WarmTimer # es) = CallSetWarm # table_calls n es"

text \<open>A subscriber that has started, with \<open>n\<close> timers.\<close>

definition listening :: "nat \<Rightarrow> 't Subscriber \<Rightarrow> bool" where
  "listening n s \<longleftrightarrow> natsClient s \<and> length (warm_timers s) = n \<and>
     (\<exists>data. subscriptions s = [(''service-discovery.greet'', GreetMsgHandler data), (''service-discovery.register'', RegisterHandler),
       (''service-discovery.unregister'', UnregisterHandler)])"

lemma listening_map_table [simp]: "listening n (map_table h s) = listening n s"
  by (simp add: listening_def map_table_def)

definition counts :: "table_call list \<Rightarrow> string list" where
  "counts cs = map (\<lambda>_. ''registerMessagesReceived'') (concat (map add_args cs))"

lemma counts_simps [simp]: "counts [] = []" "counts (cs @ ds) = counts cs @ counts ds"
  "counts (CallAdd names ip # cs) = ''registerMessagesReceived'' # counts cs" "counts (CallRemove names ip # cs) = counts cs"
  "counts (CallPausePruning # cs) = counts cs" "counts (CallResumePruning # cs) = counts cs" "counts (CallSetWarm # cs) = counts cs"
  by (simp_all add: counts_def)

lemma deliver_log:
  assumes "listening n s"
  shows "\<exists>s'. deliver env log_interface msg s = Return s' \<and> listening n s' \<and>
    sub_table s' = sub_table s @ message_call msg \<and> sub_metrics s' = sub_metrics s @ counts (message_call msg)"
proof -
  from assms obtain data where subs: "natsClient s" "length (warm_timers s) = n" "subscriptions s =
      [(''service-discovery.greet'', GreetMsgHandler data), (''service-discovery.register'', RegisterHandler),
       (''service-discovery.unregister'', UnregisterHandler)]" by (auto simp: listening_def)
  consider "msg_Subject msg = ''service-discovery.greet''" | "msg_Subject msg = ''service-discovery.register''"
    | "msg_Subject msg = ''service-discovery.unregister''"
    | "msg_Subject msg \<notin> {''service-discovery.greet'', ''service-discovery.register'', ''service-discovery.unregister''}" by auto
  then show ?thesis
  proof cases
    case 1
    with subs show ?thesis
      by (auto simp: deliver_def run_handler_def handle_greet_def nats_do_def message_call_def listening_def split: option.splits)
  next
    case 2
    with subs show ?thesis
      by (auto simp: deliver_def run_handler_def handle_register_def log_interface_def message_call_def listening_def Let_def
          split: option.splits)
  next
    case 3
    with subs show ?thesis
      by (auto simp: deliver_def run_handler_def handle_unregister_def log_interface_def message_call_def listening_def
          split: option.splits)
  next
    case 4
    with subs show ?thesis by (auto simp: deliver_def message_call_def listening_def split: option.splits)
  qed
qed

lemma sub_event_log:
  assumes "listening n s"
  shows "\<exists>s' n'. sub_event_step env log_interface e s = Return s' \<and> listening n' s' \<and>
    sub_table s' = sub_table s @ table_calls n [e] \<and> sub_metrics s' = sub_metrics s @ counts (table_calls n [e]) \<and>
    (\<forall>es. table_calls n (e # es) = table_calls n [e] @ table_calls n' es)"
proof (cases e)
  case (Delivered msg)
  with deliver_log [OF assms, of env msg] show ?thesis by (auto simp: sub_event_step_def)
next
  case Reconnected
  with assms show ?thesis
    by (auto simp: sub_event_step_def handle_reconnect_def sendStartMessage_def subscriptionOptionsJSON_eq nats_do_def
        log_interface_def listening_def split: option.splits)
next
  case Disconnected
  with assms show ?thesis by (auto simp: sub_event_step_def handle_disconnect_def log_interface_def listening_def)
next
  case WarmTimer
  with assms show ?thesis
    by (cases "warm_timers s") (auto simp: sub_event_step_def warm_timer_fires_def log_interface_def listening_def)
qed

lemma sub_run_log:
  assumes "listening n s"
  shows "\<exists>s'. sub_run env log_interface es s = Return s' \<and>
    sub_table s' = sub_table s @ table_calls n es \<and> sub_metrics s' = sub_metrics s @ counts (table_calls n es)"
  using assms
proof (induction es arbitrary: n s)
  case (Cons e es)
  from sub_event_log [OF Cons.prems, of env e] obtain s1 n1 where s1: "sub_event_step env log_interface e s = Return s1"
    "listening n1 s1" "sub_table s1 = sub_table s @ table_calls n [e]" "sub_metrics s1 = sub_metrics s @ counts (table_calls n [e])"
    "table_calls n (e # es) = table_calls n [e] @ table_calls n1 es" by blast
  from Cons.IH [OF s1(2)] s1 show ?case by auto
qed simp

lemma count_message_call:
  "count_list (message_call msg) CallPausePruning = 0" "count_list (message_call msg) CallResumePruning = 0"
  "count_list (message_call msg) CallSetWarm = 0"
  by (simp_all add: message_call_def split: option.splits)

lemma calls_counts:
  "count_list (table_calls n es) CallPausePruning = count_list es Disconnected"
  "count_list (table_calls n es) CallResumePruning = count_list es Reconnected"
  "count_list (table_calls 0 es) CallSetWarm = 0"
  "count_list (table_calls 1 es) CallSetWarm = (if WarmTimer \<in> set es then 1 else 0)"
proof -
  show "count_list (table_calls n es) CallPausePruning = count_list es Disconnected"
    "count_list (table_calls n es) CallResumePruning = count_list es Reconnected"
    by (induction n es rule: table_calls.induct) (simp_all add: count_message_call)
  show zero: "count_list (table_calls 0 es) CallSetWarm = 0" for es
  proof (induction es)
    case (Cons e es)
    then show ?case by (cases e) (simp_all add: count_message_call)
  qed simp
  show "count_list (table_calls 1 es) CallSetWarm = (if WarmTimer \<in> set es then 1 else 0)"
  proof (induction es)
    case (Cons e es)
    then show ?case by (cases e) (simp_all add: count_message_call zero)
  qed simp
qed

section \<open>Properties\<close>

text \<open>
  C27: which operations of its table a started subscriber calls, and that a test can see them on the fake.
  Whatever messages, connection events and timers it handles, it does not panic, and the calls are those of
  the history, in its order: an addition for each register message that decodes and names an IP and a
  hostname, a removal for each unregister message that decodes and names a hostname, a pause for each
  disconnection, a resumption for each reconnection, and one warming when the timer fires first. The fake
  has recorded the arguments of exactly these additions and removals and counted the others; the same
  subscriber on the controller's table ends with these operations applied to the table, and with
  everything else the same, one counted message for each addition among it.
\<close>

theorem fake_records_event_calls:
  fixes f :: FakeMbusTable
  assumes "RunOnce env0 (NewSubscriber opts warming f ip rec) = Return (None, s)"
  shows "\<exists>s'. sub_run env fake_interface es s = Return s' \<and>
    fv_args (fmt_Add (sub_table s')) = fv_args (fmt_Add f) @ concat (map add_args (table_calls 1 es)) \<and>
    fv_args (fmt_Remove (sub_table s')) = fv_args (fmt_Remove f) @ concat (map remove_args (table_calls 1 es)) \<and>
    FakeMbusTable_PausePruningCallCount (sub_table s') = FakeMbusTable_PausePruningCallCount f + int (count_list es Disconnected) \<and>
    FakeMbusTable_ResumePruningCallCount (sub_table s') = FakeMbusTable_ResumePruningCallCount f + int (count_list es Reconnected) \<and>
    FakeMbusTable_SetWarmCallCount (sub_table s') = FakeMbusTable_SetWarmCallCount f + (if WarmTimer \<in> set es then 1 else 0) \<and>
    sub_metrics s' = replicate (length (concat (map add_args (table_calls 1 es)))) ''registerMessagesReceived'' \<and>
    sub_run env table_interface es (map_table (\<lambda>_. t) s)
      = Return (map_table (\<lambda>_. fold (table_apply table_interface) (table_calls 1 es) t) s')"
proof -
  let ?s0 = "NewSubscriber opts warming f ip rec"
  from RunOnce_script [of ?s0 env0] assms have started: "listening 1 s" "sub_table s = f" "sub_metrics s = []"
    by (simp_all add: NewSubscriber_def listening_def split: option.splits prod.splits)
  have "listening 1 (map_table (\<lambda>_. []) s)" using started(1) by simp
  from sub_run_log [OF this, of env es] obtain l where l: "sub_run env log_interface es (map_table (\<lambda>_. []) s) = Return l"
    "sub_table l = table_calls 1 es" "sub_metrics l = counts (table_calls 1 es)"
    using started(3) by (auto simp: map_table_def)
  have self: "map_table (\<lambda>_. f) s = s" using started(2) by (cases s) (simp add: map_table_def)
  let ?s' = "map_table (\<lambda>cs. fold (table_apply fake_interface) cs f) l"
  have "sub_run env fake_interface es s = Return ?s'" using replay_run [of env fake_interface es f s] by (simp add: self l(1))
  moreover have "sub_run env table_interface es (map_table (\<lambda>_. t) s)
      = Return (map_table (\<lambda>_. fold (table_apply table_interface) (table_calls 1 es) t) ?s')"
    using replay_run [of env table_interface es t s] by (simp add: l) (simp add: map_table_def l(2))
  moreover have "sub_table ?s' = fold (table_apply fake_interface) (table_calls 1 es) f" by (simp add: map_table_def l(2))
  moreover have "sub_metrics ?s' = replicate (length (concat (map add_args (table_calls 1 es)))) ''registerMessagesReceived''"
    by (simp add: map_table_def l(3) counts_def map_replicate_const)
  ultimately show ?thesis by (intro exI [of _ ?s']) (simp add: fake_replay fake_replay_counts calls_counts calls_counts(4) [simplified])
qed

definition new_FakeMbusTable :: FakeMbusTable where
  "new_FakeMbusTable =
     \<lparr>fmt_Add = new_void, fmt_Remove = new_void, fmt_PausePruning = new_void, fmt_ResumePruning = new_void,
      fmt_SetWarm = new_void, fmt_invocations = Map.empty\<rparr>"

text \<open>A history with every operation: a registration, a malformed message, a lost connection, and a removal.\<close>

definition sample_registry :: RegistryMessage where
  "sample_registry = \<lparr>rm_IP = ''10.0.0.7'', rm_InfraNames = [''app.internal''], rm_EndpointUpdatedAt = 17\<rparr>"

definition sample_events :: "sub_event list" where
  "sample_events =
     [WarmTimer,
      Delivered \<lparr>msg_Subject = ''service-discovery.register'', msg_Reply = [], msg_Data = json_print (registry_json sample_registry)\<rparr>,
      Delivered \<lparr>msg_Subject = ''service-discovery.register'', msg_Reply = [],
        msg_Data = json_print (registry_json (sample_registry\<lparr>rm_IP := []\<rparr>))\<rparr>,
      Disconnected, Reconnected, Disconnected,
      Delivered \<lparr>msg_Subject = ''service-discovery.unregister'', msg_Reply = [], msg_Data = json_print (registry_json sample_registry)\<rparr>]"

lemma sample_calls:
  "table_calls 1 sample_events =
     [CallSetWarm, CallAdd [''app.internal''] ''10.0.0.7'', CallPausePruning, CallResumePruning, CallPausePruning,
      CallRemove [''app.internal''] ''10.0.0.7'']"
proof -
  have "utf8_message sample_registry = sample_registry" "utf8_message (sample_registry\<lparr>rm_IP := []\<rparr>) = sample_registry\<lparr>rm_IP := []\<rparr>"
    by (simp_all add: utf8_message_def sample_registry_def valid_utf8_ascii_string)
  then have "unmarshal_RegistryMessage (json_print (registry_json sample_registry)) = Some sample_registry"
    "unmarshal_RegistryMessage (json_print (registry_json (sample_registry\<lparr>rm_IP := []\<rparr>))) = Some (sample_registry\<lparr>rm_IP := []\<rparr>)"
    using unmarshal_registry_json [of sample_registry] unmarshal_registry_json [of "sample_registry\<lparr>rm_IP := []\<rparr>"]
    by (simp_all add: sample_registry_def is_int64_def minInt64_def maxInt64_def del: json_print.simps)
  then show ?thesis
    by (simp add: sample_events_def message_call_def del: json_print.simps) (simp add: sample_registry_def)
qed

theorem fake_records_event_calls_witness:
  "\<exists>s s'. RunOnce (\<lambda>_ _. None) (NewSubscriber \<lparr>opts_ID = ''id'', opts_MinimumRegisterIntervalInSeconds = 60,
       opts_PruneThresholdInSeconds = 120, opts_AcceptTLS = True\<rparr> 5 new_FakeMbusTable ''10.0.0.1'' (NewMetricsRecorder int)) = Return (None, s) \<and>
     sub_run (\<lambda>_ _. None) fake_interface sample_events s = Return s' \<and>
     fv_args (fmt_Add (sub_table s')) = [([''app.internal''], ''10.0.0.7'')] \<and>
     fv_args (fmt_Remove (sub_table s')) = [([''app.internal''], ''10.0.0.7'')] \<and>
     FakeMbusTable_PausePruningCallCount (sub_table s') = 2 \<and> FakeMbusTable_ResumePruningCallCount (sub_table s') = 1 \<and>
     FakeMbusTable_SetWarmCallCount (sub_table s') = 1 \<and> sub_metrics s' = [''registerMessagesReceived'']"
proof -
  let ?s0 = "NewSubscriber \<lparr>opts_ID = ''id'', opts_MinimumRegisterIntervalInSeconds = 60,
       opts_PruneThresholdInSeconds = 120, opts_AcceptTLS = True\<rparr> 5 new_FakeMbusTable ''10.0.0.1'' (NewMetricsRecorder int)"
  obtain s where s: "RunOnce (\<lambda>_ _. None) ?s0 = Return (None, s)"
    using RunOnce_script [of ?s0 "\<lambda>_ _. None"] by (auto simp: no_failure NewSubscriber_def)
  have counts: "count_list sample_events Disconnected = 2" "count_list sample_events Reconnected = 1" "WarmTimer \<in> set sample_events"
    by (simp_all add: sample_events_def del: json_print.simps)
  have new: "fv_args (fmt_Add new_FakeMbusTable) = []" "fv_args (fmt_Remove new_FakeMbusTable) = []"
    "FakeMbusTable_PausePruningCallCount new_FakeMbusTable = 0" "FakeMbusTable_ResumePruningCallCount new_FakeMbusTable = 0"
    "FakeMbusTable_SetWarmCallCount new_FakeMbusTable = 0"
    by (simp_all add: new_FakeMbusTable_def new_void_def FakeMbusTable_PausePruningCallCount_def
        FakeMbusTable_ResumePruningCallCount_def FakeMbusTable_SetWarmCallCount_def)
  from fake_records_event_calls [OF s, of "\<lambda>_ _. None" sample_events, unfolded counts new sample_calls] s counts(3)
  show ?thesis by auto
qed

end
