(* ===== verification/Proxy_App.thy ===== *)
theory Proxy_App
  imports Go_Http
begin

text \<open>
  Model of the example application \<open>example-apps/proxy\<close>, which the acceptance and performance tests push
  to reach other applications by their internal names: it looks names up, pings, fetches a page from
  another application and keeps the latencies. The network, the \<open>ping\<close> program and the formatting of
  floating-point numbers are arguments; output on standard error is left out.
\<close>

section \<open>Strings and addresses\<close>

definition TrimPrefix :: "string \<Rightarrow> string \<Rightarrow> string" where
  "TrimPrefix prefix s = (if has_prefix prefix s then drop (length prefix) s else s)"

text \<open>The first element of \<open>strings.Split(s, sep)\<close> for a separator of one byte.\<close>

definition before :: "char \<Rightarrow> string \<Rightarrow> string" where
  "before sep s = takeWhile (\<lambda>c. c \<noteq> sep) s"

text \<open>\<open>strconv.Atoi\<close>: an optional sign and decimal digits, in the range of 64 bits.\<close>

definition Atoi :: "string \<Rightarrow> int option" where
  "Atoi s =
     (let signed = s \<noteq> [] \<and> hd s \<in> {CHR ''+'', CHR ''-''};
          ds = (if signed then tl s else s);
          n = (if signed \<and> hd s = CHR ''-'' then - int (digits_value ds) else int (digits_value ds))
      in if ds \<noteq> [] \<and> list_all is_digit ds \<and> is_int64 n then Some n else None)"

text \<open>\<open>net.IP\<close> is a slice of 4 or 16 bytes; \<open>To4\<close> returns nil for what is not an IPv4 address.\<close>

type_synonym net_IP = "nat list"

definition To4 :: "net_IP \<Rightarrow> net_IP" where
  "To4 ip =
     (if length ip = 4 then ip
      else if length ip = 16 \<and> take 10 ip = replicate 10 0 \<and> ip ! 10 = 255 \<and> ip ! 11 = 255 then drop 12 ip
      else [])"

text \<open>\<open>IP.String\<close> on what \<open>To4\<close> returns: dotted decimal, or the text for nil.\<close>

definition IP4_String :: "net_IP \<Rightarrow> string" where
  "IP4_String ip = (if ip = [] then ''<nil>'' else join ''.'' (map show_nat ip))"

section \<open>State and environment\<close>

record http_Request =
  req_Method :: string
  req_Path :: string
  req_Body :: "(go_error + string) option"

record 'f Stats =
  Latency :: "'f list"

definition Stats_Add :: "'f \<Rightarrow> 'f Stats \<Rightarrow> 'f Stats" where
  "Stats_Add latency s = s\<lparr>Latency := Latency s @ [latency]\<rparr>"

definition Stats_Clear :: "'f Stats \<Rightarrow> 'f Stats" where
  "Stats_Clear s = s\<lparr>Latency := []\<rparr>"

definition GetLatency :: "'f Stats \<Rightarrow> 'f list" where
  "GetLatency s = Latency s"

text \<open>How a ping ends: it exits, or ten seconds pass and it is killed; either may fail.\<close>

datatype ping_end = PingDone "go_error option" | PingTimedOut "go_error option"

record 'f proxy_env =
  pe_LookupIP :: "string \<Rightarrow> go_error + net_IP list"
  pe_InterfaceAddrs :: "go_error + string list"
  pe_Stat :: "string \<Rightarrow> go_error option"
  pe_PingStart :: "string \<Rightarrow> string \<Rightarrow> go_error option"
  pe_PingEnd :: "string \<Rightarrow> string \<Rightarrow> ping_end"
  pe_Get :: "string \<Rightarrow> go_error + http_Response"
  pe_Seconds :: "duration \<Rightarrow> 'f"
  pe_Format :: "'f \<Rightarrow> string"
  pe_Rand :: "nat \<Rightarrow> char"
  pe_MaxAlloc :: int

section \<open>Handlers\<close>

definition handleDigError :: "go_error \<Rightarrow> string \<Rightarrow> ResponseWriter \<Rightarrow> ResponseWriter" where
  "handleDigError err destination resp =
     snd (Write (''Failed to dig: '' @ destination @ '': '' @ err) (WriteHeader 500 resp))"

definition DigHandler :: "'f proxy_env \<Rightarrow> http_Request \<Rightarrow> ResponseWriter \<Rightarrow> ResponseWriter" where
  "DigHandler env req resp =
     (let destination = before (CHR '':'') (TrimPrefix ''/dig/'' (req_Path req))
      in case pe_LookupIP env destination of
           Inl err \<Rightarrow> handleDigError err destination resp
         | Inr ips \<Rightarrow>
             (let ip4s = map (\<lambda>ip. IP4_String (To4 ip)) ips
              in case json_Marshal (if ip4s = [] then JNull else JArr (map JStr ip4s)) of
                   Inl err \<Rightarrow> handleDigError err destination resp
                 | Inr ip4Json \<Rightarrow> snd (Write ip4Json resp)))"

text \<open>
  \<open>make\<close> panics on a length that the allocator cannot serve (\<open>pe_MaxAlloc\<close>).
\<close>

definition DownloadHandler :: "'f proxy_env \<Rightarrow> http_Request \<Rightarrow> ResponseWriter \<Rightarrow> ResponseWriter outcome" where
  "DownloadHandler env req resp =
     (let requestBytes = TrimPrefix ''/download/'' (req_Path req);
          refuse = snd (Write (''requested number of bytes must be a positive integer, got: '' @ requestBytes)
                          (WriteHeader 500 resp))
      in case Atoi requestBytes of
           None \<Rightarrow> Return refuse
         | Some numBytes \<Rightarrow>
             if numBytes < 0 then Return refuse
             else if numBytes > pe_MaxAlloc env then Panic (ExplicitPanic ''makeslice: len out of range'')
             else Return (snd (Write (map (pe_Rand env) [0..<nat numBytes]) resp)))"

definition InfoHandler :: "'f proxy_env \<Rightarrow> int \<Rightarrow> http_Request \<Rightarrow> ResponseWriter \<Rightarrow> ResponseWriter outcome" where
  "InfoHandler env port req resp =
     (case pe_InterfaceAddrs env of
        Inl err \<Rightarrow> Panic (ExplicitPanic err)
      | Inr addrs \<Rightarrow>
          (let addressStrings = map (before (CHR ''/'')) addrs
           in case json_Marshal (JObj [(''ListenAddresses'', JArr (map JStr addressStrings)), (''Port'', JInt port)]) of
                Inl err \<Rightarrow> Panic (ExplicitPanic err)
              | Inr respBytes \<Rightarrow> Return (snd (Write respBytes resp))))"

text \<open>Dead code of the ping handler: the first IPv4 address of a list.\<close>

fun ipv4Address :: "net_IP list \<Rightarrow> go_error + net_IP" where
  "ipv4Address [] = Inl ''No IPv4 found''"
| "ipv4Address (ip # ips) = (if To4 ip \<noteq> [] then Inr ip else ipv4Address ips)"

definition handleError :: "go_error \<Rightarrow> string \<Rightarrow> ResponseWriter \<Rightarrow> ResponseWriter" where
  "handleError err destination resp =
     snd (Write (''Ping failed to destination: '' @ destination @ '': '' @ err) (WriteHeader 500 resp))"

definition PingHandler :: "'f proxy_env \<Rightarrow> http_Request \<Rightarrow> ResponseWriter \<Rightarrow> ResponseWriter" where
  "PingHandler env req resp =
     (let destination = before (CHR '':'') (TrimPrefix ''/ping/'' (req_Path req));
          pingPath = (if pe_Stat env ''/bin/ping'' \<noteq> None then ''/sbin/ping'' else ''/bin/ping'')
      in case pe_PingStart env pingPath destination of
           Some err \<Rightarrow> handleError err destination resp
         | None \<Rightarrow>
             (case pe_PingEnd env pingPath destination of
                PingTimedOut (Some err) \<Rightarrow> handleError (''error killing hung ping: '' @ err) destination resp
              | PingTimedOut None \<Rightarrow> handleError ''killing ping after timed out'' destination resp
              | PingDone (Some err) \<Rightarrow> handleError err destination resp
              | PingDone None \<Rightarrow> snd (Write (''Ping succeeded to destination: '' @ destination) resp)))"

text \<open>The clock is read before the request, and again when there is a response.\<close>

definition ProxyHandler ::
    "'f proxy_env \<Rightarrow> http_Request \<Rightarrow> ResponseWriter \<times> 'f Stats \<times> clock \<Rightarrow> ResponseWriter \<times> 'f Stats \<times> clock" where
  "ProxyHandler env req = (\<lambda>(resp, stats, c).
     let destination = ''http://'' @ TrimPrefix ''/proxy/'' (req_Path req);
         (start, c1) = clock_Now c
     in case pe_Get env destination of
          Inl err \<Rightarrow> (snd (Write (''request failed: '' @ err) (WriteHeader 500 resp)), stats, c1)
        | Inr getResp \<Rightarrow>
            (let (now, c2) = clock_Now c1;
                 stats' = Stats_Add (pe_Seconds env (time_Sub now start)) stats
             in case Body getResp of
                  Inl err \<Rightarrow> (snd (Write (''read body failed: '' @ err) (WriteHeader 500 resp)), stats', c2)
                | Inr readBytes \<Rightarrow> (snd (Write readBytes resp), stats', c2)))"

definition Stats_json :: "'f proxy_env \<Rightarrow> 'f Stats \<Rightarrow> json" where
  "Stats_json env s = JObj [(''latency'', JArr (map (\<lambda>l. JNum (pe_Format env l)) (Latency s)))]"

definition StatsHandler ::
    "'f proxy_env \<Rightarrow> http_Request \<Rightarrow> ResponseWriter \<times> 'f Stats \<Rightarrow> (ResponseWriter \<times> 'f Stats) outcome" where
  "StatsHandler env req = (\<lambda>(resp, stats).
     if req_Method req = ''DELETE'' then Return (resp, Stats_Clear stats)
     else case json_Marshal (Stats_json env stats) of
            Inl err \<Rightarrow> Panic (ExplicitPanic err)
          | Inr respBytes \<Rightarrow> Return (snd (Write respBytes resp), stats))"

definition UploadHandler :: "http_Request \<Rightarrow> ResponseWriter \<Rightarrow> ResponseWriter" where
  "UploadHandler req resp =
     (case req_Body req of
        None \<Rightarrow> snd (Write ''0 bytes received and read'' resp)
      | Some (Inl err) \<Rightarrow> snd (Write (''error: '' @ err) (WriteHeader 500 resp))
      | Some (Inr bodyBytes) \<Rightarrow> snd (Write (show_nat (length bodyBytes) @ '' bytes received and read'') resp))"

section \<open>The application\<close>

datatype proxy_route = Download | Dig | Ping | Proxy | StatsRoute | Upload | Info

definition proxy_mux :: "(string \<times> proxy_route) list" where
  "proxy_mux =
     [(''/download/'', Download), (''/dig/'', Dig), (''/ping/'', Ping), (''/proxy/'', Proxy), (''/stats'', StatsRoute),
      (''/upload'', Upload), (''/'', Info)]"

text \<open>The running application: the port, the statistics that two handlers share, and the clock.\<close>

record 'f proxy_app =
  pa_port :: int
  pa_stats :: "'f Stats"
  pa_clock :: clock

text \<open>\<open>main\<close>: without a number in \<open>PORT\<close> the process exits; otherwise it serves.\<close>

definition proxy_main :: "string \<Rightarrow> clock \<Rightarrow> 'f proxy_app option" where
  "proxy_main PORT c =
     (case Atoi PORT of
        None \<Rightarrow> None
      | Some systemPort \<Rightarrow> Some \<lparr>pa_port = systemPort, pa_stats = \<lparr>Latency = []\<rparr>, pa_clock = c\<rparr>)"

definition map_outcome :: "('a \<Rightarrow> 'b) \<Rightarrow> 'a outcome \<Rightarrow> 'b outcome" where
  "map_outcome f r = (case r of Return x \<Rightarrow> Return (f x) | Panic p \<Rightarrow> Panic p)"

definition proxy_handle ::
    "'f proxy_env \<Rightarrow> proxy_route \<Rightarrow> http_Request \<Rightarrow> ResponseWriter \<Rightarrow> 'f proxy_app \<Rightarrow> (ResponseWriter \<times> 'f proxy_app) outcome" where
  "proxy_handle env route req resp app =
     (case route of
        Download \<Rightarrow> map_outcome (\<lambda>rw. (rw, app)) (DownloadHandler env req resp)
      | Dig \<Rightarrow> Return (DigHandler env req resp, app)
      | Ping \<Rightarrow> Return (PingHandler env req resp, app)
      | Proxy \<Rightarrow> (let (rw, stats, c) = ProxyHandler env req (resp, pa_stats app, pa_clock app)
                  in Return (rw, app\<lparr>pa_stats := stats, pa_clock := c\<rparr>))
      | StatsRoute \<Rightarrow> map_outcome (\<lambda>(rw, stats). (rw, app\<lparr>pa_stats := stats\<rparr>)) (StatsHandler env req (resp, pa_stats app))
      | Upload \<Rightarrow> Return (UploadHandler req resp, app)
      | Info \<Rightarrow> map_outcome (\<lambda>rw. (rw, app)) (InfoHandler env (pa_port app) req resp))"

text \<open>One request to the application: what is answered, or where it is redirected.\<close>

datatype 'a proxy_reply = Answered 'a | RedirectedTo string | NoHandler

definition proxy_serve ::
    "'f proxy_env \<Rightarrow> http_Request \<Rightarrow> 'f proxy_app \<Rightarrow> (int \<times> string) outcome proxy_reply \<times> 'f proxy_app" where
  "proxy_serve env req app =
     (case mux_Handler proxy_mux (req_Path req) of
        MuxHandler route \<Rightarrow>
          (case proxy_handle env route req (new_response None) app of
             Return (rw, app') \<Rightarrow> (Answered (Return (response rw)), app')
           | Panic p \<Rightarrow> (Answered (Panic p), app))
      | MuxRedirect p \<Rightarrow> (RedirectedTo p, app)
      | MuxNotFound \<Rightarrow> (NoHandler, app))"

section \<open>Numbers in paths\<close>

lemma Atoi_show_nat: "int n \<le> maxInt64 \<Longrightarrow> Atoi (show_nat n) = Some (int n)"
  using hd_show_nat_digit [of n] show_nat_digits [of n] digits_value_show_nat [of n]
  by (auto simp: Atoi_def Let_def is_int64_def minInt64_def maxInt64_def is_digit_def in_range_def)

lemma TrimPrefix_append [simp]: "TrimPrefix p (p @ s) = s"
  by (simp add: TrimPrefix_def has_prefix_def)

section \<open>The statistics\<close>

text \<open>Requests that the proxy handler measures: those whose destination answered.\<close>

definition measured :: "'f proxy_env \<Rightarrow> http_Request \<Rightarrow> bool" where
  "measured env req \<longleftrightarrow> mux_Handler proxy_mux (req_Path req) = MuxHandler Proxy \<and>
     \<not> isl (pe_Get env (''http://'' @ TrimPrefix ''/proxy/'' (req_Path req)))"

definition clears_stats :: "http_Request \<Rightarrow> bool" where
  "clears_stats req \<longleftrightarrow> req_Method req = ''DELETE'' \<and> req_Path req = ''/stats''"

definition requests :: "'f proxy_env \<Rightarrow> http_Request list \<Rightarrow> 'f proxy_app \<Rightarrow> 'f proxy_app" where
  "requests env reqs app = fold (\<lambda>req a. snd (proxy_serve env req a)) reqs app"

lemma mux_stats: "mux_Handler proxy_mux path = MuxHandler StatsRoute \<longleftrightarrow> path = ''/stats''"
proof
  assume "mux_Handler proxy_mux path = MuxHandler StatsRoute"
  then show "path = ''/stats''"
    by (auto simp: mux_Handler_def proxy_mux_def pathMatch_def split: if_splits option.splits)
next
  have "mux_Handler proxy_mux ''/stats'' = MuxHandler StatsRoute" by code_simp
  then show "path = ''/stats'' \<Longrightarrow> mux_Handler proxy_mux path = MuxHandler StatsRoute" by simp
qed

text \<open>What a request does to the latencies: a measured one appends one, a deletion empties them.\<close>

lemma proxy_serve_latency:
  "length (Latency (pa_stats (snd (proxy_serve env req app)))) =
     (if clears_stats req then 0 else length (Latency (pa_stats app)) + (if measured env req then 1 else 0))"
proof (cases "mux_Handler proxy_mux (req_Path req)")
  case (MuxHandler route)
  show ?thesis
  proof (cases route)
    case Proxy
    with MuxHandler mux_stats [of "req_Path req"] have "\<not> clears_stats req" by (auto simp: clears_stats_def)
    with MuxHandler Proxy show ?thesis
      by (cases "pe_Get env (''http://'' @ TrimPrefix ''/proxy/'' (req_Path req))")
         (auto simp: proxy_serve_def proxy_handle_def ProxyHandler_def measured_def Stats_Add_def Let_def clock_Now_def
           split: sum.splits)
  next
    case StatsRoute
    with MuxHandler mux_stats [of "req_Path req"] show ?thesis
      by (auto simp: proxy_serve_def proxy_handle_def StatsHandler_def measured_def clears_stats_def Stats_Clear_def
          map_outcome_def json_Marshal_def)
  qed (use MuxHandler mux_stats [of "req_Path req"] in \<open>auto simp: proxy_serve_def proxy_handle_def map_outcome_def measured_def
      clears_stats_def split: outcome.splits\<close>)
qed (use mux_stats [of "req_Path req"] in \<open>auto simp: proxy_serve_def measured_def clears_stats_def\<close>)

lemma requests_latency:
  "\<forall>req\<in>set reqs. \<not> clears_stats req \<Longrightarrow>
     length (Latency (pa_stats (requests env reqs app))) = length (Latency (pa_stats app)) + length (filter (measured env) reqs)"
  by (induction reqs arbitrary: app) (simp_all add: requests_def proxy_serve_latency)

text \<open>Numbers are formatted as JSON numbers.\<close>

definition formats_numbers :: "'f proxy_env \<Rightarrow> bool" where
  "formats_numbers env \<longleftrightarrow> (\<forall>l. json_number (pe_Format env l) \<and> list_all num_char (pe_Format env l))"

lemma stats_answer:
  assumes "formats_numbers env" and "req_Method req \<noteq> ''DELETE''" and "req_Path req = ''/stats''"
  shows "\<exists>body. proxy_serve env req app = (Answered (Return (200, body)), app) \<and>
    json_parse body = Some (JObj [(''latency'', JArr (map (\<lambda>l. JNum (pe_Format env l)) (Latency (pa_stats app))))])"
proof -
  have "json_wf (Stats_json env (pa_stats app))"
    using assms(1) by (simp add: Stats_json_def list_all_iff formats_numbers_def)
  then have "json_parse (json_print (Stats_json env (pa_stats app))) = Some (json_valid (Stats_json env (pa_stats app)))"
    by (rule json_parse_print)
  moreover have "valid_utf8 ''latency'' = ''latency''" by (rule valid_utf8_ascii_string) simp
  ultimately have "json_parse (json_print (Stats_json env (pa_stats app)))
      = Some (JObj [(''latency'', JArr (map (\<lambda>l. JNum (pe_Format env l)) (Latency (pa_stats app))))])"
    by (simp add: Stats_json_def o_def del: json_print.simps)
  moreover have "proxy_serve env req app = (Answered (Return (200, json_print (Stats_json env (pa_stats app)))), app)"
    using assms(2,3) mux_stats [of "''/stats''"]
    by (simp add: proxy_serve_def proxy_handle_def StatsHandler_def json_Marshal_def map_outcome_def response_Write)
  ultimately show ?thesis by blast
qed

section \<open>Properties\<close>

text \<open>
  The statistics of the example application. After they were deleted, and after any requests to any
  handlers, \<open>/stats\<close> answers 200 with a JSON document that has one latency for each proxied request whose
  destination answered, and none for those that failed; asking for them changes nothing.
\<close>

theorem stats_list_proxied_requests:
  assumes "formats_numbers env" and "clears_stats del" and "\<forall>req\<in>set reqs. \<not> clears_stats req"
    and "req_Method req \<noteq> ''DELETE''" and "req_Path req = ''/stats''"
  shows "\<exists>body latencies. proxy_serve env req (requests env (del # reqs) app)
      = (Answered (Return (200, body)), requests env (del # reqs) app) \<and>
    json_parse body = Some (JObj [(''latency'', JArr latencies)]) \<and>
    length latencies = length (filter (measured env) reqs)"
proof -
  let ?app = "requests env (del # reqs) app"
  have "?app = requests env reqs (snd (proxy_serve env del app))" by (simp add: requests_def)
  with requests_latency [OF assms(3), of env "snd (proxy_serve env del app)"] proxy_serve_latency [of env del app] assms(2)
  have "length (Latency (pa_stats ?app)) = length (filter (measured env) reqs)" by simp
  moreover obtain body where "proxy_serve env req ?app = (Answered (Return (200, body)), ?app)"
    "json_parse body = Some (JObj [(''latency'', JArr (map (\<lambda>l. JNum (pe_Format env l)) (Latency (pa_stats ?app))))])"
    using stats_answer [OF assms(1,4,5)] by blast
  ultimately show ?thesis by (intro exI [of _ body]) auto
qed

definition sample_proxy_env :: "int proxy_env" where
  "sample_proxy_env =
     \<lparr>pe_LookupIP = (\<lambda>_. Inr [[10, 0, 0, 7]]), pe_InterfaceAddrs = Inr [''10.0.0.5/24''], pe_Stat = (\<lambda>_. None),
      pe_PingStart = (\<lambda>_ _. None), pe_PingEnd = (\<lambda>_ _. PingDone None),
      pe_Get = (\<lambda>url. if url = ''http://down:8080'' then Inl ''refused'' else Inr \<lparr>StatusCode = 200, Body = Inr ''hello''\<rparr>),
      pe_Seconds = (\<lambda>d. d div second), pe_Format = show_int, pe_Rand = (\<lambda>_. CHR ''x''), pe_MaxAlloc = 1000\<rparr>"

theorem stats_list_proxied_requests_witness:
  "\<exists>body latencies. proxy_serve sample_proxy_env \<lparr>req_Method = ''GET'', req_Path = ''/stats'', req_Body = None\<rparr>
      (requests sample_proxy_env
        [\<lparr>req_Method = ''DELETE'', req_Path = ''/stats'', req_Body = None\<rparr>,
         \<lparr>req_Method = ''GET'', req_Path = ''/proxy/up:8080'', req_Body = None\<rparr>,
         \<lparr>req_Method = ''GET'', req_Path = ''/proxy/down:8080'', req_Body = None\<rparr>]
        \<lparr>pa_port = 8080, pa_stats = \<lparr>Latency = [7, 7]\<rparr>, pa_clock = int\<rparr>)
      = (Answered (Return (200, body)), requests sample_proxy_env
        [\<lparr>req_Method = ''DELETE'', req_Path = ''/stats'', req_Body = None\<rparr>,
         \<lparr>req_Method = ''GET'', req_Path = ''/proxy/up:8080'', req_Body = None\<rparr>,
         \<lparr>req_Method = ''GET'', req_Path = ''/proxy/down:8080'', req_Body = None\<rparr>]
        \<lparr>pa_port = 8080, pa_stats = \<lparr>Latency = [7, 7]\<rparr>, pa_clock = int\<rparr>) \<and>
    json_parse body = Some (JObj [(''latency'', JArr latencies)]) \<and> length latencies = 1"
proof -
  let ?up = "\<lparr>req_Method = ''GET'', req_Path = ''/proxy/up:8080'', req_Body = None\<rparr> :: http_Request"
  let ?down = "\<lparr>req_Method = ''GET'', req_Path = ''/proxy/down:8080'', req_Body = None\<rparr> :: http_Request"
  have "formats_numbers sample_proxy_env"
    by (simp add: formats_numbers_def sample_proxy_env_def json_number_show_int num_char_show_int)
  moreover have "clears_stats \<lparr>req_Method = ''DELETE'', req_Path = ''/stats'', req_Body = None\<rparr>"
    and "\<forall>req\<in>set [?up, ?down]. \<not> clears_stats req" by (simp_all add: clears_stats_def)
  moreover have "mux_Handler proxy_mux ''/proxy/up:8080'' = MuxHandler Proxy"
    "mux_Handler proxy_mux ''/proxy/down:8080'' = MuxHandler Proxy" by code_simp+
  then have "filter (measured sample_proxy_env) [?up, ?down] = [?up]"
    by (simp add: measured_def sample_proxy_env_def TrimPrefix_def has_prefix_def)
  ultimately show ?thesis
    using stats_list_proxied_requests [of sample_proxy_env "\<lparr>req_Method = ''DELETE'', req_Path = ''/stats'', req_Body = None\<rparr>"
        "[?up, ?down]" "\<lparr>req_Method = ''GET'', req_Path = ''/stats'', req_Body = None\<rparr>"]
    by simp
qed

text \<open>
  The lookup handler prints the addresses in dotted decimal, except those that are not IPv4, for which
  it prints the text \<open><nil>\<close> as if it were an address.
\<close>

lemma dig_prints_nil_for_ipv6:
  assumes "pe_LookupIP env name = Inr ips" and "ips \<noteq> []" and "CHR '':'' \<notin> set name"
  shows "response (DigHandler env \<lparr>req_Method = m, req_Path = ''/dig/'' @ name, req_Body = b\<rparr> (new_response None)) =
    (200, json_print (JArr (map (\<lambda>ip. JStr (if To4 ip = [] then ''<nil>'' else join ''.'' (map show_nat (To4 ip)))) ips)))"
proof -
  have "before (CHR '':'') name = name" using assms(3) by (auto simp: before_def takeWhile_eq_all_conv)
  moreover have "TrimPrefix ''/dig/'' (''/dig/'' @ name) = name" by (rule TrimPrefix_append)
  ultimately show ?thesis
    using assms(1,2) unfolding DigHandler_def
    by (simp add: json_Marshal_def response_Write IP4_String_def Let_def o_def)
qed

text \<open>A download of a number of bytes that the allocator can serve has exactly that many.\<close>

lemma download_length:
  assumes "int n \<le> pe_MaxAlloc env" and "int n \<le> maxInt64"
  shows "\<exists>rw. DownloadHandler env \<lparr>req_Method = m, req_Path = ''/download/'' @ show_nat n, req_Body = b\<rparr> (new_response None)
      = Return rw \<and> fst (response rw) = 200 \<and> length (snd (response rw)) = n"
  using assms Atoi_show_nat [OF assms(2)] TrimPrefix_append [of "''/download/''" "show_nat n"]
  unfolding DownloadHandler_def by (simp add: response_Write Let_def)

end
