(* ===== verification/Go_Regexp.thy ===== *)
theory Go_Regexp
  imports Go_Json
begin

text \<open>
  The part of Go's package \<open>regexp\<close> that the program uses, on ASCII text: patterns made of literal
  characters, \<open>.\<close> and \<open>\d\<close>, each of them once, any number of times (\<open>*\<close>) or at least once (\<open>+\<close>). The
  matcher prefers what Go documents: of the matches that begin leftmost, the one that a backtracking
  search with greedy repetition finds first.
\<close>

section \<open>Patterns\<close>

abbreviation newline :: char where "newline \<equiv> CHR 0x0A"

datatype re_atom = Lit char | Dot | Digit

datatype re_item = Once re_atom | Star re_atom

fun re_accepts :: "re_atom \<Rightarrow> char \<Rightarrow> bool" where
  "re_accepts (Lit d) c \<longleftrightarrow> c = d"
| "re_accepts Dot c \<longleftrightarrow> c \<noteq> newline"
| "re_accepts Digit c \<longleftrightarrow> is_digit c"

definition re_special :: "char \<Rightarrow> bool" where
  "re_special c \<longleftrightarrow> c \<in> set (backslash # ''.+*?()|[]{}^$'')"

text \<open>An atom at the head of a pattern, with its repetition.\<close>

definition re_repeat :: "re_atom \<Rightarrow> string \<Rightarrow> re_item list \<times> string" where
  "re_repeat a s = (case s of
     c # s' \<Rightarrow> if c = CHR ''*'' then ([Star a], s') else if c = CHR ''+'' then ([Once a, Star a], s') else ([Once a], s)
   | [] \<Rightarrow> ([Once a], []))"

definition re_head :: "string \<Rightarrow> (re_atom \<times> string) option" where
  "re_head s = (case s of
     [] \<Rightarrow> None
   | c # s' \<Rightarrow>
       if c = backslash
       then (case s' of
               d # s'' \<Rightarrow> if d = CHR ''d'' then Some (Digit, s'') else if re_special d then Some (Lit d, s'') else None
             | [] \<Rightarrow> None)
       else if c = CHR ''.'' then Some (Dot, s')
       else if re_special c \<or> \<not> ascii c then None
       else Some (Lit c, s'))"

lemma re_head_length: "re_head s = Some (a, s') \<Longrightarrow> length s' < length s"
  by (auto simp: re_head_def split: list.splits if_splits)

lemma re_repeat_length: "length (snd (re_repeat a s)) \<le> length s"
  by (simp add: re_repeat_def split: list.splits)

text \<open>The pattern of a text, or \<open>None\<close> if it has a construct that is not modelled.\<close>

function re_compile :: "string \<Rightarrow> re_item list option" where
  "re_compile s =
     (if s = [] then Some []
      else case re_head s of
             None \<Rightarrow> None
           | Some (a, s') \<Rightarrow> map_option (append (fst (re_repeat a s'))) (re_compile (snd (re_repeat a s'))))"
  by pat_completeness auto
termination
  by (relation "measure length") (auto dest!: re_head_length intro: le_less_trans [OF re_repeat_length])

declare re_compile.simps [simp del]

section \<open>Matching\<close>

text \<open>The length of the preferred match at the beginning of a text.\<close>

function re_match :: "re_item list \<Rightarrow> string \<Rightarrow> nat option" where
  "re_match [] s = Some 0"
| "re_match (Once a # r) [] = None"
| "re_match (Once a # r) (c # s) = (if re_accepts a c then map_option Suc (re_match r s) else None)"
| "re_match (Star a # r) [] = re_match r []"
| "re_match (Star a # r) (c # s) =
     (if re_accepts a c
      then (case re_match (Star a # r) s of Some n \<Rightarrow> Some (Suc n) | None \<Rightarrow> re_match r (c # s))
      else re_match r (c # s))"
  by pat_completeness auto
termination by (relation "measures [\<lambda>(r, s). length r, \<lambda>(r, s). length s]") auto

text \<open>
  The first matches, at most \<open>n\<close>, from left to right and without overlap, of a pattern that matches no
  empty text.
\<close>

function FindAll :: "re_item list \<Rightarrow> string \<Rightarrow> nat \<Rightarrow> string list" where
  "FindAll r s n =
     (if n = 0 \<or> s = [] then []
      else case re_match r s of
             Some (Suc k) \<Rightarrow> take (Suc k) s # FindAll r (drop (Suc k) s) (n - 1)
           | _ \<Rightarrow> FindAll r (tl s) n)"
  by pat_completeness auto
termination by (relation "measure (\<lambda>(r, s, n). length s)") auto

declare FindAll.simps [simp del]

section \<open>The texts of a pattern\<close>

text \<open>Which texts a pattern stands for, without regard to preference.\<close>

fun re_lang :: "re_item list \<Rightarrow> string set" where
  "re_lang [] = {[]}"
| "re_lang (Once a # r) = {c # w | c w. re_accepts a c \<and> w \<in> re_lang r}"
| "re_lang (Star a # r) = {u @ w | u w. list_all (re_accepts a) u \<and> w \<in> re_lang r}"

lemma re_lang_Star_zero: "w \<in> re_lang r \<Longrightarrow> w \<in> re_lang (Star a # r)"
  using append_Nil [of w] by (force simp del: append_Nil)

lemma re_lang_Star_more:
  assumes "re_accepts a c" and "w \<in> re_lang (Star a # r)"
  shows "c # w \<in> re_lang (Star a # r)"
proof -
  from assms(2) obtain u v where w: "w = u @ v" "list_all (re_accepts a) u" "v \<in> re_lang r" by auto
  have "c # w = (c # u) @ v" "list_all (re_accepts a) (c # u)" using w assms(1) by simp_all
  with w(3) show ?thesis unfolding re_lang.simps by blast
qed

lemma re_match_sound: "re_match r s = Some n \<Longrightarrow> n \<le> length s \<and> take n s \<in> re_lang r"
proof (induction r s arbitrary: n rule: re_match.induct)
  case (4 a r)
  then show ?case using re_lang_Star_zero by simp
next
  case (5 a r c s)
  show ?case
  proof (cases "re_accepts a c \<and> re_match (Star a # r) s \<noteq> None")
    case True
    then obtain m where m: "re_accepts a c" "re_match (Star a # r) s = Some m" "n = Suc m" using "5.prems" by auto
    with "5.IH"(1) have "m \<le> length s" "take m s \<in> re_lang (Star a # r)" by blast+
    with m re_lang_Star_more [OF m(1)] show ?thesis by (simp del: re_lang.simps)
  next
    case False
    with "5.prems" have "re_match r (c # s) = Some n" by (auto split: if_splits)
    then have "n \<le> length (c # s) \<and> take n (c # s) \<in> re_lang r" using "5.IH"(2,3) False by (cases "re_accepts a c") auto
    then show ?thesis using re_lang_Star_zero by blast
  qed
qed (auto split: if_splits)

lemma re_match_complete: "w \<in> re_lang r \<Longrightarrow> re_match r (w @ t) \<noteq> None"
proof (induction r arbitrary: w)
  case (Cons x r)
  show ?case
  proof (cases x)
    case (Once a)
    with Cons.prems Cons.IH show ?thesis by auto
  next
    case (Star a)
    then obtain u v where w: "w = u @ v" "list_all (re_accepts a) u" "v \<in> re_lang r" using Cons.prems by auto
    have "re_match (Star a # r) (u @ v @ t) \<noteq> None" using w(2)
    proof (induction u)
      case Nil
      show ?case using Cons.IH [OF w(3)] by (cases "v @ t") (auto split: option.splits)
    qed auto
    with w(1) Star show ?thesis by simp
  qed
qed simp

lemma re_match_iff: "re_match r s \<noteq> None \<longleftrightarrow> (\<exists>w t. s = w @ t \<and> w \<in> re_lang r)"
proof
  assume "re_match r s \<noteq> None"
  then obtain n where "take n s \<in> re_lang r" using re_match_sound by blast
  then show "\<exists>w t. s = w @ t \<and> w \<in> re_lang r" by (metis append_take_drop_id)
qed (use re_match_complete in blast)

section \<open>Matches within lines\<close>

fun re_atom_of :: "re_item \<Rightarrow> re_atom" where
  "re_atom_of (Once a) = a"
| "re_atom_of (Star a) = a"

text \<open>A pattern that matches neither a line break nor the empty text.\<close>

definition line_pattern :: "re_item list \<Rightarrow> bool" where
  "line_pattern r \<longleftrightarrow> list_all (\<lambda>x. \<not> re_accepts (re_atom_of x) newline) r \<and> list_ex (\<lambda>x. \<exists>a. x = Once a) r"

text \<open>A text of the pattern occurs in the line.\<close>

definition occurs :: "re_item list \<Rightarrow> string \<Rightarrow> bool" where
  "occurs r l \<longleftrightarrow> (\<exists>u w t. l = u @ w @ t \<and> w \<in> re_lang r)"

text \<open>The rest of a text after a line: nothing, or a line break and more lines.\<close>

definition line_rest :: "string \<Rightarrow> bool" where
  "line_rest t \<longleftrightarrow> (case t of [] \<Rightarrow> True | c # _ \<Rightarrow> c = newline)"

lemma re_match_line:
  "list_all (\<lambda>x. \<not> re_accepts (re_atom_of x) newline) r \<Longrightarrow> newline \<notin> set l \<Longrightarrow> line_rest t \<Longrightarrow> re_match r (l @ t) = re_match r l"
proof (induction r l rule: re_match.induct)
  case (2 a r)
  then show ?case by (cases t) (auto simp: line_rest_def)
next
  case (4 a r)
  then show ?case by (cases t) (auto simp: line_rest_def)
qed (auto split: option.splits)

lemma re_match_Nil: "list_ex (\<lambda>x. \<exists>a. x = Once a) r \<Longrightarrow> re_match r [] = None"
  by (induction r "[] :: string" rule: re_match.induct) auto

lemma line_pattern_match:
  assumes "line_pattern r" and "newline \<notin> set l" and "line_rest t"
  shows "re_match r (l @ t) = re_match r l" and "re_match r t = None"
proof -
  show "re_match r (l @ t) = re_match r l" using assms by (intro re_match_line) (simp_all add: line_pattern_def)
  show "re_match r t = None"
    using re_match_line [of r "[]" t] re_match_Nil [of r] assms by (simp add: line_pattern_def)
qed

lemma FindAll_no_match: "re_match r s = None \<Longrightarrow> FindAll r s n = FindAll r (tl s) n"
  by (cases s; subst FindAll.simps) (auto simp: FindAll.simps)

lemma FindAll_newline: "line_pattern r \<Longrightarrow> FindAll r (newline # t) n = FindAll r t n"
  using line_pattern_match(2) [of r "[]" "newline # t"] FindAll_no_match [of r "newline # t" n] by (simp add: line_rest_def)

lemma occurs_Cons: "occurs r (c # l) \<longleftrightarrow> re_match r (c # l) \<noteq> None \<or> occurs r l"
proof
  assume "occurs r (c # l)"
  then obtain u w t where w: "c # l = u @ w @ t" "w \<in> re_lang r" by (auto simp: occurs_def)
  show "re_match r (c # l) \<noteq> None \<or> occurs r l"
  proof (cases u)
    case Nil
    with w have "re_match r (c # l) \<noteq> None" using re_match_complete [OF w(2), of t] by simp
    then show ?thesis ..
  next
    case (Cons d u')
    with w have "l = u' @ w @ t" by simp
    with w(2) show ?thesis unfolding occurs_def by blast
  qed
next
  assume "re_match r (c # l) \<noteq> None \<or> occurs r l"
  then show "occurs r (c # l)"
  proof
    assume "re_match r (c # l) \<noteq> None"
    then obtain w t where "c # l = [] @ w @ t" "w \<in> re_lang r" unfolding re_match_iff by auto
    then show ?thesis unfolding occurs_def by blast
  next
    assume "occurs r l"
    then obtain u w t where "c # l = (c # u) @ w @ t" "w \<in> re_lang r" by (auto simp: occurs_def)
    then show ?thesis unfolding occurs_def by blast
  qed
qed

lemma occurs_Nil: "line_pattern r \<Longrightarrow> \<not> occurs r []"
  using re_match_Nil [of r] re_match_complete [of "[]" r "[]"] by (auto simp: occurs_def line_pattern_def)

section \<open>One match per line\<close>

text \<open>A pattern that ends with \<open>.*\<close> and a character runs to the last such character of the line.\<close>

abbreviation up_to_last :: "char \<Rightarrow> re_item list" where
  "up_to_last z \<equiv> [Star Dot, Once (Lit z)]"

lemma up_to_last_found:
  assumes "newline \<notin> set s" and "z \<in> set s"
  shows "re_match (up_to_last z) s \<noteq> None"
proof -
  from assms(2) obtain u v where s: "s = u @ z # v" by (auto dest: split_list)
  have "list_all (re_accepts Dot) u" using assms(1) s by (auto simp: list_all_iff)
  then have "u @ [z] \<in> re_lang (up_to_last z)" by auto
  from re_match_complete [OF this, of v] s show ?thesis by simp
qed

lemma up_to_last_greedy:
  "newline \<notin> set s \<Longrightarrow> re_match (up_to_last z) s = Some n \<Longrightarrow> z \<notin> set (drop n s)"
proof (induction s arbitrary: n)
  case (Cons c s)
  show ?case
  proof (cases "re_match (up_to_last z) s")
    case None
    with up_to_last_found [of s z] Cons.prems show ?thesis by (auto split: if_splits)
  next
    case (Some m)
    with Cons show ?thesis by auto
  qed
qed simp

lemma greedy_to_last:
  "newline \<notin> set s \<Longrightarrow> re_match (q @ up_to_last z) s = Some n \<Longrightarrow> z \<notin> set (drop n s)"
proof (induction q arbitrary: s n)
  case Nil
  then show ?case using up_to_last_greedy by simp
next
  case (Cons x q)
  show ?case
  proof (cases x)
    case (Once a)
    with Cons show ?thesis by (cases s) (auto split: if_splits)
  next
    case (Star a)
    from Cons.prems show ?thesis unfolding Star
    proof (induction s arbitrary: n)
      case Nil
      with Cons.IH [of "[]" n] show ?case by simp
    next
      case (Cons c s)
      show ?case
      proof (cases "re_accepts a c \<and> re_match ((Star a # q) @ up_to_last z) s \<noteq> None")
        case True
        with Cons show ?thesis by auto
      next
        case False
        with Cons.prems have "re_match (q @ up_to_last z) (c # s) = Some n" by (auto split: if_splits)
        with Cons.prems \<open>\<And>s n. newline \<notin> set s \<Longrightarrow> re_match (q @ up_to_last z) s = Some n \<Longrightarrow> z \<notin> set (drop n s)\<close>
        show ?thesis by blast
      qed
    qed
  qed
qed

lemma lang_has_last: "w \<in> re_lang (q @ up_to_last z) \<Longrightarrow> z \<in> set w"
  by (induction q arbitrary: w rule: re_lang.induct) auto

lemma occurs_last: "occurs (q @ up_to_last z) l \<Longrightarrow> z \<in> set l"
  using lang_has_last by (auto simp: occurs_def)

lemma FindAll_no_occurrence:
  assumes "line_pattern r" and "newline \<notin> set l" and "line_rest t" and "\<not> occurs r l"
  shows "FindAll r (l @ t) n = FindAll r t n"
  using assms(2,4)
proof (induction l)
  case (Cons c l)
  then have "re_match r (c # l) = None" "\<not> occurs r l" by (simp_all add: occurs_Cons)
  with Cons line_pattern_match(1) [OF assms(1) Cons.prems(1) assms(3)] FindAll_no_match [of r "(c # l) @ t" n]
  show ?case by simp
qed simp

lemma FindAll_line:
  assumes "line_pattern r" and "r = q @ up_to_last z" and "newline \<notin> set l" and "line_rest t"
  shows "length (FindAll r (l @ t) n) =
    (if 0 < n \<and> occurs r l then Suc (length (FindAll r t (n - 1))) else length (FindAll r t n))"
  using assms(3)
proof (induction l)
  case Nil
  show ?case using occurs_Nil [OF assms(1)] by simp
next
  case (Cons c l)
  note m = line_pattern_match(1) [OF assms(1) Cons.prems assms(4)]
  show ?case
  proof (cases "re_match r (c # l)")
    case None
    with m Cons FindAll_no_match [of r "(c # l) @ t" n] show ?thesis by (simp add: occurs_Cons)
  next
    case (Some k)
    have "\<not> occurs r (drop k (c # l))"
      using greedy_to_last [of "c # l" q z k] Cons.prems Some occurs_last [of q z] unfolding assms(2) by auto
    then have rest: "FindAll r (drop k (c # l) @ t) (n - 1) = FindAll r t (n - 1)"
      using Cons.prems by (intro FindAll_no_occurrence [OF assms(1) _ assms(4)]) (auto dest: in_set_dropD)
    have k: "k \<le> length (c # l)" "k \<noteq> 0"
      using re_match_sound [OF Some] occurs_Nil [OF assms(1)] by (auto simp: occurs_def intro!: Nat.gr0I)
    have occ: "occurs r (c # l)" using Some by (simp add: occurs_Cons)
    from k obtain j where j: "k = Suc j" by (cases k) auto
    show ?thesis
    proof (cases n)
      case (Suc n')
      then have "FindAll r ((c # l) @ t) n = take k ((c # l) @ t) # FindAll r (drop k ((c # l) @ t)) n'"
        using m Some j by (subst FindAll.simps) simp
      then show ?thesis using rest k occ Suc by (simp del: append_Cons)
    qed (simp add: FindAll.simps)
  qed
qed

text \<open>
  The number of matches, up to the limit, of a pattern that ends with \<open>.*\<close> and a character: the
  number of lines in which the pattern occurs.
\<close>

lemma FindAll_counts_lines:
  assumes "line_pattern r" and "r = q @ up_to_last z"
  shows "length (FindAll r s n) = min n (length (filter (occurs r) (split_at newline s)))"
proof (induction s arbitrary: n rule: length_induct)
  case (1 s)
  define l where "l = takeWhile (\<lambda>c. c \<noteq> newline) s"
  have l: "newline \<notin> set l" by (auto simp: l_def dest: set_takeWhileD)
  show ?case
  proof (cases "dropWhile (\<lambda>c. c \<noteq> newline) s")
    case Nil
    then have s: "s = l" using takeWhile_dropWhile_id [of "\<lambda>c. c \<noteq> newline" s] unfolding l_def by (metis append_Nil2)
    have "length (FindAll r l n) = (if 0 < n \<and> occurs r l then 1 else 0)"
      using FindAll_line [OF assms l, of "[]" n] by (simp add: line_rest_def FindAll.simps)
    moreover have "split_at newline l = [l]" using l by (rule split_at_piece)
    ultimately show ?thesis unfolding s by simp
  next
    case (Cons c t)
    then have "c = newline" using hd_dropWhile [of "\<lambda>c. c \<noteq> newline" s] by simp
    with Cons have s: "s = l @ newline # t"
      using takeWhile_dropWhile_id [of "\<lambda>c. c \<noteq> newline" s] by (simp add: l_def)
    then have IH: "length (FindAll r t m) = min m (length (filter (occurs r) (split_at newline t)))" for m using 1 by simp
    have "length (FindAll r (l @ newline # t) n) = (if 0 < n \<and> occurs r l then Suc (length (FindAll r t (n - 1))) else length (FindAll r t n))"
      using FindAll_line [OF assms l, of "newline # t" n] by (simp add: line_rest_def FindAll_newline [OF assms(1)])
    moreover have "split_at newline (l @ newline # t) = l # split_at newline t" using l by (rule split_at_append)
    ultimately show ?thesis unfolding s by (cases n) (simp_all add: IH)
  qed
qed

end
