(* ===== verification/Diglett.thy ===== *)
theory Diglett
  imports Proxy_App Go_Regexp
begin

text \<open>
  Model of the example application \<open>example-apps/diglett\<close>, which looks a name up at every tick of a
  timer by running the program \<open>dig\<close>, and logs the query time and the number of answers that it finds
  in the output with two regular expressions. What \<open>dig\<close> prints and \<open>regexp.Compile\<close> are arguments; the
  latter is assumed to be \<open>Go_Regexp\<close> on the patterns that it models. The time stamp of the log is left out.
\<close>

section \<open>The application\<close>

text \<open>A compiled expression is used through the list of its matches, at most a given number of them.\<close>

type_synonym regexp = "string \<Rightarrow> nat \<Rightarrow> string list"

definition Find :: "regexp \<Rightarrow> string \<Rightarrow> string" where
  "Find re s = (case re s 1 of [] \<Rightarrow> [] | m # _ \<Rightarrow> m)"

record 'f diglett =
  dl_port :: int
  dl_stats :: "'f Stats"
  dl_destination :: string
  dl_interval :: duration
  queryTimeRegexp :: regexp
  queryTimePrefixLength :: nat
  answerSectionRegexp :: regexp

definition getQueryTime :: "'f diglett \<Rightarrow> string \<Rightarrow> string" where
  "getQueryTime d digOutput =
     (let queryTimeLine = Find (queryTimeRegexp d) digOutput
      in if length queryTimeLine < queryTimePrefixLength d then ''INVALID TIME''
         else drop (queryTimePrefixLength d) queryTimeLine)"

definition getNumAnswers :: "'f diglett \<Rightarrow> string \<Rightarrow> nat" where
  "getNumAnswers d digOutput = length (answerSectionRegexp d digOutput 500)"

text \<open>
  \<open>main\<close> up to its loop: a message of \<open>log.Fatal\<close>, a panic, or the application. The arguments are the
  compiler of expressions, the result of setting \<open>PATH\<close>, and the three variables of the environment.
\<close>

definition query_text :: string where
  "query_text = ''Query time: '' @ [backslash] @ ''d+.*''"

definition diglett_main ::
    "(string \<Rightarrow> go_error + regexp) \<Rightarrow> go_error option \<Rightarrow> string \<Rightarrow> string \<Rightarrow> string \<Rightarrow> (string + 'f diglett) outcome" where
  "diglett_main Compile setenv PORT DESTINATION FREQUENCY =
     (case Compile query_text of
        Inl err \<Rightarrow> Panic (ExplicitPanic err)
      | Inr query \<Rightarrow>
          (case Atoi PORT of
             None \<Rightarrow> Return (Inl ''invalid required env var PORT'')
           | Some systemPort \<Rightarrow>
               if DESTINATION = [] then Return (Inl ''invalid required env var DIGLETT_DESTINATION'')
               else case Compile (DESTINATION @ ''.*IN.*A'') of
                      Inl err \<Rightarrow> Panic (ExplicitPanic err)
                    | Inr answer \<Rightarrow>
                        (case Atoi FREQUENCY of
                           None \<Rightarrow> Return (Inl ''invalid required env var DIGLETT_FREQUENCY_MS'')
                         | Some frequency \<Rightarrow>
                             if setenv \<noteq> None then Return (Inl ''unable to set PATH'')
                             else let interval = int64 (frequency * 1000000)
                                  in if interval \<le> 0 then Panic (ExplicitPanic ''non-positive interval for NewTicker'')
                                     else Return (Inr \<lparr>dl_port = systemPort, dl_stats = \<lparr>Latency = []\<rparr>,
                                       dl_destination = DESTINATION, dl_interval = interval, queryTimeRegexp = query,
                                       queryTimePrefixLength = length ''Query time: '', answerSectionRegexp = answer\<rparr>))))"

text \<open>A tick: \<open>dig\<close> fails, or its output is logged. The loop logs a line for each tick until \<open>dig\<close> fails.\<close>

definition diglett_tick :: "'f diglett \<Rightarrow> go_error + string \<Rightarrow> string outcome" where
  "diglett_tick d result =
     (case result of
        Inl err \<Rightarrow> Panic (ExplicitPanic err)
      | Inr output \<Rightarrow> Return (''dig '' @ dl_destination d @ '' '' @ getQueryTime d output @ '' '' @
          show_nat (getNumAnswers d output) @ '' answers''))"

fun diglett_loop :: "'f diglett \<Rightarrow> (go_error + string) list \<Rightarrow> string list \<times> go_panic option" where
  "diglett_loop d [] = ([], None)"
| "diglett_loop d (result # results) =
     (case diglett_tick d result of
        Panic p \<Rightarrow> ([], Some p)
      | Return line \<Rightarrow> (let (lines, p) = diglett_loop d results in (line # lines, p)))"

text \<open>
  The handlers are copies of the proxy's, in a package of their own.
\<close>

definition diglett_InfoHandler :: "'f proxy_env \<Rightarrow> int \<Rightarrow> http_Request \<Rightarrow> ResponseWriter \<Rightarrow> ResponseWriter outcome" where
  "diglett_InfoHandler = InfoHandler"

definition diglett_StatsHandler ::
    "'f proxy_env \<Rightarrow> http_Request \<Rightarrow> ResponseWriter \<times> 'f Stats \<Rightarrow> (ResponseWriter \<times> 'f Stats) outcome" where
  "diglett_StatsHandler = StatsHandler"

datatype diglett_route = DiglettStats | DiglettInfo

definition diglett_mux :: "(string \<times> diglett_route) list" where
  "diglett_mux = [(''/stats'', DiglettStats), (''/'', DiglettInfo)]"

definition diglett_serve ::
    "'f proxy_env \<Rightarrow> http_Request \<Rightarrow> 'f diglett \<Rightarrow> (int \<times> string) outcome proxy_reply \<times> 'f diglett" where
  "diglett_serve env req d =
     (case mux_Handler diglett_mux (req_Path req) of
        MuxHandler DiglettStats \<Rightarrow>
          (case diglett_StatsHandler env req (new_response None, dl_stats d) of
             Return (rw, stats) \<Rightarrow> (Answered (Return (response rw)), d\<lparr>dl_stats := stats\<rparr>)
           | Panic p \<Rightarrow> (Answered (Panic p), d))
      | MuxHandler DiglettInfo \<Rightarrow>
          (case diglett_InfoHandler env (dl_port d) req (new_response None) of
             Return rw \<Rightarrow> (Answered (Return (response rw)), d)
           | Panic p \<Rightarrow> (Answered (Panic p), d))
      | MuxRedirect p \<Rightarrow> (RedirectedTo p, d)
      | MuxNotFound \<Rightarrow> (NoHandler, d))"

section \<open>The two expressions\<close>

text \<open>What the program relies on of \<open>regexp.Compile\<close>: on ASCII text it finds what the model finds.\<close>

definition compiles_as_modelled :: "(string \<Rightarrow> go_error + regexp) \<Rightarrow> bool" where
  "compiles_as_modelled Compile \<longleftrightarrow>
     (\<forall>p r. re_compile p = Some r \<and> line_pattern r \<longrightarrow>
        (\<exists>re. Compile p = Inr re \<and> (\<forall>s n. list_all ascii s \<longrightarrow> re s n = FindAll r s n)))"

definition query_pattern :: "re_item list" where
  "query_pattern = map (\<lambda>c. Once (Lit c)) ''Query time: '' @ [Once Digit, Star Digit, Star Dot]"

definition answer_pattern :: "string \<Rightarrow> re_item list" where
  "answer_pattern destination =
     (map (\<lambda>c. Once (if c = CHR ''.'' then Dot else Lit c)) destination @ [Star Dot, Once (Lit (CHR ''I'')), Once (Lit (CHR ''N''))])
       @ up_to_last (CHR ''A'')"

text \<open>The characters of hostnames.\<close>

definition host_char :: "char \<Rightarrow> bool" where
  "host_char c \<longleftrightarrow> in_range 97 122 c \<or> in_range 65 90 c \<or> is_digit c \<or> c \<in> set ''-._''"

lemma query_compiles: "re_compile query_text = Some query_pattern"
  by code_simp

lemma host_char_plain: "host_char c \<Longrightarrow> c \<noteq> CHR ''.'' \<Longrightarrow> \<not> re_special c \<and> ascii c \<and> c \<noteq> newline \<and> c \<noteq> backslash"
  by (auto simp: host_char_def re_special_def in_range_def is_digit_def)

lemma host_head:
  assumes "host_char c"
  shows "re_head (c # s) = Some (if c = CHR ''.'' then Dot else Lit c, s)"
  using assms host_char_plain [OF assms] by (auto simp: re_head_def)

lemma answer_compiles:
  "list_all host_char destination \<Longrightarrow> re_compile (destination @ ''.*IN.*A'') = Some (answer_pattern destination)"
proof (induction destination)
  case Nil
  show ?case by code_simp
next
  case (Cons c s)
  have "re_repeat a (s @ ''.*IN.*A'') = ([Once a], s @ ''.*IN.*A'')" for a
    using Cons.prems by (cases s) (auto simp: re_repeat_def host_char_def in_range_def is_digit_def)
  with Cons host_head [of c "s @ ''.*IN.*A''"] show ?case
    by (subst re_compile.simps) (simp add: answer_pattern_def)
qed

lemma line_patterns: "line_pattern query_pattern" "list_all host_char destination \<Longrightarrow> line_pattern (answer_pattern destination)"
proof -
  show "line_pattern query_pattern" by (simp add: line_pattern_def query_pattern_def is_digit_def in_range_def)
  have "host_char c \<Longrightarrow> \<not> re_accepts (if c = CHR ''.'' then Dot else Lit c) newline" for c
    using host_char_plain [of c] by auto
  then show "list_all host_char destination \<Longrightarrow> line_pattern (answer_pattern destination)"
    unfolding line_pattern_def answer_pattern_def list_all_append list_ex_append by (auto simp: list_all_iff)
qed

section \<open>What is logged\<close>

lemma re_match_literals:
  "re_match (map (\<lambda>c. Once (Lit c)) p @ r) s =
     (if has_prefix p s then map_option ((+) (length p)) (re_match r (drop (length p) s)) else None)"
proof (induction p arbitrary: s)
  case Nil
  have "map_option ((+) 0) x = x" for x :: "nat option" by (cases x) simp_all
  then show ?case by (simp add: has_prefix_def)
next
  case (Cons c p)
  show ?case by (cases s) (auto simp: Cons.IH has_prefix_def option.map_comp o_def)
qed

lemma re_match_dots: "re_match [Star Dot] s = Some (length (takeWhile (\<lambda>c. c \<noteq> newline) s))"
  by (induction s) simp_all

lemma re_match_digits_dots:
  "re_match [Star Digit, Star Dot] s = Some (length (takeWhile (\<lambda>c. c \<noteq> newline) s))"
proof (induction s)
  case (Cons c s)
  have "\<not> is_digit newline" by (simp add: is_digit_def in_range_def)
  with Cons re_match_dots [of "c # s"] show ?case by auto
qed simp

lemma query_match:
  assumes "is_digit c" and "newline \<notin> set t" and "line_rest rest"
  shows "re_match query_pattern (''Query time: '' @ c # t @ rest) = Some (length (''Query time: '' @ c # t))"
proof -
  have "takeWhile (\<lambda>c. c \<noteq> newline) (t @ rest) = t"
    using assms(2,3) by (cases rest) (auto simp: line_rest_def takeWhile_append takeWhile_eq_all_conv)
  with re_match_digits_dots [of "t @ rest"] have "re_match [Once Digit, Star Digit, Star Dot] (c # t @ rest) = Some (Suc (length t))"
    using assms(1) by simp
  then show ?thesis unfolding query_pattern_def re_match_literals by (simp add: has_prefix_def)
qed

lemma query_no_match: "\<not> has_prefix ''Query time: '' s \<Longrightarrow> re_match query_pattern s = None"
  unfolding query_pattern_def re_match_literals by (simp only: if_False)

lemma FindAll_first:
  assumes "re_match r v = Some n" and "0 < n" and "\<And>k. k < length pre \<Longrightarrow> re_match r (drop k (pre @ v)) = None"
  shows "FindAll r (pre @ v) 1 = [take n v]"
  using assms(3)
proof (induction pre)
  case Nil
  from re_match_sound [OF assms(1)] assms(2) have "v \<noteq> []" by auto
  then have "FindAll r v 1 = take n v # FindAll r (drop n v) 0"
    using assms(1,2) by (subst FindAll.simps) (simp split: nat.splits)
  then show ?case by (simp add: FindAll.simps)
next
  case (Cons c pre)
  have "re_match r (drop k (pre @ v)) = None" if "k < length pre" for k using Cons.prems [of "Suc k"] that by simp
  with Cons.IH Cons.prems [of 0] FindAll_no_match [of r "(c # pre) @ v" 1] show ?case by simp
qed

lemma diglett_main_regexps:
  assumes "diglett_main Compile setenv PORT destination FREQUENCY = Return (Inr d)"
  shows "Compile query_text = Inr (queryTimeRegexp d)" and "Compile (destination @ ''.*IN.*A'') = Inr (answerSectionRegexp d)"
    and "dl_destination d = destination" and "queryTimePrefixLength d = 12" and "Latency (dl_stats d) = []"
  using assms by (auto simp: diglett_main_def Let_def split: sum.splits option.splits if_splits)

section \<open>Properties\<close>

text \<open>
  C30: what a tick logs. For a destination that is a hostname and ASCII output of \<open>dig\<close>, the line has the
  destination, the rest of the line after the first \<open>Query time: \<close> if a digit follows there, and the
  number of lines, up to 500, in which the destination (with each dot standing for any character) is followed by \<open>IN\<close> and
  then by \<open>A\<close>, which every record of a type like \<open>AAAA\<close> or \<open>CNAME\<close> is, too.
\<close>

theorem diglett_logs_time_and_answers:
  assumes "compiles_as_modelled Compile" and "diglett_main Compile setenv PORT destination FREQUENCY = Return (Inr d)"
    and "list_all host_char destination" and "output = pre @ ''Query time: '' @ c # t @ rest" and "list_all ascii output"
    and "is_digit c" and "newline \<notin> set t" and "line_rest rest"
    and "\<forall>k<length pre. \<not> has_prefix ''Query time: '' (drop k output)"
  shows "diglett_tick d (Inr output) = Return (''dig '' @ destination @ '' '' @ (c # t) @ '' '' @
    show_nat (min 500 (length (filter (occurs (answer_pattern destination)) (split_at newline output)))) @ '' answers'')"
proof -
  note d = diglett_main_regexps [OF assms(2)]
  have query: "queryTimeRegexp d output n = FindAll query_pattern output n"
    and answer: "answerSectionRegexp d output n = FindAll (answer_pattern destination) output n" for n
    using assms(1,5) d(1,2) query_compiles answer_compiles [OF assms(3)] line_patterns assms(3)
    unfolding compiles_as_modelled_def by (metis sum.inject(2))+
  have "FindAll query_pattern output 1 = [take (length (''Query time: '' @ c # t)) (''Query time: '' @ c # t @ rest)]"
    using assms(9) unfolding assms(4) by (intro FindAll_first query_match [OF assms(6-8)] query_no_match) simp_all
  also have "take (length (''Query time: '' @ c # t)) (''Query time: '' @ c # t @ rest) = ''Query time: '' @ c # t"
    by (simp only: append_Cons append_assoc append_eq_conv_conj flip: append_assoc) simp
  finally have "getQueryTime d output = c # t" by (simp add: getQueryTime_def Find_def query d(4))
  moreover have "getNumAnswers d output = min 500 (length (filter (occurs (answer_pattern destination)) (split_at newline output)))"
    using FindAll_counts_lines [OF line_patterns(2) [OF assms(3)] answer_pattern_def] by (simp add: getNumAnswers_def answer)
  ultimately show ?thesis by (simp add: diglett_tick_def d(3))
qed

definition sample_dig_output :: string where
  "sample_dig_output = ''app.internal. 0 IN A 10.0.0.7'' @ [newline] @ '';; '' @ ''Query time: '' @ CHR ''4'' # '' msec'' @ [newline]"

theorem diglett_logs_time_and_answers_witness:
  "\<exists>d :: int diglett.
     diglett_main (\<lambda>p. case re_compile p of None \<Rightarrow> Inl ''error parsing regexp'' | Some r \<Rightarrow> Inr (FindAll r)) None
       ''8080'' ''app.internal'' ''100'' = Return (Inr d) \<and>
     diglett_tick d (Inr sample_dig_output) = Return ''dig app.internal 4 msec 1 answers''"
proof -
  let ?C = "\<lambda>p. case re_compile p of None \<Rightarrow> Inl ''error parsing regexp'' | Some r \<Rightarrow> Inr (FindAll r)"
  let ?pre = "''app.internal. 0 IN A 10.0.0.7'' @ [newline] @ '';; ''"
  have C: "compiles_as_modelled ?C" by (auto simp: compiles_as_modelled_def)
  have host: "list_all host_char ''app.internal''" by code_simp
  have "Atoi ''8080'' = Some 8080" "Atoi ''100'' = Some 100" by code_simp+
  then obtain d :: "int diglett" where d: "diglett_main ?C None ''8080'' ''app.internal'' ''100'' = Return (Inr d)"
    using query_compiles answer_compiles [OF host] int64_id [of "100000000"]
    by (auto simp: diglett_main_def Let_def is_int64_def minInt64_def maxInt64_def simp del: append_Cons append_Nil)
  have "occurs (answer_pattern ''app.internal'') ''app.internal. 0 IN A 10.0.0.7''"
    unfolding occurs_Cons by (rule disjI1) code_simp
  moreover have "\<not> occurs (answer_pattern ''app.internal'') l" if "CHR ''A'' \<notin> set l" for l
    using occurs_last that unfolding answer_pattern_def by blast
  moreover have "split_at newline sample_dig_output = [''app.internal. 0 IN A 10.0.0.7'', '';; Query time: 4 msec'', []]" by code_simp
  ultimately have lines: "filter (occurs (answer_pattern ''app.internal'')) (split_at newline sample_dig_output) = [''app.internal. 0 IN A 10.0.0.7'']"
    by simp
  have "diglett_tick d (Inr sample_dig_output) = Return (''dig '' @ ''app.internal'' @ '' '' @ (CHR ''4'' # '' msec'') @ '' '' @
      show_nat (min 500 (length (filter (occurs (answer_pattern ''app.internal'')) (split_at newline sample_dig_output)))) @ '' answers'')"
  proof (rule diglett_logs_time_and_answers [OF C d host])
    show "sample_dig_output = ?pre @ ''Query time: '' @ CHR ''4'' # '' msec'' @ [newline]" by (simp add: sample_dig_output_def)
    show "list_all ascii sample_dig_output" by code_simp
    show "is_digit (CHR ''4'')" by code_simp
    have "list_all (\<lambda>k. \<not> has_prefix ''Query time: '' (drop k sample_dig_output)) [0..<33]" by code_simp
    then show "\<forall>k<length ?pre. \<not> has_prefix ''Query time: '' (drop k sample_dig_output)" by (simp add: list_all_iff)
  qed (simp_all add: line_rest_def)
  moreover have "show_nat 1 = ''1''" by code_simp
  ultimately show ?thesis using d unfolding lines by auto
qed

text \<open>Nothing adds to the statistics that the application serves: they are empty after any requests.\<close>

lemma diglett_stats_empty:
  assumes "diglett_main Compile setenv PORT destination FREQUENCY = Return (Inr d)"
  shows "Latency (dl_stats (fold (\<lambda>req d. snd (diglett_serve env req d)) reqs d)) = []"
proof -
  have step: "Latency (dl_stats (snd (diglett_serve env req e))) = []" if "Latency (dl_stats e) = []" for req and e :: "'a diglett"
    using that by (auto simp: diglett_serve_def diglett_StatsHandler_def StatsHandler_def Stats_Clear_def
        split: mux_result.splits diglett_route.splits outcome.splits sum.splits if_splits prod.splits)
  have "Latency (dl_stats (fold (\<lambda>req d. snd (diglett_serve env req d)) reqs e)) = []" if "Latency (dl_stats e) = []" for e :: "'a diglett"
    using that by (induction reqs arbitrary: e) (simp_all add: step)
  from this [OF diglett_main_regexps(5) [OF assms]] show ?thesis .
qed

text \<open>The application runs only with a positive interval; any other number in the environment makes the ticker panic.\<close>

lemma diglett_interval_positive:
  "diglett_main Compile setenv PORT destination FREQUENCY = Return (Inr d) \<Longrightarrow> 0 < dl_interval d"
  by (auto simp: diglett_main_def Let_def split: sum.splits option.splits if_splits)

end
