(* ===== verification/Test_Helpers.thy ===== *)
theory Test_Helpers
  imports Sdc_Client
begin

text \<open>
  Model of \<open>test-helpers\<close>: the certificates that the suites generate, the HTTP client they use and the
  server that occupies a port. The file system is a map from names to contents; keys, signatures,
  DER and PEM are those of Go's \<open>crypto\<close> and \<open>encoding/pem\<close> packages, which are arguments, with what is
  relied on of them as the hypothesis \<open>x509_laws\<close>. A failed expectation panics, as it does in a test.
\<close>

section \<open>Certificates\<close>

record x509_Certificate =
  SerialNumber :: int
  SignatureAlgorithm :: string
  Country :: "string list"
  Organization :: "string list"
  CommonName :: string
  IPAddresses :: "string list"
  NotBefore :: gotime
  NotAfter :: gotime
  BasicConstraintsValid :: bool
  IsCA :: bool
  KeyUsage :: "string set"
  ExtKeyUsage :: "string list"

text \<open>
  A certificate that was created: its public key, the key that signed it and the name of the issuer. The
  encoding keeps times to the second.
\<close>

record ('key, 'pub) signed_Certificate = x509_Certificate +
  PublicKey :: 'pub
  SignedWith :: 'key
  Issuer :: "string list \<times> string list \<times> string"

definition whole_seconds :: "gotime \<Rightarrow> gotime" where
  "whole_seconds t = t - t mod second"

definition signed :: "x509_Certificate \<Rightarrow> x509_Certificate \<Rightarrow> 'pub \<Rightarrow> 'key \<Rightarrow> ('key, 'pub) signed_Certificate" where
  "signed template parent pub priv =
     x509_Certificate.extend
       (template\<lparr>NotBefore := whole_seconds (NotBefore template), NotAfter := whole_seconds (NotAfter template)\<rparr>)
       \<lparr>PublicKey = pub, SignedWith = priv, Issuer = (Country parent, Organization parent, CommonName parent)\<rparr>"

text \<open>A key pair: the chain of certificates, each encoded, and the private key.\<close>

record 'key tls_Certificate =
  Certificate :: "string list"
  PrivateKey :: 'key

text \<open>The packages of the standard library; random numbers are drawn one after the other.\<close>

record ('key, 'pub) x509_env =
  GenerateKey :: "nat \<Rightarrow> int \<Rightarrow> go_error + 'key"
  RandInt :: "nat \<Rightarrow> int \<Rightarrow> go_error + int"
  Public :: "'key \<Rightarrow> 'pub"
  CreateCertificate :: "x509_Certificate \<Rightarrow> x509_Certificate \<Rightarrow> 'pub \<Rightarrow> 'key \<Rightarrow> go_error + string"
  ParseCertificates :: "string \<Rightarrow> go_error + ('key, 'pub) signed_Certificate list"
  ParseCertificate :: "string \<Rightarrow> go_error + ('key, 'pub) signed_Certificate"
  MarshalPKCS1PrivateKey :: "'key \<Rightarrow> string"
  X509KeyPair :: "string \<Rightarrow> string \<Rightarrow> go_error + 'key tls_Certificate"
  pem_Encode :: "string \<Rightarrow> string \<Rightarrow> go_error + string"
  pem_Decode :: "string \<Rightarrow> (string \<times> string) option"
  TempFile :: "(string \<rightharpoonup> string) \<Rightarrow> string \<Rightarrow> go_error + string"
  WriteFile :: "string \<Rightarrow> go_error option"

record th_state =
  th_files :: "string \<rightharpoonup> string"
  th_draws :: nat
  th_clock :: clock

definition year :: duration where
  "year = 365 * 24 * 3600 * second"

definition os_Open :: "string \<Rightarrow> th_state \<Rightarrow> go_error + string" where
  "os_Open path st = (case th_files st path of None \<Rightarrow> Inl (''open '' @ path @ '': no such file or directory'') | Some c \<Rightarrow> Inr c)"

definition Expect :: "go_error + 'a \<Rightarrow> ('a \<Rightarrow> 'b outcome) \<Rightarrow> 'b outcome" where
  "Expect r f = (case r of Inl err \<Rightarrow> Panic (ExplicitPanic err) | Inr x \<Rightarrow> f x)"

definition ca_template :: "int \<Rightarrow> gotime \<Rightarrow> x509_Certificate" where
  "ca_template serialNumber now =
     \<lparr>SerialNumber = serialNumber, SignatureAlgorithm = ''SHA256WithRSA'', Country = [''USA''],
      Organization = [''Cloud Foundry''], CommonName = ''CA'', IPAddresses = [], NotBefore = now,
      NotAfter = now + year, BasicConstraintsValid = True, IsCA = True,
      KeyUsage = {''CertSign'', ''CRLSign''}, ExtKeyUsage = []\<rparr>"

definition server_template :: "int \<Rightarrow> gotime \<Rightarrow> x509_Certificate" where
  "server_template serialNumber now =
     \<lparr>SerialNumber = serialNumber, SignatureAlgorithm = ''SHA256WithRSA'', Country = [''USA''],
      Organization = [''Cloud Foundry''], CommonName = [], IPAddresses = [''127.0.0.1''], NotBefore = now,
      NotAfter = now + year, BasicConstraintsValid = True, IsCA = False,
      KeyUsage = {''KeyEncipherment'', ''DigitalSignature''}, ExtKeyUsage = [''ServerAuth'', ''ClientAuth'']\<rparr>"

text \<open>\<open>buildCaFile\<close>: an error, or the name of the file and the key.\<close>

definition buildCaFile :: "('key, 'pub) x509_env \<Rightarrow> th_state \<Rightarrow> (go_error + string \<times> 'key) \<times> th_state" where
  "buildCaFile x st =
     (case GenerateKey x (th_draws st) 512 of
        Inl err \<Rightarrow> (Inl err, st)
      | Inr privKey \<Rightarrow>
          (case RandInt x (Suc (th_draws st)) (2 ^ 128) of
             Inl err \<Rightarrow> (Inl err, st)
           | Inr serialNumber \<Rightarrow>
               (let (now, c) = clock_Now (th_clock st);
                    st1 = st\<lparr>th_draws := th_draws st + 2, th_clock := c\<rparr>;
                    ca = ca_template serialNumber now
                in case CreateCertificate x ca ca (Public x privKey) privKey of
                     Inl err \<Rightarrow> (Inl err, st1)
                   | Inr caCert \<Rightarrow>
                       (case TempFile x (th_files st1) ''bosh-dns-adapter-ca'' of
                          Inl err \<Rightarrow> (Inl err, st1)
                        | Inr file \<Rightarrow>
                            (case pem_Encode x ''CERTIFICATE'' caCert of
                               Inl err \<Rightarrow> (Inl err, st1\<lparr>th_files := (th_files st1)(file \<mapsto> [])\<rparr>)
                             | Inr pem \<Rightarrow> (Inr (file, privKey), st1\<lparr>th_files := (th_files st1)(file \<mapsto> pem)\<rparr>))))))"

text \<open>\<open>buildCertPem\<close>: a file without a PEM block makes it dereference nil.\<close>

definition buildCertPem ::
    "('key, 'pub) x509_env \<Rightarrow> 'key \<Rightarrow> string \<Rightarrow> th_state \<Rightarrow> ((go_error + string \<times> string) \<times> th_state) outcome" where
  "buildCertPem x privKey caFilePath st =
     (case RandInt x (th_draws st) (2 ^ 128) of
        Inl err \<Rightarrow> Return (Inl err, st)
      | Inr serialNumber \<Rightarrow>
          (let (now, c) = clock_Now (th_clock st);
               st1 = st\<lparr>th_draws := Suc (th_draws st), th_clock := c\<rparr>
           in case os_Open caFilePath st1 of
                Inl err \<Rightarrow> Return (Inl err, st1)
              | Inr caBytes \<Rightarrow>
                  (case pem_Decode x caBytes of
                     None \<Rightarrow> Panic NilDereference
                   | Some (_, caBlockDer) \<Rightarrow>
                       (case ParseCertificate x caBlockDer of
                          Inl err \<Rightarrow> Return (Inl err, st1)
                        | Inr caCert \<Rightarrow>
                            (case CreateCertificate x (server_template serialNumber now) (x509_Certificate.truncate caCert)
                                    (Public x privKey) privKey of
                               Inl err \<Rightarrow> Return (Inl err, st1)
                             | Inr serverCert \<Rightarrow>
                                 (case pem_Encode x ''CERTIFICATE'' serverCert of
                                    Inl err \<Rightarrow> Return (Inl err, st1)
                                  | Inr certPem \<Rightarrow>
                                      (case pem_Encode x ''RSA PRIVATE KEY'' (MarshalPKCS1PrivateKey x privKey) of
                                         Inl err \<Rightarrow> Return (Inl err, st1)
                                       | Inr keyPem \<Rightarrow> Return (Inr (certPem, keyPem), st1))))))))"

definition writeClientCredFile :: "('key, 'pub) x509_env \<Rightarrow> string \<Rightarrow> th_state \<Rightarrow> (string \<times> th_state) outcome" where
  "writeClientCredFile x data st =
     Expect (TempFile x (th_files st) ''clientcredstest'') (\<lambda>tempFile.
       case WriteFile x tempFile of
         Some err \<Rightarrow> Panic (ExplicitPanic err)
       | None \<Rightarrow> Return (tempFile, st\<lparr>th_files := (th_files st)(tempFile \<mapsto> data)\<rparr>))"

definition GenerateCaAndMutualTlsCerts ::
    "('key, 'pub) x509_env \<Rightarrow> th_state \<Rightarrow> ((string \<times> string \<times> string \<times> 'key tls_Certificate) \<times> th_state) outcome" where
  "GenerateCaAndMutualTlsCerts x st =
     (let (r, st1) = buildCaFile x st
      in Expect r (\<lambda>(caFileName, privKey).
           case buildCertPem x privKey caFileName st1 of
             Panic p \<Rightarrow> Panic p
           | Return (r, st2) \<Rightarrow> Expect r (\<lambda>(certPem, keyPem).
               case writeClientCredFile x certPem st2 of
                 Panic p \<Rightarrow> Panic p
               | Return (certFileName, st3) \<Rightarrow>
                   (case writeClientCredFile x keyPem st3 of
                      Panic p \<Rightarrow> Panic p
                    | Return (privateKeyFileName, st4) \<Rightarrow>
                        Expect (X509KeyPair x certPem keyPem) (\<lambda>cert.
                          Return ((caFileName, certFileName, privateKeyFileName, cert), st4))))))"

definition mapToX509Cert :: "('key, 'pub) x509_env \<Rightarrow> string \<Rightarrow> th_state \<Rightarrow> ('key, 'pub) signed_Certificate list outcome" where
  "mapToX509Cert x path st =
     Expect (os_Open path st) (\<lambda>caFileContents.
       case pem_Decode x caFileContents of
         None \<Rightarrow> Panic NilDereference
       | Some (_, bytes) \<Rightarrow> Expect (ParseCertificates x bytes) Return)"

definition CertPool :: "('key, 'pub) x509_env \<Rightarrow> string \<Rightarrow> th_state \<Rightarrow> ('key, 'pub) signed_Certificate list outcome" where
  "CertPool x certName st =
     (case mapToX509Cert x certName st of
        Panic p \<Rightarrow> Panic p
      | Return caCertificate \<Rightarrow>
          if length caCertificate = 1 then Return [hd caCertificate] else Panic (ExplicitPanic ''expected one certificate''))"

section \<open>The client and the server\<close>

definition test_NewClient :: "'pool \<Rightarrow> 'cert \<Rightarrow> ('cert, 'pool) http_Client" where
  "test_NewClient caCertPool cert =
     \<lparr>Transport = \<lparr>TLSClientConfig = \<lparr>MinVersion = VersionTLS12, ClientCAs = caCertPool, RootCAs = caCertPool, Certificates = [cert]\<rparr>,
        Dial_Timeout = 0, Dial_KeepAlive = 0, IdleConnTimeout = 0, MaxIdleConns = 0, TLSHandshakeTimeout = 0, ExpectContinueTimeout = 0\<rparr>,
      Timeout = 0\<rparr>"

text \<open>The server is asked until it answers 404; \<open>polls\<close> are the answers before the expectation gives up.\<close>

definition LaunchConflictingServer :: "int \<Rightarrow> (string \<Rightarrow> (go_error + http_Response) list) \<Rightarrow> string outcome" where
  "LaunchConflictingServer port polls =
     (let address = ''127.0.0.1:'' @ show_int port
      in if list_ex (\<lambda>r. case r of Inl err \<Rightarrow> False | Inr resp \<Rightarrow> StatusCode resp = 404) (polls (''http://'' @ address))
         then Return address else Panic (ExplicitPanic ''Timed out''))"

section \<open>What the certificates are good for\<close>

text \<open>
  What is relied on. A certificate that was created from one of the two templates above, with a serial number
  that is not negative, parses as the template with the key, the signature and the name of the
  issuer. (For templates in general this is not so: \<open>IsCA\<close> is lost without \<open>BasicConstraintsValid\<close>, and a
  missing algorithm is filled in; both templates set these fields.) A PEM block of a certificate decodes
  to what was encoded; \<open>rand.Int\<close> is below its bound and not negative; a temporary file is new; a key pair
  has the first certificate of its first argument at the head of its chain.
\<close>

definition x509_laws :: "('key, 'pub) x509_env \<Rightarrow> bool" where
  "x509_laws x \<longleftrightarrow>
     (\<forall>t n now p pub key der. (t = ca_template n now \<or> t = server_template n now) \<longrightarrow> 0 \<le> n \<longrightarrow>
        CreateCertificate x t p pub key = Inr der \<longrightarrow>
        ParseCertificate x der = Inr (signed t p pub key) \<and> ParseCertificates x der = Inr [signed t p pub key]) \<and>
     (\<forall>b pem. pem_Encode x ''CERTIFICATE'' b = Inr pem \<longrightarrow> pem_Decode x pem = Some (''CERTIFICATE'', b)) \<and>
     (\<forall>i bound n. RandInt x i bound = Inr n \<longrightarrow> 0 \<le> n \<and> n < bound) \<and>
     (\<forall>fs prefix name. TempFile x fs prefix = Inr name \<longrightarrow> fs name = None) \<and>
     (\<forall>certPem keyPem cert der. X509KeyPair x certPem keyPem = Inr cert \<longrightarrow>
        pem_Decode x certPem = Some (''CERTIFICATE'', der) \<longrightarrow> Certificate cert \<noteq> [] \<and> hd (Certificate cert) = der)"

text \<open>The certificate environment of the client and of the server, on the files of a state.\<close>

definition cert_env_of :: "('key, 'pub) x509_env \<Rightarrow> th_state \<Rightarrow> ('key tls_Certificate, ('key, 'pub) signed_Certificate list) cert_env" where
  "cert_env_of x st =
     \<lparr>ReadFile = (\<lambda>path. os_Open path st),
      AppendCertsFromPEM = (\<lambda>pem. case pem_Decode x pem of
          Some (ty, der) \<Rightarrow> (case ParseCertificate x der of
             Inr c \<Rightarrow> if ty = ''CERTIFICATE'' then (True, [c]) else (False, []) | Inl _ \<Rightarrow> (False, []))
        | None \<Rightarrow> (False, [])),
      LoadX509KeyPair = (\<lambda>crt key. case os_Open crt st of Inl err \<Rightarrow> Inl err
        | Inr certPem \<Rightarrow> (case os_Open key st of Inl err \<Rightarrow> Inl err | Inr keyPem \<Rightarrow> X509KeyPair x certPem keyPem))\<rparr>"

text \<open>A certificate issued by a CA: the names and the key of the signature agree.\<close>

definition issued_by :: "('key, 'pub) x509_env \<Rightarrow> ('key, 'pub) signed_Certificate \<Rightarrow> ('key, 'pub) signed_Certificate \<Rightarrow> bool" where
  "issued_by x ca c \<longleftrightarrow> IsCA ca \<and> ''CertSign'' \<in> KeyUsage ca \<and>
     Issuer c = (Country ca, Organization ca, CommonName ca) \<and> Public x (SignedWith c) = PublicKey ca"

lemma buildCaFile_file:
  assumes "buildCaFile x st = (Inr (file, key), st')" and "x509_laws x"
  shows "\<exists>n now der pem. 0 \<le> n \<and> CreateCertificate x (ca_template n now) (ca_template n now) (Public x key) key = Inr der \<and>
    pem_Encode x ''CERTIFICATE'' der = Inr pem \<and> th_files st' = (th_files st)(file \<mapsto> pem)"
proof -
  have "0 \<le> n" if "RandInt x i bound = Inr n" for i bound n using assms(2) that unfolding x509_laws_def by blast
  with assms(1) show ?thesis by (auto simp: buildCaFile_def Let_def split: sum.splits prod.splits) blast
qed

lemma buildCertPem_pems:
  assumes "buildCertPem x key caFile st = Return (Inr (certPem, keyPem), st')" and "x509_laws x"
  shows "\<exists>n now caPem ty caDer ca der. 0 \<le> n \<and> th_files st caFile = Some caPem \<and> pem_Decode x caPem = Some (ty, caDer) \<and>
    ParseCertificate x caDer = Inr ca \<and>
    CreateCertificate x (server_template n now) (x509_Certificate.truncate ca) (Public x key) key = Inr der \<and>
    pem_Encode x ''CERTIFICATE'' der = Inr certPem \<and>
    pem_Encode x ''RSA PRIVATE KEY'' (MarshalPKCS1PrivateKey x key) = Inr keyPem \<and> th_files st' = th_files st"
proof -
  have "0 \<le> n" if "RandInt x i bound = Inr n" for i bound n using assms(2) that unfolding x509_laws_def by blast
  with assms(1) show ?thesis
    by (auto simp: buildCertPem_def os_Open_def Let_def split: sum.splits prod.splits option.splits) blast
qed

lemma writeClientCredFile_file:
  assumes "writeClientCredFile x data st = Return (file, st')" and "x509_laws x"
  shows "th_files st' = (th_files st)(file \<mapsto> data) \<and> th_files st file = None"
  using assms by (auto simp: writeClientCredFile_def Expect_def x509_laws_def split: sum.splits option.splits)

lemma signed_simps [simp]:
  "IsCA (signed t p pub key) = IsCA t" "KeyUsage (signed t p pub key) = KeyUsage t" "Country (signed t p pub key) = Country t"
  "Organization (signed t p pub key) = Organization t" "CommonName (signed t p pub key) = CommonName t"
  "ExtKeyUsage (signed t p pub key) = ExtKeyUsage t" "IPAddresses (signed t p pub key) = IPAddresses t"
  "NotBefore (signed t p pub key) = whole_seconds (NotBefore t)" "NotAfter (signed t p pub key) = whole_seconds (NotAfter t)"
  "PublicKey (signed t p pub key) = pub" "SignedWith (signed t p pub key) = key"
  "Issuer (signed t p pub key) = (Country p, Organization p, CommonName p)"
  "x509_Certificate.truncate (signed t p pub key) =
     t\<lparr>NotBefore := whole_seconds (NotBefore t), NotAfter := whole_seconds (NotAfter t)\<rparr>"
  by (cases t; simp add: signed_def x509_Certificate.defs)+

lemma signed_parent_times [simp]: "signed t (p\<lparr>NotBefore := a, NotAfter := b\<rparr>) pub key = signed t p pub key"
  by (simp add: signed_def)

lemma whole_seconds_year [simp]: "whole_seconds (t + year) = whole_seconds t + year"
  using mod_mult_self2 [of t second "365 * 24 * 3600"] by (simp add: whole_seconds_def year_def mult.commute)

lemma GenerateCaAndMutualTlsCerts_files:
  assumes "x509_laws x" and "GenerateCaAndMutualTlsCerts x st = Return ((ca, crt, key, cert), st')"
  obtains root k der n now m now' caPem certPem keyPem where "root = signed (ca_template m now') (ca_template m now') (Public x k) k"
    and "th_files st' ca = Some caPem" and "th_files st' crt = Some certPem" and "th_files st' key = Some keyPem"
    and "pem_Decode x caPem = Some (''CERTIFICATE'', der)" and "ParseCertificate x der = Inr root" and "ParseCertificates x der = Inr [root]"
    and "X509KeyPair x certPem keyPem = Inr cert"
    and "ParseCertificate x (hd (Certificate cert)) = Inr (signed (server_template n now) (ca_template m now') (Public x k) k)"
proof -
  from assms(2) obtain k st1 certPem keyPem st2 st3 where steps: "buildCaFile x st = (Inr (ca, k), st1)"
    "buildCertPem x k ca st1 = Return (Inr (certPem, keyPem), st2)" "writeClientCredFile x certPem st2 = Return (crt, st3)"
    "writeClientCredFile x keyPem st3 = Return (key, st')" "X509KeyPair x certPem keyPem = Inr cert"
    by (auto simp: GenerateCaAndMutualTlsCerts_def Expect_def split: sum.splits prod.splits outcome.splits)
  from buildCaFile_file [OF steps(1) assms(1)] obtain m now' der caPem where
    ca: "0 \<le> m" "CreateCertificate x (ca_template m now') (ca_template m now') (Public x k) k = Inr der"
    "pem_Encode x ''CERTIFICATE'' der = Inr caPem" "th_files st1 = (th_files st)(ca \<mapsto> caPem)" by blast
  let ?root = "signed (ca_template m now') (ca_template m now') (Public x k) k"
  have root: "pem_Decode x caPem = Some (''CERTIFICATE'', der)" "ParseCertificate x der = Inr ?root" "ParseCertificates x der = Inr [?root]"
    using assms(1) ca(1-3) unfolding x509_laws_def by blast+
  from buildCertPem_pems [OF steps(2) assms(1)] ca(4) root obtain n now leafDer where
    leaf: "0 \<le> n" "CreateCertificate x (server_template n now) (x509_Certificate.truncate ?root) (Public x k) k = Inr leafDer"
    "pem_Encode x ''CERTIFICATE'' leafDer = Inr certPem" "th_files st2 = th_files st1" by auto
  have "pem_Decode x certPem = Some (''CERTIFICATE'', leafDer)"
    "ParseCertificate x leafDer = Inr (signed (server_template n now) (x509_Certificate.truncate ?root) (Public x k) k)"
    using assms(1) leaf(1-3) unfolding x509_laws_def by blast+
  then have "ParseCertificate x (hd (Certificate cert)) = Inr (signed (server_template n now) (ca_template m now') (Public x k) k)"
    using assms(1) steps(5) unfolding x509_laws_def by auto
  moreover have "th_files st' ca = Some caPem" "th_files st' crt = Some certPem" "th_files st' key = Some keyPem"
    using writeClientCredFile_file [OF steps(3) assms(1)] writeClientCredFile_file [OF steps(4) assms(1)] leaf(4) ca(4)
    by (auto split: if_splits)
  ultimately show thesis using root steps(5) by (intro that [of ?root m now' k caPem certPem keyPem der n now]) simp_all
qed

section \<open>Properties\<close>

text \<open>
  C31: the certificates that the suites generate authenticate a server and a client to each other. The pool read from
  the CA file has one certificate, a CA that issued itself and the certificate of the key pair; the latter
  is for 127.0.0.1, for servers and for clients, and is valid for a year; and the client of the
  adapter can be created from the three files, trusting that CA and presenting that key pair.
\<close>

theorem generated_certificates_authenticate:
  assumes "x509_laws x" and "GenerateCaAndMutualTlsCerts x st = Return ((ca, crt, key, cert), st')"
  shows "\<exists>root leaf c. CertPool x ca st' = Return [root] \<and> ParseCertificate x (hd (Certificate cert)) = Inr leaf \<and>
    issued_by x root root \<and> issued_by x root leaf \<and>
    IPAddresses leaf = [''127.0.0.1''] \<and> {''ServerAuth'', ''ClientAuth''} \<subseteq> set (ExtKeyUsage leaf) \<and>
    NotAfter leaf = NotBefore leaf + year \<and>
    NewServiceDiscoveryClient (cert_env_of x st') url ca crt key = Inr c \<and>
    TLSClientConfig (Transport (client c)) = TLSClientConfig (Transport (test_NewClient [root] cert))"
proof -
  obtain root k der n now m now' caPem certPem keyPem where
    root: "root = signed (ca_template m now') (ca_template m now') (Public x k) k"
    and files: "th_files st' ca = Some caPem" "th_files st' crt = Some certPem" "th_files st' key = Some keyPem"
    and parse: "pem_Decode x caPem = Some (''CERTIFICATE'', der)" "ParseCertificate x der = Inr root" "ParseCertificates x der = Inr [root]"
    and pair: "X509KeyPair x certPem keyPem = Inr cert"
    and leaf: "ParseCertificate x (hd (Certificate cert)) = Inr (signed (server_template n now) (ca_template m now') (Public x k) k)"
    by (rule GenerateCaAndMutualTlsCerts_files [OF assms])
  have "CertPool x ca st' = Return [root]"
    by (simp add: CertPool_def mapToX509Cert_def Expect_def os_Open_def files parse)
  moreover let ?leaf = "signed (server_template n now) (ca_template m now') (Public x k) k"
  have "issued_by x root root" "issued_by x root ?leaf" by (simp_all add: issued_by_def root ca_template_def)
  moreover have "IPAddresses ?leaf = [''127.0.0.1'']" "{''ServerAuth'', ''ClientAuth''} \<subseteq> set (ExtKeyUsage ?leaf)"
    "NotAfter ?leaf = NotBefore ?leaf + year" by (simp_all add: server_template_def)
  moreover obtain c where "NewServiceDiscoveryClient (cert_env_of x st') url ca crt key = Inr c"
    "TLSClientConfig (Transport (client c)) = TLSClientConfig (Transport (test_NewClient [root] cert))"
    by (simp add: NewServiceDiscoveryClient_def cert_env_of_def os_Open_def files parse pair test_NewClient_def)
  ultimately show ?thesis using leaf by blast
qed

text \<open>A small instance of the packages: one key, and only the certificates that one run creates.\<close>

definition toy_root :: "(nat, nat) signed_Certificate" where
  "toy_root = signed (ca_template 1 0) (ca_template 1 0) 7 7"

definition toy_leaf :: "(nat, nat) signed_Certificate" where
  "toy_leaf = signed (server_template 1 second) (ca_template 1 0) 7 7"

definition toy_parse :: "string \<Rightarrow> go_error + (nat, nat) signed_Certificate" where
  "toy_parse der = (if der = ''root'' then Inr toy_root else if der = ''leaf'' then Inr toy_leaf else Inl ''malformed certificate'')"

definition toy_decode :: "string \<Rightarrow> (string \<times> string) option" where
  "toy_decode s = (if CHR ''|'' \<in> set s then Some (takeWhile (\<lambda>c. c \<noteq> CHR ''|'') s, tl (dropWhile (\<lambda>c. c \<noteq> CHR ''|'') s)) else None)"

definition toy_x509 :: "(nat, nat) x509_env" where
  "toy_x509 =
     \<lparr>GenerateKey = (\<lambda>_ _. Inr 7), RandInt = (\<lambda>_ bound. if 1 < bound then Inr 1 else Inl ''bad bound''), Public = (\<lambda>k. k),
      CreateCertificate = (\<lambda>t p pub k.
        if (t, p, pub, k) = (ca_template 1 0, ca_template 1 0, 7, 7) then Inr ''root''
        else if (t, p, pub, k) = (server_template 1 second, ca_template 1 0, 7, 7) then Inr ''leaf'' else Inl ''unsupported''),
      ParseCertificates = (\<lambda>der. map_sum id (\<lambda>c. [c]) (toy_parse der)), ParseCertificate = toy_parse,
      MarshalPKCS1PrivateKey = (\<lambda>_. ''key''),
      X509KeyPair = (\<lambda>certPem _. case toy_decode certPem of None \<Rightarrow> Inl ''no certificate''
        | Some (_, der) \<Rightarrow> map_sum id (\<lambda>_. \<lparr>Certificate = [der], PrivateKey = 7\<rparr>) (toy_parse der)),
      pem_Encode = (\<lambda>ty b. if CHR ''|'' \<in> set ty then Inl ''bad type'' else Inr (ty @ CHR ''|'' # b)), pem_Decode = toy_decode,
      TempFile = (\<lambda>fs prefix. if fs prefix = None then Inr prefix else if fs (prefix @ ''1'') = None then Inr (prefix @ ''1'') else Inl ''exists''),
      WriteFile = (\<lambda>_. None)\<rparr>"

lemma toy_decode_append: "CHR ''|'' \<notin> set ty \<Longrightarrow> toy_decode (ty @ CHR ''|'' # b) = Some (ty, b)"
  by (induction ty) (auto simp: toy_decode_def)

lemma toy_laws: "x509_laws toy_x509"
  using toy_decode_append [of "''CERTIFICATE''"]
  by (auto simp: x509_laws_def toy_x509_def toy_parse_def toy_root_def toy_leaf_def toy_decode_append split: if_splits option.splits sum.splits)

theorem generated_certificates_authenticate_witness:
  "\<exists>st' root c. GenerateCaAndMutualTlsCerts toy_x509 \<lparr>th_files = Map.empty, th_draws = 0, th_clock = (\<lambda>n. int n * second)\<rparr>
      = Return ((''bosh-dns-adapter-ca'', ''clientcredstest'', ''clientcredstest1'', \<lparr>Certificate = [''leaf''], PrivateKey = 7\<rparr>), st') \<and>
    CertPool toy_x509 ''bosh-dns-adapter-ca'' st' = Return [root] \<and> issued_by toy_x509 root toy_leaf \<and>
    NewServiceDiscoveryClient (cert_env_of toy_x509 st') ''https://sdc:8054'' ''bosh-dns-adapter-ca'' ''clientcredstest'' ''clientcredstest1'' = Inr c"
proof -
  have ne: "server_template 1 second \<noteq> ca_template 1 0" by (simp add: server_template_def ca_template_def)
  have trunc: "x509_Certificate.truncate toy_root = ca_template 1 0"
    by (simp add: toy_root_def ca_template_def whole_seconds_def year_def second_def)
  have pem: "toy_decode (''CERTIFICATE'' @ CHR ''|'' # b) = Some (''CERTIFICATE'', b)" for b by (rule toy_decode_append) simp
  obtain st' where "GenerateCaAndMutualTlsCerts toy_x509 \<lparr>th_files = Map.empty, th_draws = 0, th_clock = (\<lambda>n. int n * second)\<rparr>
      = Return ((''bosh-dns-adapter-ca'', ''clientcredstest'', ''clientcredstest1'', \<lparr>Certificate = [''leaf''], PrivateKey = 7\<rparr>), st')"
    using pem [of "''root''"] pem [of "''leaf''"] ne trunc
    by (simp add: GenerateCaAndMutualTlsCerts_def buildCaFile_def buildCertPem_def writeClientCredFile_def Expect_def os_Open_def
        clock_Now_def toy_x509_def toy_parse_def)
  moreover have "ParseCertificate toy_x509 ''leaf'' = Inr toy_leaf" by (simp add: toy_x509_def toy_parse_def)
  ultimately show ?thesis using generated_certificates_authenticate [OF toy_laws, of _ _ _ _ _ st' "''https://sdc:8054''"] by fastforce
qed

end
