(* ===== verification/Spec2Isabelle.thy ===== *)
theory Spec2Isabelle
  imports Name_Resolution Populator_System Subscriber_Doubles Diglett Test_Helpers
begin

text \<open>
  A verification library for the service-discovery release of Cloud Foundry: internal routes of
  applications, announced on NATS, are kept in the address table of the service discovery controller,
  and the BOSH DNS adapter answers DNS queries for them by asking the controller over HTTPS. A route
  populator fills the table for load tests. The Go sources are under \<open>src/src/\<close>; below the paths are
  relative to that directory, and \<open>sdc\<close> stands for \<open>service-discovery-controller\<close>.

  \<^bold>\<open>Parts and theories\<close>

  \<^item> \<open>Prelude\<close>: 64-bit wrap-around (\<open>int64\<close>), Go's saturating durations and clocks (a clock is the sequence
    of its future readings), results that may panic (\<open>outcome\<close>), decimal printing, and labelled step
    systems with two contracts as locales: \<open>invariant_system\<close>, and \<open>simulation\<close>, which extends it.
  \<^item> \<open>Go_Json\<close>, \<open>Go_Http\<close>: what the code uses of \<open>encoding/json\<close> (UTF-8 repair, escaping, lexing, parsing,
    decoding into structs with case-insensitive field names), \<open>net/http\<close> (response writer, mux, path
    cleaning) and \<open>path\<close>. The central fact is that printing a value and parsing it gives it back.
  \<^item> \<open>Address_Table\<close>: \<open>sdc/addresstable/address_table.go\<close>, one definition per method. A table is abstracted
    to its leases, from hostname and IP to the time of the last registration. \<open>Add\<close> and \<open>Remove\<close> refine
    the abstract registration and removal; a pruning round drops exactly the stale leases.
  \<^item> \<open>Address_Table_Concurrency\<close>: the callers and the pruning goroutine as a step relation whose steps are
    the critical sections of the lock. Invariants and safety over all interleavings.
  \<^item> \<open>Metrics_Recorders\<close>: \<open>sdc/mbus/metrics_recorder.go\<close> and \<open>sdc/routes/metrics_recorder.go\<close>.
  \<^item> \<open>Subscriber\<close>: \<open>sdc/mbus/subscriber.go\<close>, with its start as a script of NATS calls each of which may
    fail, its handlers, and the interface \<open>mbus_table\<close> it needs of the table, interpreted on the table.
  \<^item> \<open>Configs\<close>: \<open>sdc/config/config.go\<close> and \<open>bosh-dns-adapter/config/config.go\<close>.
  \<^item> \<open>Routes_Server\<close>: \<open>sdc/routes/server.go\<close>, with the interface \<open>routes_table\<close>, interpreted on the table.
  \<^item> \<open>Controller_Main\<close>: \<open>sdc/main.go\<close>, \<open>sdc/localip/local_ip.go\<close>, \<open>sdc/mbus/nats_conn_provider.go\<close>.
  \<^item> \<open>Controller_System\<close>: the whole controller as a step relation over one shared table: NATS callbacks,
    warm-up timer, HTTP requests, metrics emitter, pruner, shutdown, in any order. The table system
    simulates it (an interpretation of \<open>simulation\<close>), so the safety of the table carries over.
  \<^item> \<open>Sdc_Client\<close>: \<open>bosh-dns-adapter/sdcclient/service_discovery_client.go\<close>: tries, closing of bodies,
    decoding, shuffling.
  \<^item> \<open>Dns_Adapter\<close>: \<open>bosh-dns-adapter/main.go\<close>: the handler and the response document.
  \<^item> \<open>Name_Resolution\<close>: adapter, client, server and table composed.
  \<^item> \<open>Publisher\<close>, \<open>Runner\<close>, \<open>Runner_Concurrency\<close>: \<open>route_populator/publisher/publisher.go\<close>,
    \<open>route_populator/runner/runner.go\<close> and \<open>route_populator/main.go\<close>; the last theory has the goroutines
    as a step relation.
  \<^item> \<open>Populator_System\<close>: the populator's process: each goroutine of the runner with the publisher it calls, the
    goroutine that waits for a signal and may stop the runner before \<open>main\<close> has started it, and \<open>main\<close>, which
    starts the runner, waits, and exits with a message and a status. The runner's step system simulates
    the goroutines with their publishers, and these simulate the process.
  \<^item> \<open>Route_Population\<close>: the populator's messages arriving at the subscriber.
  \<^item> \<open>Proxy_App\<close>: \<open>example-apps/proxy\<close>, the application with which the tests reach others by name.
  \<^item> \<open>Go_Regexp\<close>, \<open>Diglett\<close>: \<open>example-apps/diglett\<close>, which runs \<open>dig\<close> in a loop and logs the query times, and the
    leftmost-first matching of \<open>regexp\<close> that it uses.
  \<^item> \<open>Fakes\<close>: the test doubles made by counterfeiter under the three \<open>fakes\<close> directories, one state for each
    method with its stub, its recorded calls, its returns and its locks.
  \<^item> \<open>Subscriber_Doubles\<close>: which operations of its table the subscriber calls, as a function of the messages,
    connection events and timers it handles, and what the fake table and the real one make of them.
  \<^item> \<open>Test_Helpers\<close>: \<open>test-helpers\<close>: the certificates of the test servers and clients, and the two servers.

  \<^bold>\<open>State and operations\<close>

  A struct is a record with the fields of the source (prefixed where two structs share a field name), a
  method is a function from the record to the updated record. A shared object, such as the one address
  table of the controller, is held in one place and handed to each user. Errors are \<open>Inl\<close> or \<open>Some\<close> of a
  string; a panic is \<open>Panic\<close> of an \<open>outcome\<close>. The order in which Go visits a map is an argument. Logging is
  left out. Arguments also stand for code that is not in the repository: the NATS client (\<open>nats_env\<close> says
  which call fails), the validator (\<open>validator_checks\<close>), certificates and TLS, the metrics library and its
  middleware (\<open>transparent\<close>), UUIDs, the file system, the network (\<open>delivers\<close>), the constants of
  \<open>dnsmessage\<close> (\<open>rfc1035\<close>), random numbers (\<open>Intn_bounded\<close>), the program \<open>dig\<close> and the stubs of the test doubles.
  The parser of regular expressions (\<open>compiles_as_modelled\<close>) and the packages for keys, certificates and PEM
  (\<open>x509_laws\<close>), too, are arguments whose documented behaviour is a named hypothesis.

  \<^bold>\<open>What is shown\<close>

  \<^item> End to end (below): a registered IP stays in the DNS answers while its lease is fresh; a query lists
    exactly what the first warm controller among four tries has; a cold one makes it fail; the routes of
    the populator are found.
  \<^item> Refinement: \<open>Add\<close>, \<open>Remove\<close> and pruning rounds against leases; the controller against the table system;
    the populator's process against the runner's system, whose goroutines publish exactly their part; the
    publisher against the script of its calls; the fake table, and the real one, against the operations
    that the history of a subscriber asks for.
  \<^item> Invariants and safety over all interleavings: well-formed table, no lease lost without cause, pausing,
    shutdown; the populator's goroutines never block and are told to stop, and each exit status of its
    process has its one reason.
  \<^item> Functional behaviour of the handlers on every branch, round trips of messages, configurations and
    NATS URLs, the types and ranges of every accepted configuration, permutations of \<open>shuffle\<close>, bounds of
    durations, the query times that diglett logs, and that the test certificates authenticate.
  \<^item> Counterexamples in the code: a pruned hostname that stays listed, a pruning round that a disconnect does
    not stop, a \<open>null\<close> answer that crashes the client, a name that is copied unescaped into the response,
    a comma in a NATS password, routes that no goroutine publishes, a partition that never ends, two
    concurrent calls of \<open>Stop\<close> that panic, a signal before \<open>Start\<close> that turns a regular stop into a failure, a
    pruning interval that wraps around and makes \<open>NewTicker\<close> panic, and a reader of a fake's invocations
    that deadlocks with a writer.

  \<^bold>\<open>Bounds and termination\<close>

  There is no fuel. Loops over lists and ranges are structural or have a measure; the client's loop ends
  after four tries by a measure; the loop of \<open>PartitionRange\<close>, which may run forever, is a partial
  function into \<open>option\<close>, and it is proved when it ends and when it does not. Integers of type \<open>int\<close> and
  \<open>time.Duration\<close> are \<open>int\<close> with 64-bit wrap-around where the code computes with them.

  \<^bold>\<open>Not modelled\<close>

  The acceptance, smoke and performance suites drive a deployed system from outside and hold no state of
  their own. Logging, and the uptime source and the log-level server, which belong to vendored libraries, are
  left out. The vendored packages are arguments as said above. That a stub of a test double
  is installed and which calls it gets is part of the double's state; what it returns is an argument, and
  its effects outside the double are those of the test that installs it. A registration request, which
  asks the table twice and then counts itself, is one step of the controller's system. What the
  run-time system prints for a panic is left out.
\<close>

section \<open>Properties across components\<close>

text \<open>
  C1: the guarantee for applications, from the registration of an IP to the answer that BOSH DNS gets,
  across the subscriber, the table and its pruner, the server, the client and the adapter. Once an IP
  holds a lease for a hostname, then after any further messages, disconnections, reconnections, requests
  and pruning rounds, as long as no unregister message names the IP and the hostname, the clock
  (which does not go back) shows the lease no older than the staleness threshold, and the warm-up timer
  has fired, a query for the hostname is answered 200 with a document that has an A record with the IP.
\<close>

theorem registered_ip_is_resolved:
  assumes "ctl_init env configPath s0" and "monotone_clock (ce_clock env)"
    and "run (ctl_step nenv wrap) s0 ls1 s" and "leases (sub_table (ctl_sub s)) (fqdn name) i = Some u"
    and "run (ctl_step nenv wrap) s ls2 s'" and "CtlWarmTimer \<in> set (ls1 @ ls2)"
    and "\<forall>msg m. CtlMessage msg \<in> set ls2 \<and> msg_Subject msg = ''service-discovery.unregister'' \<and>
       unmarshal_RegistryMessage (msg_Data msg) = Some m \<longrightarrow> rm_IP m \<noteq> i \<or> fqdn name \<notin> fqdn ` set (rm_InfraNames m)"
    and "time_Sub (clock (sub_table (ctl_sub s')) 0) u \<le> stalenessThreshold (sub_table (ctl_sub s))"
    and "rfc1035 D" and "delivers get (serverURL cl) wrap c" and "c 0 = ctl s'" and "transparent wrap"
    and "Intn_bounded intn" and "path_element name" and "list_all plain_char name"
  shows "\<exists>resp answers. resolve D get show_response json_error intn cl name counters = Return (resp, counters) \<and>
    fst (response resp) = 200 \<and> json_parse (snd (response resp)) = Some (dns_document 0 name ''1'' answers) \<and>
    JObj [(''name'', JStr name), (''type'', JInt 1), (''TTL'', JInt 0), (''data'', JStr (valid_utf8 i))] \<in> set answers"
proof -
  have "i \<in> set (Lookup (ctl_table (c 0)) name)"
    using registered_ip_stays_answered [OF assms(1-5,7,8)] assms(11) by simp
  moreover have "warm (ctl_table (c 0))"
    using ctl_run_warm [OF run_append [OF assms(3,5)]] ctl_inv.init_I [OF assms(1)] assms(6,11) by simp
  with resolve_first_warm [OF assms(9,10,12-15), where k = 0 and show_response = show_response and json_error = json_error
      and counters = counters] obtain resp ips where
    "resolve D get show_response json_error intn cl name counters = Return (resp, counters)" "fst (response resp) = 200"
    "mset ips = mset (Lookup (ctl_table (c 0)) name)"
    "json_parse (snd (response resp)) = Some (dns_document 0 name ''1'' (a_records name ips))" by auto
  moreover from this(3) have "set ips = set (Lookup (ctl_table (c 0)) name)" by (rule mset_eq_setD)
  ultimately show ?thesis by (intro exI [of _ resp] exI [of _ "a_records name ips"]) (auto simp: a_records_def)
qed

theorem registered_ip_is_resolved_witness:
  "\<exists>s0 s resp answers. ctl_init sample_env ''config.json'' s0 \<and>
     run (ctl_step (\<lambda>_ _. None) (\<lambda>_ h. h)) s0 [CtlStart, CtlWarmTimer, CtlMessage sample_message, CtlDisconnect] s \<and>
     resolve \<lparr>RCodeSuccess = 0, RCodeServerFailure = 2, TypeA = 1\<rparr> (sample_get (serverURL sample_client) (\<lambda>_. ctl s))
       (\<lambda>_. []) (\<lambda>_. []) (\<lambda>_. 0) sample_client ''app.apps.internal.'' [] = Return (resp, []) \<and>
     fst (response resp) = 200 \<and> json_parse (snd (response resp)) = Some (dns_document 0 ''app.apps.internal.'' ''1'' answers) \<and>
     JObj [(''name'', JStr ''app.apps.internal.''), (''type'', JInt 1), (''TTL'', JInt 0), (''data'', JStr ''10.0.0.1'')] \<in> set answers"
proof -
  let ?step = "ctl_step (\<lambda>_ _. None) (\<lambda>_ h. h)"
  obtain s0 s where s: "ctl_init sample_env ''config.json'' s0"
    "run ?step s0 [CtlStart, CtlWarmTimer, CtlMessage sample_message] s"
    and lease: "leases (sub_table (ctl_sub s)) (fqdn ''app.apps.internal.'') ''10.0.0.1'' = Some 0"
    and fresh: "time_Sub (clock (sub_table (ctl_sub s)) 0) 0 \<le> stalenessThreshold (sub_table (ctl_sub s))"
    by (rule sample_run_lease)
  let ?s' = "set_sub (handle_disconnect table_interface (ctl_sub s)) s"
  have step: "run ?step s [CtlDisconnect] ?s'" by (rule run_single) (rule ctl_step.disconnect)
  have "sub_table (ctl_sub ?s') = PausePruning (sub_table (ctl_sub s))"
    by (simp add: handle_disconnect_def table_interface_def)
  with fresh have fresh': "time_Sub (clock (sub_table (ctl_sub ?s')) 0) 0 \<le> stalenessThreshold (sub_table (ctl_sub s))"
    by (simp add: table_simps)
  have mono: "monotone_clock (ce_clock sample_env)" by (simp add: monotone_clock_def sample_env_def)
  have side: "rfc1035 \<lparr>RCodeSuccess = 0, RCodeServerFailure = 2, TypeA = 1\<rparr>" "transparent (\<lambda>_ h. h)"
    "Intn_bounded (\<lambda>_. 0)" "path_element ''app.apps.internal.''" "valid_utf8 ''10.0.0.1'' = ''10.0.0.1''"
    by (simp_all add: rfc1035_def transparent_def Intn_bounded_def path_element_def valid_utf8_ascii_string)
  have plain: "list_all plain_char ''app.apps.internal.''" by code_simp
  from registered_ip_is_resolved [OF s(1) mono s(2) lease step _ _ fresh' side(1)
      sample_get_delivers [where c = "\<lambda>_. ctl ?s'"] _ side(2-4) plain,
      where show_response = "\<lambda>_. []" and json_error = "\<lambda>_. []" and cl = sample_client and counters = "[]", simplified side(5)]
  obtain resp answers where "resolve \<lparr>RCodeSuccess = 0, RCodeServerFailure = 2, TypeA = 1\<rparr>
      (sample_get (serverURL sample_client) (\<lambda>_. ctl ?s')) (\<lambda>_. []) (\<lambda>_. []) (\<lambda>_. 0) sample_client ''app.apps.internal.'' []
      = Return (resp, [])" "fst (response resp) = 200"
    "json_parse (snd (response resp)) = Some (dns_document 0 ''app.apps.internal.'' ''1'' answers)"
    "JObj [(''name'', JStr ''app.apps.internal.''), (''type'', JInt 1), (''TTL'', JInt 0), (''data'', JStr ''10.0.0.1'')] \<in> set answers"
    by auto
  moreover have "run ?step s0 [CtlStart, CtlWarmTimer, CtlMessage sample_message, CtlDisconnect] ?s'"
    using run_append [OF s(2) step] by simp
  ultimately show ?thesis using s(1) by blast
qed

text \<open>
  C2: what a query of BOSH DNS is answered. Of the four tries of the client, the first one that meets a
  warm controller decides: the answer is 200 with one A record for each IP that the controller's table
  has for the name at that moment, no more and no fewer, in some order.
\<close>

theorem query_lists_controller_lookup:
  assumes "rfc1035 D" and "delivers get (serverURL cl) wrap c" and "transparent wrap" and "Intn_bounded intn"
    and "path_element name" and "list_all plain_char name"
    and "k < 4" and "\<forall>i<k. \<not> warm (ctl_table (c i))" and "warm (ctl_table (c k))"
  shows "\<exists>resp ips. resolve D get show_response json_error intn cl name counters = Return (resp, counters) \<and>
    fst (response resp) = 200 \<and> mset ips = mset (Lookup (ctl_table (c k)) name) \<and>
    json_parse (snd (response resp)) = Some (dns_document 0 name ''1'' (a_records name ips))"
  by (rule resolve_first_warm [OF assms])

theorem query_lists_controller_lookup_witness:
  "\<exists>s0 s resp ips. ctl_init sample_env ''config.json'' s0 \<and>
     run (ctl_step (\<lambda>_ _. None) (\<lambda>_ h. h)) s0 [CtlStart, CtlWarmTimer, CtlMessage sample_message] s \<and>
     resolve \<lparr>RCodeSuccess = 0, RCodeServerFailure = 2, TypeA = 1\<rparr>
       (sample_get (serverURL sample_client) (\<lambda>i. if i < 2 then ctl s0 else ctl s))
       (\<lambda>_. []) (\<lambda>_. []) (\<lambda>_. 0) sample_client ''app.apps.internal.'' [] = Return (resp, []) \<and>
     fst (response resp) = 200 \<and> mset ips = mset (Lookup (sub_table (ctl_sub s)) ''app.apps.internal.'') \<and>
     json_parse (snd (response resp)) = Some (dns_document 0 ''app.apps.internal.'' ''1'' (a_records ''app.apps.internal.'' ips))"
proof -
  let ?step = "ctl_step (\<lambda>_ _. None) (\<lambda>_ h. h)"
  obtain s0 s where s: "ctl_init sample_env ''config.json'' s0"
    "run ?step s0 [CtlStart, CtlWarmTimer, CtlMessage sample_message] s"
    by (rule sample_run)
  let ?c = "\<lambda>i. if i < 2 then ctl s0 else ctl s"
  have warm: "\<not> warm (sub_table (ctl_sub s0))" "warm (sub_table (ctl_sub s))"
    using ctl_init_view [OF s(1)] ctl_run_warm [OF s(2)] by (metis list.set_intros)+
  have side: "rfc1035 \<lparr>RCodeSuccess = 0, RCodeServerFailure = 2, TypeA = 1\<rparr>" "transparent (\<lambda>_ h. h)"
    "Intn_bounded (\<lambda>_. 0)" "path_element ''app.apps.internal.''"
    by (simp_all add: rfc1035_def transparent_def Intn_bounded_def path_element_def)
  have plain: "list_all plain_char ''app.apps.internal.''" by code_simp
  from query_lists_controller_lookup [OF side(1) sample_get_delivers [where c = ?c] side(2-4) plain, of 2] warm s
  show ?thesis by (simp add: less_Suc_eq numeral_2_eq_2) blast
qed

text \<open>
  C28: a controller that stays cold during all four tries makes the query fail: the adapter answers 500
  with a text that names the controller's refusal, and counts one failed request.
\<close>

theorem cold_controller_fails_query:
  assumes "delivers get (serverURL cl) wrap c" and "transparent wrap" and "path_element name"
    and "list_all plain_char name" and "\<forall>i<4. \<not> warm (ctl_table (c i))"
  shows "\<exists>resp. resolve D get show_response json_error intn cl name counters
      = Return (resp, counters @ [''DNSRequestFailures'']) \<and>
    response resp = (500, ''Error querying Service Discover Controller: '' @
      ''Received non successful response from server: '' @
      show_response \<lparr>StatusCode = 500, Body = Inr (''address table is not warm'' @ [CHR 0x0A])\<rparr>)"
  by (rule resolve_error [OF assms(3) IPs_all_cold [OF assms]])

theorem cold_controller_fails_query_witness:
  "\<exists>s0 resp. ctl_init sample_env ''config.json'' s0 \<and>
     resolve \<lparr>RCodeSuccess = 0, RCodeServerFailure = 2, TypeA = 1\<rparr> (sample_get (serverURL sample_client) (\<lambda>_. ctl s0))
       (\<lambda>_. ''500'') (\<lambda>_. []) (\<lambda>_. 0) sample_client ''app.apps.internal.'' [] = Return (resp, [''DNSRequestFailures'']) \<and>
     response resp = (500, ''Error querying Service Discover Controller: Received non successful response from server: 500'')"
proof -
  obtain s0 where s0: "ctl_init sample_env ''config.json'' s0" by (rule sample_run)
  then have "\<forall>i<4. \<not> warm (ctl_table (ctl s0))" by (auto elim!: ctl_init_view)
  moreover have "transparent (\<lambda>_ h. h)" "path_element ''app.apps.internal.''"
    by (simp_all add: transparent_def path_element_def)
  moreover have "list_all plain_char ''app.apps.internal.''" by code_simp
  ultimately show ?thesis
    using cold_controller_fails_query [OF sample_get_delivers [where c = "\<lambda>_. ctl s0"], where name = "''app.apps.internal.''"
        and cl = sample_client and show_response = "\<lambda>_. ''500''" and json_error = "\<lambda>_. []" and intn = "\<lambda>_. 0"
        and counters = "[]" and D = "\<lparr>RCodeSuccess = 0, RCodeServerFailure = 2, TypeA = 1\<rparr>"] s0
    by auto
qed

text \<open>
  C3: the routes of the populator are found. On a machine with at most 31 processors, with flags that
  pass the check, each goroutine's first round of messages, delivered to a started controller in any
  order and however the goroutines interleave, leaves every one of the requested route names with the
  backend host among its IPs, and counts one register message per route.
\<close>

theorem populated_routes_are_looked_up:
  assumes "checkRequiredFields parse f = Inr delay" and "numRoutes f \<le> 4611686018427387903"
    and "0 < numCPU" and "numCPU \<le> 31" and "connect (natsEndpoint f) = None" and "reliable env"
    and "list_all ascii (backendHost f)" and "list_all ascii (appName f)" and "list_all ascii (appDomain f)"
    and "RunOnce nenv (NewSubscriber opts warming t ip rec) = Return (None, s)" and "wf_table t"
  shows "\<exists>jobs. Start (populator_runner numCPU delay f) = Some (Return (Inr (map Return jobs))) \<and>
    (\<forall>ds. mset ds = mset (concat (map (round_bodies connect env delay) jobs)) \<longrightarrow>
       (\<exists>s'. deliver_bodies nenv table_interface ds s = Return s' \<and>
          (\<forall>i\<in>{0..numRoutes f - 1}. backendHost f \<in> set (Lookup (sub_table s')
             (appName f @ ''-'' @ show_int i @ ''.'' @ appDomain f))) \<and>
          sub_metrics s' = sub_metrics s @ replicate (nat (numRoutes f)) ''registerMessagesReceived''))"
proof -
  let ?job = "run_job (populator_runner numCPU delay f)"
  have f: "0 < numRoutes f" "natsEndpoint f \<noteq> []" "backendHost f \<noteq> []" "0 < backendPort f" "appDomain f \<noteq> []" "appName f \<noteq> []"
    using assms(1) by (auto simp: checkRequiredFields_def Let_def split: sum.splits if_splits)
  then have job: "validate ?job = None" "connect (PublishingEndpoint ?job) = None" "ascii_job ?job" "BackendHost ?job \<noteq> []"
    "is_int64 (EndRange ?job - StartRange ?job)"
    using assms(2,5,7-9)
    by (simp_all add: populator_runner_def NewRunner_def validate_def ascii_job_def is_int64_def minInt64_def maxInt64_def)
  from populator_jobs [OF f(1) assms(2-4)] obtain jobs where jobs:
    "Start (populator_runner numCPU delay f) = Some (Return (Inr (map Return jobs)))"
    "list_all (job_part ?job) jobs" "concat (map job_routes jobs) = [0..numRoutes f - 1]" by blast
  have bodies: "concat (map (round_bodies connect env delay) jobs) = map (route_message ?job) [0..numRoutes f - 1]"
    unfolding rounds_of_parts [where connect = connect, OF job(1,2) assms(6) job(5) jobs(2)] jobs(3) ..
  have names: "route_name ?job i = appName f @ ''-'' @ show_int i @ ''.'' @ appDomain f" "BackendHost ?job = backendHost f" for i
    by (simp_all add: populator_runner_def NewRunner_def route_name_def)
  note delivered = deliver_permuted [OF RunOnce_started(1) [OF assms(10,11)] job(3,4), of _ "[0..numRoutes f - 1]" nenv,
      unfolded names set_upto length_upto]
  show ?thesis
    by (intro exI [of _ jobs] conjI jobs(1) allI impI, unfold bodies) (drule delivered, simp)
qed

theorem populated_routes_are_looked_up_witness:
  "\<exists>s jobs s'. RunOnce (\<lambda>_ _. None)
       (NewSubscriber \<lparr>opts_ID = ''0-a'', opts_MinimumRegisterIntervalInSeconds = 30,
          opts_PruneThresholdInSeconds = 120, opts_AcceptTLS = False\<rparr> 5 (new_table 120 30 int)
          ''10.0.0.9'' (NewMetricsRecorder int)) = Return (None, s) \<and>
     Start (populator_runner 8 50000 sample_flags) = Some (Return (Inr (map Return jobs))) \<and>
     deliver_bodies (\<lambda>_ _. None) table_interface
       (rev (concat (map (round_bodies (\<lambda>_. None) (\<lambda>_ _. None) 50000) jobs))) s = Return s' \<and>
     ''10.0.0.7'' \<in> set (Lookup (sub_table s') (''app-7.apps.internal''))"
proof -
  let ?s = "NewSubscriber \<lparr>opts_ID = ''0-a'', opts_MinimumRegisterIntervalInSeconds = 30,
          opts_PruneThresholdInSeconds = 120, opts_AcceptTLS = False\<rparr> 5 (new_table 120 30 int)
          ''10.0.0.9'' (NewMetricsRecorder int)"
  obtain s where s: "RunOnce (\<lambda>_ _. None) ?s = Return (None, s)"
    using RunOnce_script [of ?s "\<lambda>_ _. None"] by (auto simp: no_failure NewSubscriber_def)
  have flags: "checkRequiredFields (\<lambda>_. Inr 50000) sample_flags = Inr 50000" by code_simp
  have f: "numRoutes sample_flags = 5000" "backendHost sample_flags = ''10.0.0.7''" "appName sample_flags = ''app''"
    "appDomain sample_flags = ''apps.internal''" by (simp_all add: sample_flags_def)
  have name: "''app'' @ ''-'' @ show_int 7 @ ''.'' @ ''apps.internal'' = ''app-7.apps.internal''" by code_simp
  have side: "reliable (\<lambda>_ _. None)" "wf_table (new_table 120 30 int)" by (simp_all add: reliable_def wf_table_New)
  obtain jobs where jobs: "Start (populator_runner 8 50000 sample_flags) = Some (Return (Inr (map Return jobs)))"
    and delivered: "\<forall>ds. mset ds = mset (concat (map (round_bodies (\<lambda>_. None) (\<lambda>_ _. None) 50000) jobs)) \<longrightarrow>
      (\<exists>s'. deliver_bodies (\<lambda>_ _. None) table_interface ds s = Return s' \<and>
        (\<forall>i\<in>{0..4999}. ''10.0.0.7'' \<in> set (Lookup (sub_table s') (''app'' @ ''-'' @ show_int i @ ''.'' @ ''apps.internal''))))"
    using populated_routes_are_looked_up [OF flags _ _ _ _ side(1) _ _ _ s side(2), of 8 "\<lambda>_. None"]
    by (simp add: f del: append_Cons append_Nil) blast
  obtain s' where "deliver_bodies (\<lambda>_ _. None) table_interface
      (rev (concat (map (round_bodies (\<lambda>_. None) (\<lambda>_ _. None) 50000) jobs))) s = Return s'"
    and all: "\<forall>i\<in>{0..4999}. ''10.0.0.7'' \<in> set (Lookup (sub_table s') (''app'' @ ''-'' @ show_int i @ ''.'' @ ''apps.internal''))"
    using delivered by (metis mset_rev)
  moreover have "''10.0.0.7'' \<in> set (Lookup (sub_table s') ''app-7.apps.internal'')"
    using bspec [OF all, of 7] unfolding name by simp
  ultimately show ?thesis using s jobs by blast
qed

end
